(* ===== verification/Prelude.thy ===== *)
theory Prelude
  imports "HOL-Library.Word" "HOL-Library.Monad_Syntax"
begin

text \<open>
  Shared vocabulary of the development: the machine integers of an RV64 build, byte memory and
  the C library's block operations on it, little-endian words, the bitmaps of the security
  monitor, and the generic lemmas on words, lists and options that the component theories use.
  \<^item> \<open>uintptr_t\<close>, \<open>size_t\<close>, \<open>unsigned long\<close>, \<open>uint64_t\<close> are \<open>u64\<close>; \<open>uint32_t\<close> and
    \<open>unsigned int\<close> are \<open>u32\<close>; bytes are \<open>u8\<close>; all arithmetic on them wraps.
  \<^item> A \<open>mem\<close> is the byte-addressed physical memory.
  \<^item> A result of type \<open>option\<close> is \<open>None\<close> when the code does not return (a failed assertion
    hangs the hart or leaves the enclave).
\<close>

unbundle bit_operations_syntax

named_theorems err_codes \<open>the numeric values of the error codes\<close>
named_theorems cfg_defs \<open>the configuration constants of the platform\<close>
named_theorems hw_consts \<open>register encodings of the RISC-V privileged architecture\<close>

type_synonym u8 = "8 word"
type_synonym u16 = "16 word"
type_synonym u32 = "32 word"
type_synonym u64 = "64 word"
type_synonym mem = "u64 \<Rightarrow> u8"

section \<open>Memory blocks\<close>

text \<open>\<open>memset\<close>: the bytes at \<open>base\<close>, \<open>base + 1\<close>, \<dots> (\<open>len\<close> of them) become \<open>v\<close>.\<close>

definition mem_set :: "u64 \<Rightarrow> u8 \<Rightarrow> u64 \<Rightarrow> mem \<Rightarrow> mem" where
  "mem_set base v len m = (\<lambda>a. if a - base < len then v else m a)"

definition mem_read :: "mem \<Rightarrow> u64 \<Rightarrow> nat \<Rightarrow> u8 list" where
  "mem_read m base n = map (\<lambda>i. m (base + of_nat i)) [0..<n]"

fun mem_write :: "u64 \<Rightarrow> u8 list \<Rightarrow> mem \<Rightarrow> mem" where
  "mem_write a [] m = m"
| "mem_write a (b # bs) m = mem_write (a + 1) bs (m(a := b))"

text \<open>Little-endian loads and stores of a 64-bit word.\<close>

definition word_bytes :: "u64 \<Rightarrow> u8 list" where
  "word_bytes w = map (\<lambda>i. ucast (drop_bit (8 * i) w)) [0..<8]"

definition bytes_word :: "u8 list \<Rightarrow> u64" where
  "bytes_word bs = foldr (\<lambda>b acc. push_bit 8 acc OR ucast b) bs 0"

definition load64 :: "mem \<Rightarrow> u64 \<Rightarrow> u64" where
  "load64 m a = bytes_word (mem_read m a 8)"

definition store64 :: "u64 \<Rightarrow> u64 \<Rightarrow> mem \<Rightarrow> mem" where
  "store64 a w m = mem_write a (word_bytes w) m"

lemma length_mem_read [simp]: "length (mem_read m a n) = n"
  by (simp add: mem_read_def)

lemma length_word_bytes [simp]: "length (word_bytes w) = 8"
  by (simp add: word_bytes_def)

lemma mem_read_0 [simp]: "mem_read m a 0 = []"
  by (simp add: mem_read_def)

lemma mem_read_nth [simp]: "i < n \<Longrightarrow> mem_read m a n ! i = m (a + of_nat i)"
  by (simp add: mem_read_def)

lemma mem_read_Suc: "mem_read m a (Suc n) = m a # mem_read m (a + 1) n"
  by (rule nth_equalityI) (auto simp: nth_Cons' algebra_simps of_nat_diff)

lemma mem_read_add: "mem_read m a (i + j) = mem_read m a i @ mem_read m (a + of_nat i) j"
  by (rule nth_equalityI) (auto simp: nth_append algebra_simps of_nat_diff)

lemma mem_write_append:
  "mem_write a (xs @ ys) m = mem_write (a + of_nat (length xs)) ys (mem_write a xs m)"
  by (induction xs arbitrary: a m) (simp_all add: algebra_simps)

lemma mem_set_same [simp]: "a - base < len \<Longrightarrow> mem_set base v len m a = v"
  by (simp add: mem_set_def)

lemma mem_set_other [simp]: "\<not> a - base < len \<Longrightarrow> mem_set base v len m a = m a"
  by (simp add: mem_set_def)

text \<open>A write of fewer than $2^{64}$ bytes changes exactly the bytes of its range.\<close>

lemma mem_write_apply:
  assumes "length bs < 2 ^ 64"
  shows "mem_write a bs m x =
           (if unat (x - a) < length bs then bs ! unat (x - a) else m x)"
  using assms
proof (induction bs arbitrary: a m)
  case Nil
  then show ?case by simp
next
  case (Cons b bs)
  have IH: "mem_write (a + 1) bs (m(a := b)) x =
      (if unat (x - (a + 1)) < length bs then bs ! unat (x - (a + 1)) else (m(a := b)) x)"
    using Cons.prems by (intro Cons.IH) simp
  show ?case
  proof (cases "x = a")
    case True
    have "unat (x - (a + 1)) = 2 ^ 64 - 1"
      by (simp add: True unsigned_minus_1_eq_mask mask_eq_exp_minus_1)
    with Cons.prems True IH show ?thesis by simp
  next
    case False
    define d where "d = x - a"
    have "d \<noteq> 0" using False by (simp add: d_def)
    then have u: "unat d = Suc (unat (d - 1))"
      using unat_minus_one [of d] unat_gt_0 [of d] by simp
    have e: "x - (a + 1) = d - 1" by (simp add: d_def)
    show ?thesis
      using IH False by (simp add: e u d_def [symmetric])
  qed
qed

lemma mem_read_write:
  assumes "length bs < 2 ^ 64"
  shows "mem_read (mem_write a bs m) a (length bs) = bs"
proof (rule nth_equalityI)
  fix i assume "i < length (mem_read (mem_write a bs m) a (length bs))"
  then have "i < length bs" by simp
  moreover from this assms have "unat (of_nat i :: u64) = i"
    by (simp add: unat_of_nat)
  ultimately show "mem_read (mem_write a bs m) a (length bs) ! i = bs ! i"
    using assms by (simp add: mem_write_apply)
qed simp

lemma mem_read_cong:
  "(\<And>i. i < n \<Longrightarrow> m (a + of_nat i) = m' (a + of_nat i)) \<Longrightarrow> mem_read m a n = mem_read m' a n"
  by (rule nth_equalityI) auto

section \<open>Little-endian words\<close>

lemma bytes_word_Nil [simp]: "bytes_word [] = 0"
  by (simp add: bytes_word_def)

lemma bytes_word_Cons: "bytes_word (b # bs) = push_bit 8 (bytes_word bs) OR ucast b"
  by (simp add: bytes_word_def)

lemma bit_bytes_word:
  "n < 64 \<Longrightarrow> bit (bytes_word bs) n \<longleftrightarrow> n div 8 < length bs \<and> bit (bs ! (n div 8)) (n mod 8)"
proof (induction bs arbitrary: n)
  case Nil
  then show ?case by simp
next
  case (Cons b bs)
  show ?case
  proof (cases "n < 8")
    case True
    with Cons.prems show ?thesis
      by (simp add: bytes_word_Cons bit_or_iff bit_push_bit_iff bit_simps)
  next
    case False
    define k where "k = n - 8"
    have n: "n = k + 8" using False by (simp add: k_def)
    then have d: "n div 8 = Suc (k div 8)" and m: "n mod 8 = k mod 8" by simp_all
    have "bit (ucast b :: u64) n = False"
      using n by (auto simp: bit_simps dest: bit_imp_le_length)
    moreover have "bit (push_bit 8 (bytes_word bs)) n = bit (bytes_word bs) k"
      using Cons.prems n by (simp add: bit_push_bit_iff)
    ultimately show ?thesis
      using Cons.IH [of k] Cons.prems n d m by (simp add: bytes_word_Cons bit_or_iff)
  qed
qed

lemma bytes_word_bytes [simp]: "bytes_word (word_bytes w) = w"
proof (rule bit_word_eqI)
  fix n assume "n < LENGTH(64)"
  then have n: "n < 64" by simp
  then have "n div 8 < 8" by simp
  with n show "bit (bytes_word (word_bytes w)) n = bit w n"
    by (simp add: bit_bytes_word) (simp add: word_bytes_def bit_simps)
qed

lemma load_store64 [simp]: "load64 (store64 a w m) a = w"
  using mem_read_write [of "word_bytes w" a m] by (simp add: load64_def store64_def)

section \<open>Bitmaps\<close>

text \<open>
  The macros \<open>SET_BIT\<close>, \<open>UNSET_BIT\<close>, \<open>TEST_BIT\<close> of \<open>pmp.h\<close> shift the \<open>int\<close> constant 1
  by \<open>n\<close>; RV64's 32-bit shift reads the low five bits of \<open>n\<close>.
\<close>

definition BIT_MASK :: "int \<Rightarrow> u32" where
  "BIT_MASK n = push_bit (nat (n mod 32)) 1"

definition SET_BIT :: "u32 \<Rightarrow> int \<Rightarrow> u32" where
  "SET_BIT bitmap n = bitmap OR BIT_MASK n"

definition UNSET_BIT :: "u32 \<Rightarrow> int \<Rightarrow> u32" where
  "UNSET_BIT bitmap n = bitmap AND NOT (BIT_MASK n)"

definition TEST_BIT :: "u32 \<Rightarrow> int \<Rightarrow> bool" where
  "TEST_BIT bitmap n \<longleftrightarrow> bitmap AND BIT_MASK n \<noteq> 0"

lemma bit_BIT_MASK: "0 \<le> n \<Longrightarrow> n < 32 \<Longrightarrow> bit (BIT_MASK n) k \<longleftrightarrow> k = nat n"
  by (auto simp: BIT_MASK_def bit_simps)

lemma TEST_BIT_iff: "0 \<le> n \<Longrightarrow> n < 32 \<Longrightarrow> TEST_BIT b n \<longleftrightarrow> bit b (nat n)"
  unfolding TEST_BIT_def bit_eq_iff [of _ "0 :: u32"]
  by (auto simp: bit_and_iff bit_BIT_MASK)

lemma TEST_SET_BIT:
  "0 \<le> n \<Longrightarrow> n < 32 \<Longrightarrow> 0 \<le> k \<Longrightarrow> k < 32 \<Longrightarrow> TEST_BIT (SET_BIT b n) k \<longleftrightarrow> k = n \<or> TEST_BIT b k"
  by (auto simp: TEST_BIT_iff SET_BIT_def bit_or_iff bit_BIT_MASK)

lemma TEST_UNSET_BIT:
  "0 \<le> n \<Longrightarrow> n < 32 \<Longrightarrow> 0 \<le> k \<Longrightarrow> k < 32 \<Longrightarrow> TEST_BIT (UNSET_BIT b n) k \<longleftrightarrow> k \<noteq> n \<and> TEST_BIT b k"
  by (auto simp: TEST_BIT_iff UNSET_BIT_def bit_and_iff bit_not_iff bit_BIT_MASK)

lemma TEST_BIT_nat: "i < 32 \<Longrightarrow> TEST_BIT b (int i) = bit b i"
  by (simp add: TEST_BIT_iff)

lemma TEST_BIT_mod: "TEST_BIT b n = bit b (nat (n mod 32))"
proof -
  have "TEST_BIT b n = TEST_BIT b (int (nat (n mod 32)))"
    by (simp only: TEST_BIT_def BIT_MASK_def) simp
  then show ?thesis by (simp add: TEST_BIT_iff)
qed

lemma bit_SET_BIT:
  assumes "n < 32"
  shows "bit (SET_BIT b (int n)) k \<longleftrightarrow> bit b k \<or> k = n"
  using assms by (auto simp: SET_BIT_def bit_or_iff bit_BIT_MASK)

lemma bit_UNSET_BIT:
  assumes "n < 32"
  shows "bit (UNSET_BIT b (int n)) k \<longleftrightarrow> bit b k \<and> k \<noteq> n"
  using assms bit_imp_le_length [of b k]
  by (auto simp: UNSET_BIT_def bit_and_iff bit_not_iff bit_BIT_MASK)

section \<open>Options, searches and sums\<close>

lemma if_None_eq_Some [simp]: "(if c then None else x) = Some y \<longleftrightarrow> \<not> c \<and> x = Some y"
  by simp

lemma find_upt_SomeD:
  assumes "find P [0..<n] = Some k"
  shows "k < n" and "P k"
  using assms by (auto simp: find_Some_iff)

lemma unat_add_small:
  fixes a b :: u64
  assumes "unat a + unat b < 2 ^ 64"
  shows "unat (a + b) = unat a + unat b"
  using assms unat_add_lem [of a b] by simp

lemma unat_u64_less: "unat (a :: u64) < 2 ^ 64"
  using unsigned_less [of a] by simp

lemma and_mask_eq_0_iff: "a AND mask n = 0 \<longleftrightarrow> unat a mod 2 ^ n = 0" for a :: u64
proof -
  have "a AND mask n = 0 \<longleftrightarrow> unat (take_bit n a) = 0"
    by (simp add: take_bit_eq_mask [symmetric] word_unat_eq_iff)
  then show ?thesis by (simp add: unsigned_take_bit_eq take_bit_eq_mod [of _ "unat a"])
qed

lemma and_7_eq_0_iff: "a AND 7 = 0 \<longleftrightarrow> unat a mod 8 = 0" for a :: u64
  using and_mask_eq_0_iff [of a 3] by (simp add: mask_eq_exp_minus_1)

text \<open>Words that do not overlap.\<close>

lemma load_store64_other:
  assumes "8 \<le> unat (b - a)" and "unat (b - a) \<le> 2 ^ 64 - 8"
  shows "load64 (store64 a w m) b = load64 m b"
proof -
  have "mem_read (mem_write a (word_bytes w) m) b 8 = mem_read m b 8"
  proof (rule mem_read_cong)
    fix i :: nat assume i: "i < 8"
    have "unat (b + of_nat i - a) = unat (b - a) + i"
    proof -
      have e: "b + of_nat i - a = (b - a) + of_nat i" by simp
      have "unat (of_nat i :: u64) = i" using i by (simp add: unsigned_of_nat take_bit_nat_eq_self)
      then show ?thesis using unat_add_small [of "b - a" "of_nat i"] assms(2) i unfolding e by simp
    qed
    then show "mem_write a (word_bytes w) m (b + of_nat i) = m (b + of_nat i)"
      using assms(1) by (simp add: mem_write_apply)
  qed
  then show ?thesis by (simp add: load64_def store64_def)
qed

section \<open>Interfaces\<close>

text \<open>
  A hash that takes its message in pieces: the context after several updates is the one after a
  single update with all the bytes.
\<close>

locale incremental_hash =
  fixes start :: 'c
    and update :: "'c \<Rightarrow> 'b list \<Rightarrow> 'c"
    and final :: "'c \<Rightarrow> 'd"
    and hash :: "'b list \<Rightarrow> 'd"
  assumes update_Nil: "update c [] = c"
    and update_append: "update (update c xs) ys = update c (xs @ ys)"
    and final_update: "final (update start xs) = hash xs"
begin

lemma foldl_update: "foldl update c parts = update c (concat parts)"
  by (induction parts arbitrary: c) (simp_all add: update_Nil update_append)

lemma hash_pieces: "final (foldl update start parts) = hash (concat parts)"
  by (simp add: foldl_update final_update)

end

text \<open>A machine with labelled steps, and a predicate that every step keeps.\<close>

inductive steps_of :: "('e \<Rightarrow> 's \<Rightarrow> 's \<Rightarrow> bool) \<Rightarrow> 's \<Rightarrow> 's \<Rightarrow> bool" for step where
  steps_refl: "steps_of step s s"
| steps_step: "steps_of step s t \<Longrightarrow> step e t u \<Longrightarrow> steps_of step s u"

locale state_invariant =
  fixes step :: "'e \<Rightarrow> 's \<Rightarrow> 's \<Rightarrow> bool"
    and inv :: "'s \<Rightarrow> bool"
  assumes step_keeps: "inv s \<Longrightarrow> step e s s' \<Longrightarrow> inv s'"
begin

lemma steps_keep: "steps_of step s s' \<Longrightarrow> inv s \<Longrightarrow> inv s'"
  by (induction rule: steps_of.induct) (auto intro: step_keeps)

text \<open>What every step from a good state preserves is preserved by a run from a good state.\<close>

lemma steps_preserve:
  assumes "steps_of step s s'" and "inv s" and "\<And>e t u. inv t \<Longrightarrow> step e t u \<Longrightarrow> R t u"
    and "\<And>t. R t t" and "\<And>t u v. R t u \<Longrightarrow> R u v \<Longrightarrow> R t v"
  shows "R s s'"
  using assms(1,2)
proof (induction rule: steps_of.induct)
  case (steps_step s t e u)
  then show ?case using assms(3,5) steps_keep by blast
qed (rule assms(4))

end

end
