(* ===== verification/SM_Interface.thy ===== *)
theory SM_Interface
  imports Prelude
begin

text \<open>
  The interface between the security monitor and its callers: the error codes of
  \<open>sdk/include/shared/sm_err.h\<close>, and the function numbers, stop requests and argument
  structures of \<open>sdk/include/shared/sm_call.h\<close>. The codes are small non-negative C integers;
  every function that returns one (as \<open>int\<close> or as \<open>unsigned long\<close>) returns a \<open>u64\<close> here.
\<close>

section \<open>Error codes\<close>

definition SBI_ERR_SM_ENCLAVE_SUCCESS :: u64 where [err_codes]: "SBI_ERR_SM_ENCLAVE_SUCCESS = 0"
definition SBI_ERR_SM_ENCLAVE_UNKNOWN_ERROR :: u64 where [err_codes]: "SBI_ERR_SM_ENCLAVE_UNKNOWN_ERROR = 100000"
definition SBI_ERR_SM_ENCLAVE_INVALID_ID :: u64 where [err_codes]: "SBI_ERR_SM_ENCLAVE_INVALID_ID = 100001"
definition SBI_ERR_SM_ENCLAVE_INTERRUPTED :: u64 where [err_codes]: "SBI_ERR_SM_ENCLAVE_INTERRUPTED = 100002"
definition SBI_ERR_SM_ENCLAVE_PMP_FAILURE :: u64 where [err_codes]: "SBI_ERR_SM_ENCLAVE_PMP_FAILURE = 100003"
definition SBI_ERR_SM_ENCLAVE_NOT_RUNNABLE :: u64 where [err_codes]: "SBI_ERR_SM_ENCLAVE_NOT_RUNNABLE = 100004"
definition SBI_ERR_SM_ENCLAVE_NOT_DESTROYABLE :: u64 where [err_codes]: "SBI_ERR_SM_ENCLAVE_NOT_DESTROYABLE = 100005"
definition SBI_ERR_SM_ENCLAVE_REGION_OVERLAPS :: u64 where [err_codes]: "SBI_ERR_SM_ENCLAVE_REGION_OVERLAPS = 100006"
definition SBI_ERR_SM_ENCLAVE_NOT_ACCESSIBLE :: u64 where [err_codes]: "SBI_ERR_SM_ENCLAVE_NOT_ACCESSIBLE = 100007"
definition SBI_ERR_SM_ENCLAVE_ILLEGAL_ARGUMENT :: u64 where [err_codes]: "SBI_ERR_SM_ENCLAVE_ILLEGAL_ARGUMENT = 100008"
definition SBI_ERR_SM_ENCLAVE_NOT_RUNNING :: u64 where [err_codes]: "SBI_ERR_SM_ENCLAVE_NOT_RUNNING = 100009"
definition SBI_ERR_SM_ENCLAVE_NOT_RESUMABLE :: u64 where [err_codes]: "SBI_ERR_SM_ENCLAVE_NOT_RESUMABLE = 100010"
definition SBI_ERR_SM_ENCLAVE_EDGE_CALL_HOST :: u64 where [err_codes]: "SBI_ERR_SM_ENCLAVE_EDGE_CALL_HOST = 100011"
definition SBI_ERR_SM_ENCLAVE_NOT_INITIALIZED :: u64 where [err_codes]: "SBI_ERR_SM_ENCLAVE_NOT_INITIALIZED = 100012"
definition SBI_ERR_SM_ENCLAVE_NO_FREE_RESOURCE :: u64 where [err_codes]: "SBI_ERR_SM_ENCLAVE_NO_FREE_RESOURCE = 100013"
definition SBI_ERR_SM_ENCLAVE_SBI_PROHIBITED :: u64 where [err_codes]: "SBI_ERR_SM_ENCLAVE_SBI_PROHIBITED = 100014"
definition SBI_ERR_SM_ENCLAVE_ILLEGAL_PTE :: u64 where [err_codes]: "SBI_ERR_SM_ENCLAVE_ILLEGAL_PTE = 100015"
definition SBI_ERR_SM_ENCLAVE_NOT_FRESH :: u64 where [err_codes]: "SBI_ERR_SM_ENCLAVE_NOT_FRESH = 100016"
definition SBI_ERR_SM_DEPRECATED :: u64 where [err_codes]: "SBI_ERR_SM_DEPRECATED = 100099"
definition SBI_ERR_SM_NOT_IMPLEMENTED :: u64 where [err_codes]: "SBI_ERR_SM_NOT_IMPLEMENTED = 100100"
definition SBI_ERR_SM_PMP_SUCCESS :: u64 where [err_codes]: "SBI_ERR_SM_PMP_SUCCESS = 0"
definition SBI_ERR_SM_PMP_REGION_SIZE_INVALID :: u64 where [err_codes]: "SBI_ERR_SM_PMP_REGION_SIZE_INVALID = 100020"
definition SBI_ERR_SM_PMP_REGION_NOT_PAGE_GRANULARITY :: u64 where [err_codes]: "SBI_ERR_SM_PMP_REGION_NOT_PAGE_GRANULARITY = 100021"
definition SBI_ERR_SM_PMP_REGION_NOT_ALIGNED :: u64 where [err_codes]: "SBI_ERR_SM_PMP_REGION_NOT_ALIGNED = 100022"
definition SBI_ERR_SM_PMP_REGION_MAX_REACHED :: u64 where [err_codes]: "SBI_ERR_SM_PMP_REGION_MAX_REACHED = 100023"
definition SBI_ERR_SM_PMP_REGION_INVALID :: u64 where [err_codes]: "SBI_ERR_SM_PMP_REGION_INVALID = 100024"
definition SBI_ERR_SM_PMP_REGION_OVERLAP :: u64 where [err_codes]: "SBI_ERR_SM_PMP_REGION_OVERLAP = 100025"
definition SBI_ERR_SM_PMP_REGION_IMPOSSIBLE_TOR :: u64 where [err_codes]: "SBI_ERR_SM_PMP_REGION_IMPOSSIBLE_TOR = 100026"

section \<open>Function numbers and stop requests\<close>

definition FID_RANGE_DEPRECATED :: u64 where [err_codes]: "FID_RANGE_DEPRECATED = 1999"
definition SBI_SM_CREATE_ENCLAVE :: u64 where [err_codes]: "SBI_SM_CREATE_ENCLAVE = 2001"
definition SBI_SM_DESTROY_ENCLAVE :: u64 where [err_codes]: "SBI_SM_DESTROY_ENCLAVE = 2002"
definition SBI_SM_RUN_ENCLAVE :: u64 where [err_codes]: "SBI_SM_RUN_ENCLAVE = 2003"
definition SBI_SM_RESUME_ENCLAVE :: u64 where [err_codes]: "SBI_SM_RESUME_ENCLAVE = 2005"
definition FID_RANGE_HOST :: u64 where [err_codes]: "FID_RANGE_HOST = 2999"
definition SBI_SM_RANDOM :: u64 where [err_codes]: "SBI_SM_RANDOM = 3001"
definition SBI_SM_ATTEST_ENCLAVE :: u64 where [err_codes]: "SBI_SM_ATTEST_ENCLAVE = 3002"
definition SBI_SM_GET_SEALING_KEY :: u64 where [err_codes]: "SBI_SM_GET_SEALING_KEY = 3003"
definition SBI_SM_STOP_ENCLAVE :: u64 where [err_codes]: "SBI_SM_STOP_ENCLAVE = 3004"
definition SBI_SM_EXIT_ENCLAVE :: u64 where [err_codes]: "SBI_SM_EXIT_ENCLAVE = 3006"
definition FID_RANGE_ENCLAVE :: u64 where [err_codes]: "FID_RANGE_ENCLAVE = 3999"
definition SBI_SM_CALL_PLUGIN :: u64 where [err_codes]: "SBI_SM_CALL_PLUGIN = 4000"
definition FID_RANGE_CUSTOM :: u64 where [err_codes]: "FID_RANGE_CUSTOM = 4999"
definition SM_MULTIMEM_PLUGIN_ID :: u64 where [err_codes]: "SM_MULTIMEM_PLUGIN_ID = 1"
definition SM_MULTIMEM_CALL_GET_SIZE :: u64 where [err_codes]: "SM_MULTIMEM_CALL_GET_SIZE = 1"
definition SM_MULTIMEM_CALL_GET_ADDR :: u64 where [err_codes]: "SM_MULTIMEM_CALL_GET_ADDR = 2"
definition STOP_TIMER_INTERRUPT :: u64 where [err_codes]: "STOP_TIMER_INTERRUPT = 0"
definition STOP_EDGE_CALL_HOST :: u64 where [err_codes]: "STOP_EDGE_CALL_HOST = 1"
definition STOP_EXIT_ENCLAVE :: u64 where [err_codes]: "STOP_EXIT_ENCLAVE = 2"

section \<open>Argument structures\<close>

text \<open>\<open>struct runtime_params_t\<close>: what the monitor hands to the enclave's loader.\<close>

record runtime_params_t =
  dram_base :: u64
  dram_size :: u64
  runtime_base :: u64
  user_base :: u64
  free_base :: u64
  untrusted_base :: u64
  untrusted_size :: u64
  free_requested :: u64

text \<open>\<open>struct keystone_sbi_pregion_t\<close> and \<open>struct keystone_sbi_create_t\<close>.\<close>

record keystone_sbi_pregion_t =
  paddr :: u64
  pr_size :: u64

record keystone_sbi_create_t =
  epm_region :: keystone_sbi_pregion_t
  utm_region :: keystone_sbi_pregion_t
  runtime_paddr :: u64
  user_paddr :: u64
  free_paddr :: u64
  ca_free_requested :: u64

text \<open>The structure as the eight words it is in memory.\<close>

definition create_args_at :: "mem \<Rightarrow> u64 \<Rightarrow> keystone_sbi_create_t" where
  "create_args_at m a =
     \<lparr>epm_region = \<lparr>paddr = load64 m a, pr_size = load64 m (a + 8)\<rparr>,
      utm_region = \<lparr>paddr = load64 m (a + 16), pr_size = load64 m (a + 24)\<rparr>,
      runtime_paddr = load64 m (a + 32),
      user_paddr = load64 m (a + 40),
      free_paddr = load64 m (a + 48),
      ca_free_requested = load64 m (a + 56)\<rparr>"

end
