(* ===== verification/Platform.thy ===== *)
theory Platform
  imports Prelude
begin

text \<open>
  The generic platform (\<open>sm/src/platform/generic\<close>): the sizes the monitor is built with and
  the platform's random number source. The hooks that take an enclave are in \<open>Enclave\<close>.
\<close>

section \<open>Configuration\<close>

definition ENCL_MAX :: nat where [cfg_defs]: "ENCL_MAX = 16"
definition ENCLAVE_REGIONS_MAX :: nat where [cfg_defs]: "ENCLAVE_REGIONS_MAX = 8"
definition SMM_BASE :: u64 where [cfg_defs]: "SMM_BASE = 0x80000000"
definition SMM_SIZE :: u64 where [cfg_defs]: "SMM_SIZE = 0x200000"
definition PMP_N_REG :: nat where [cfg_defs]: "PMP_N_REG = 8"
definition PMP_MAX_N_REGION :: nat where [cfg_defs]: "PMP_MAX_N_REGION = 16"
definition MAX_HARTS :: nat where [cfg_defs]: "MAX_HARTS = 16"

text \<open>Page size (\<open>sm/src/page.h\<close>).\<close>

definition RISCV_PGSHIFT :: nat where [cfg_defs]: "RISCV_PGSHIFT = 12"
definition RISCV_PGSIZE :: u64 where [cfg_defs]: "RISCV_PGSIZE = 4096"

section \<open>Random numbers\<close>

text \<open>
  \<open>platform_random\<close> keeps a Weyl sequence \<open>w\<close> in a static variable and mixes it with the
  square of the cycle counter; \<open>cycles\<close> is the value read by \<open>rdcycle\<close>.
\<close>

definition weyl_s :: u64 where
  "weyl_s = 0xb5ad4eceda1ce2a9"

definition platform_random :: "u64 \<Rightarrow> u64 \<Rightarrow> u64 \<times> u64" where
  "platform_random cycles w =
     (let w = w + weyl_s; x = cycles * cycles + w
      in (drop_bit 32 x OR push_bit 32 x, w))"

end
