(* ===== verification/PMP.thy ===== *)
theory PMP
  imports SM_Interface Platform
begin

text \<open>
  The PMP manager of the security monitor (\<open>sm/src/pmp.c\<close>, \<open>sm/src/pmp.h\<close>).
  \<^item> \<open>pmp_state\<close> holds the globals of \<open>pmp.c\<close>: the region table and the two bitmaps.
  \<^item> \<open>pmp_csrs\<close> holds the PMP registers of one hart.
  \<^item> \<open>None\<close> is a failed \<open>sm_assert\<close>, which hangs the hart.
  Functions that take \<open>pmp_lock\<close> run their body atomically.
\<close>

section \<open>Data\<close>

text \<open>Encodings of the PMP configuration byte.\<close>

definition PMP_R :: u8 where [hw_consts]: "PMP_R = 1"
definition PMP_W :: u8 where [hw_consts]: "PMP_W = 2"
definition PMP_X :: u8 where [hw_consts]: "PMP_X = 4"
definition PMP_A_TOR :: u8 where [hw_consts]: "PMP_A_TOR = 8"
definition PMP_A_NAPOT :: u8 where [hw_consts]: "PMP_A_NAPOT = 24"

datatype pmp_priority = PMP_PRI_ANY | PMP_PRI_TOP | PMP_PRI_BOTTOM

definition PMP_ALL_PERM :: u8 where "PMP_ALL_PERM = PMP_W OR PMP_X OR PMP_R"
definition PMP_NO_PERM :: u8 where "PMP_NO_PERM = 0"

text \<open>The registers and the configuration register (group) each belongs to, on RV64.\<close>

definition LIST_OF_PMP_REGS :: "(nat \<times> nat) list" where
  "LIST_OF_PMP_REGS =
     [(0, 0), (1, 0), (2, 0), (3, 0), (4, 0), (5, 0), (6, 0), (7, 0),
      (8, 2), (9, 2), (10, 2), (11, 2), (12, 2), (13, 2), (14, 2), (15, 2)]"

definition PMP_PER_GROUP :: nat where [cfg_defs]: "PMP_PER_GROUP = 8"

record pmp_region =
  rg_size :: u64
  rg_addrmode :: u8
  rg_addr :: u64
  rg_allow_overlap :: bool
  rg_reg_idx :: int

record pmp_state =
  regions :: "pmp_region list"
  reg_bitmap :: u32
  region_def_bitmap :: u32

record pmp_csrs =
  pmpaddr :: "nat \<Rightarrow> u64"
  pmpcfg :: "nat \<Rightarrow> u64"

text \<open>The globals as the C runtime initialises them.\<close>

definition region_zero :: pmp_region where
  "region_zero = \<lparr>rg_size = 0, rg_addrmode = 0, rg_addr = 0, rg_allow_overlap = False,
     rg_reg_idx = 0\<rparr>"

definition pmp_state_zero :: pmp_state where
  "pmp_state_zero = \<lparr>regions = replicate PMP_MAX_N_REGION region_zero, reg_bitmap = 0,
     region_def_bitmap = 0\<rparr>"

section \<open>Region getters and setters\<close>

definition region_register_idx :: "pmp_state \<Rightarrow> int \<Rightarrow> int" where
  "region_register_idx p i = rg_reg_idx (regions p ! nat i)"

definition region_allows_overlap :: "pmp_state \<Rightarrow> int \<Rightarrow> bool" where
  "region_allows_overlap p i = rg_allow_overlap (regions p ! nat i)"

definition region_get_addr :: "pmp_state \<Rightarrow> int \<Rightarrow> u64" where
  "region_get_addr p i = rg_addr (regions p ! nat i)"

definition region_get_size :: "pmp_state \<Rightarrow> int \<Rightarrow> u64" where
  "region_get_size p i = rg_size (regions p ! nat i)"

definition region_is_napot :: "pmp_state \<Rightarrow> int \<Rightarrow> bool" where
  "region_is_napot p i \<longleftrightarrow> rg_addrmode (regions p ! nat i) = PMP_A_NAPOT"

definition region_is_tor :: "pmp_state \<Rightarrow> int \<Rightarrow> bool" where
  "region_is_tor p i \<longleftrightarrow> rg_addrmode (regions p ! nat i) = PMP_A_TOR"

definition region_needs_two_entries :: "pmp_state \<Rightarrow> int \<Rightarrow> bool" where
  "region_needs_two_entries p i \<longleftrightarrow> region_is_tor p i \<and> rg_reg_idx (regions p ! nat i) > 0"

definition region_is_napot_all :: "pmp_state \<Rightarrow> int \<Rightarrow> bool" where
  "region_is_napot_all p i \<longleftrightarrow>
     rg_addr (regions p ! nat i) = 0 \<and> rg_size (regions p ! nat i) = - 1"

definition region_pmpaddr_val :: "pmp_state \<Rightarrow> int \<Rightarrow> u64" where
  "region_pmpaddr_val p i =
     (let r = regions p ! nat i in
      if region_is_napot_all p i then - 1
      else if region_is_napot p i then drop_bit 2 (rg_addr r OR (rg_size r div 2 - 1))
      else if region_is_tor p i then drop_bit 2 (rg_addr r + rg_size r)
      else 0)"

definition region_pmpcfg_val :: "pmp_state \<Rightarrow> int \<Rightarrow> int \<Rightarrow> u8 \<Rightarrow> u64" where
  "region_pmpcfg_val p i reg_idx perm_bits =
     push_bit (8 * (nat reg_idx mod PMP_PER_GROUP))
       (ucast (rg_addrmode (regions p ! nat i) OR perm_bits))"

definition region_clear_all :: "int \<Rightarrow> pmp_state \<Rightarrow> pmp_state" where
  "region_clear_all i p =
     p\<lparr>regions := (regions p)[nat i := (regions p ! nat i)
         \<lparr>rg_addr := 0, rg_size := 0, rg_addrmode := 0, rg_allow_overlap := False,
          rg_reg_idx := 0\<rparr>]\<rparr>"

definition region_init ::
  "int \<Rightarrow> u64 \<Rightarrow> u64 \<Rightarrow> u8 \<Rightarrow> bool \<Rightarrow> int \<Rightarrow> pmp_state \<Rightarrow> pmp_state" where
  "region_init i addr sz addrmode allow_overlap reg_idx p =
     p\<lparr>regions := (regions p)[nat i := (regions p ! nat i)
         \<lparr>rg_addr := addr, rg_size := sz, rg_addrmode := addrmode,
          rg_allow_overlap := allow_overlap,
          rg_reg_idx := (if addrmode = PMP_A_TOR \<and> reg_idx > 0 then reg_idx + 1 else reg_idx)\<rparr>]\<rparr>"

definition is_pmp_region_valid :: "pmp_state \<Rightarrow> int \<Rightarrow> bool" where
  "is_pmp_region_valid p region_idx = TEST_BIT (region_def_bitmap p) region_idx"

section \<open>Searching a bitmap\<close>

text \<open>
  The loop of \<open>search_rightmost_unset\<close>. The assertion before it gives \<open>max < 32\<close>; a zero
  mask returns at once, and any other mask doubles until it reaches \<open>2 ^ max\<close>.
\<close>

lemma unat_push_bit_1:
  fixes m :: u32
  assumes "unat m < 2 ^ 31"
  shows "unat (push_bit 1 m) = 2 * unat m"
proof -
  have "push_bit 1 m = m * 2" by (simp add: push_bit_eq_mult)
  with assms show ?thesis by (simp add: unat_word_ariths)
qed

function search_loop :: "u32 \<Rightarrow> nat \<Rightarrow> u32 \<Rightarrow> int \<Rightarrow> int" where
  "search_loop bitmap max_n msk i =
     (if unat msk < 2 ^ max_n \<and> max_n < 32
      then if NOT bitmap AND msk = msk then i
           else search_loop bitmap max_n (push_bit 1 msk) (i + 1)
      else - 1)"
  by pat_completeness auto
termination
proof (relation "measure (\<lambda>(bitmap, max_n, msk, i). 2 ^ max_n - unat msk)")
  fix bitmap msk :: u32 and max_n :: nat and i :: int
  assume 1: "unat msk < 2 ^ max_n \<and> max_n < 32" and 2: "NOT bitmap AND msk \<noteq> msk"
  from 2 have "msk \<noteq> 0" by auto
  then have "0 < unat msk" by (simp add: unat_gt_0)
  moreover have "(2::nat) ^ max_n \<le> 2 ^ 31" using 1 by (intro power_increasing) auto
  then have "unat (push_bit 1 msk) = 2 * unat msk" using 1 by (intro unat_push_bit_1) linarith
  ultimately show "((bitmap, max_n, push_bit 1 msk, i + 1), bitmap, max_n, msk, i)
      \<in> measure (\<lambda>(bitmap, max_n, msk, i). 2 ^ max_n - unat msk)"
    using 1 by (simp add: diff_less_mono2)
qed simp

declare search_loop.simps [simp del]

definition search_rightmost_unset :: "u32 \<Rightarrow> nat \<Rightarrow> u32 \<Rightarrow> int option" where
  "search_rightmost_unset bitmap max_n msk =
     (if \<not> max_n < 32 then None
      else if (msk + 1) AND msk \<noteq> 0 then None
      else Some (search_loop bitmap max_n msk 0))"

definition get_free_region_idx :: "pmp_state \<Rightarrow> int option" where
  "get_free_region_idx p = search_rightmost_unset (region_def_bitmap p) PMP_MAX_N_REGION 1"

definition get_free_reg_idx :: "pmp_state \<Rightarrow> int option" where
  "get_free_reg_idx p = search_rightmost_unset (reg_bitmap p) PMP_N_REG 1"

definition get_conseq_free_reg_idx :: "pmp_state \<Rightarrow> int option" where
  "get_conseq_free_reg_idx p = search_rightmost_unset (reg_bitmap p) PMP_N_REG 3"

section \<open>Overlap detection\<close>

text \<open>\<open>CHECKED_ADD\<close>: \<open>None\<close> when the sum overflows.\<close>

definition CHECKED_ADD :: "u64 \<Rightarrow> u64 \<Rightarrow> u64 option" where
  "CHECKED_ADD a b = (if unat a + unat b < 2 ^ 64 then Some (a + b) else None)"

definition detect_region_overlap :: "u64 \<Rightarrow> u64 \<Rightarrow> pmp_state \<Rightarrow> bool" where
  "detect_region_overlap addr sz p =
     (case CHECKED_ADD addr sz of
        None \<Rightarrow> True
      | Some input_end \<Rightarrow>
          foldl (\<lambda>region_overlap i.
             if \<not> is_pmp_region_valid p i then region_overlap
             else if region_allows_overlap p i then region_overlap
             else let epm_base = region_get_addr p i; epm_size = region_get_size p i in
                  region_overlap \<or> (epm_base < input_end \<and> epm_base + epm_size > addr))
           False (map int [0..<PMP_MAX_N_REGION]))"

definition pmp_detect_region_overlap_atomic :: "u64 \<Rightarrow> u64 \<Rightarrow> pmp_state \<Rightarrow> bool" where
  "pmp_detect_region_overlap_atomic addr sz p = detect_region_overlap addr sz p"

section \<open>Writing the PMP registers\<close>

text \<open>
  The macro \<open>PMP_SET\<close> merges the other entries of the group into its argument \<open>pmpc\<close>,
  which it updates, and writes the address and the configuration register.
\<close>

definition PMP_SET :: "nat \<Rightarrow> nat \<Rightarrow> u64 \<Rightarrow> u64 \<Rightarrow> pmp_csrs \<Rightarrow> u64 \<times> pmp_csrs" where
  "PMP_SET n g addr pmpc c =
     (let oldcfg = pmpcfg c g;
          pmpc = pmpc OR (oldcfg AND NOT (push_bit (8 * (n mod PMP_PER_GROUP)) 0xff))
      in (pmpc, c\<lparr>pmpaddr := (pmpaddr c)(n := addr), pmpcfg := (pmpcfg c)(g := pmpc)\<rparr>))"

definition PMP_UNSET :: "nat \<Rightarrow> nat \<Rightarrow> pmp_csrs \<Rightarrow> pmp_csrs" where
  "PMP_UNSET n g c =
     (let pmpc = pmpcfg c g AND NOT (push_bit (8 * (n mod PMP_PER_GROUP)) 0xff)
      in c\<lparr>pmpaddr := (pmpaddr c)(n := 0), pmpcfg := (pmpcfg c)(g := pmpc)\<rparr>)"

text \<open>The \<open>switch\<close> over the register list; its default case is \<open>sm_assert(false)\<close>.\<close>

definition pmp_reg_group :: "int \<Rightarrow> nat option" where
  "pmp_reg_group n = (if n < 0 then None else map_of LIST_OF_PMP_REGS (nat n))"

definition pmp_set_keystone ::
  "int \<Rightarrow> u8 \<Rightarrow> pmp_state \<Rightarrow> pmp_csrs \<Rightarrow> (u64 \<times> pmp_csrs) option" where
  "pmp_set_keystone region_idx perm p c =
     (if \<not> is_pmp_region_valid p region_idx then Some (SBI_ERR_SM_PMP_REGION_INVALID, c)
      else
        let perm_bits = perm AND PMP_ALL_PERM;
            reg_idx = region_register_idx p region_idx;
            cfg = region_pmpcfg_val p region_idx reg_idx perm_bits;
            adr = region_pmpaddr_val p region_idx
        in case pmp_reg_group reg_idx of
             None \<Rightarrow> None
           | Some g \<Rightarrow>
               let c = snd (PMP_SET (nat reg_idx) g adr cfg c) in
               if region_needs_two_entries p region_idx then
                 case pmp_reg_group (reg_idx - 1) of
                   None \<Rightarrow> None
                 | Some g \<Rightarrow>
                     Some (SBI_ERR_SM_PMP_SUCCESS,
                       snd (PMP_SET (nat (reg_idx - 1)) g
                              (drop_bit 2 (region_get_addr p region_idx)) 0 c))
               else Some (SBI_ERR_SM_PMP_SUCCESS, c))"

definition pmp_unset :: "int \<Rightarrow> pmp_state \<Rightarrow> pmp_csrs \<Rightarrow> (u64 \<times> pmp_csrs) option" where
  "pmp_unset region_idx p c =
     (if \<not> is_pmp_region_valid p region_idx then Some (SBI_ERR_SM_PMP_REGION_INVALID, c)
      else
        let reg_idx = region_register_idx p region_idx
        in case pmp_reg_group reg_idx of
             None \<Rightarrow> None
           | Some g \<Rightarrow>
               let c = PMP_UNSET (nat reg_idx) g c in
               if region_needs_two_entries p region_idx then
                 case pmp_reg_group (reg_idx - 1) of
                   None \<Rightarrow> None
                 | Some g \<Rightarrow> Some (SBI_ERR_SM_PMP_SUCCESS, PMP_UNSET (nat (reg_idx - 1)) g c)
               else Some (SBI_ERR_SM_PMP_SUCCESS, c))"

text \<open>
  \<open>pmp_init\<close>: one \<open>PMP_SET\<close> per register with address 0; the variable \<open>pmpcfg\<close> is declared
  before the loop, so each iteration starts from the value the macro left in it.
\<close>

definition pmp_init :: "pmp_csrs \<Rightarrow> pmp_csrs" where
  "pmp_init c =
     snd (foldl (\<lambda>(cfg, c) i.
            case map_of LIST_OF_PMP_REGS i of
              None \<Rightarrow> (cfg, c)
            | Some g \<Rightarrow> PMP_SET i g 0 cfg c)
          (0, c) [0..<PMP_N_REG])"

section \<open>Creating and freeing regions\<close>

text \<open>
  The functions return the error code, the value left in \<open>*rid\<close> and the new globals. The
  \<open>switch\<close> over the priority is \<open>tor_pick_reg\<close> and \<open>napot_pick_reg\<close>: \<open>None\<close> is a failed
  assertion and \<open>Some None\<close> its early return of \<open>SBI_ERR_SM_PMP_REGION_MAX_REACHED\<close>.
\<close>

definition tor_pick_reg :: "u64 \<Rightarrow> pmp_priority \<Rightarrow> pmp_state \<Rightarrow> int option option" where
  "tor_pick_reg start priority p =
     (case priority of
        PMP_PRI_ANY \<Rightarrow> do {
          reg_idx \<leftarrow> get_conseq_free_reg_idx p;
          if reg_idx < 0 then Some None
          else if TEST_BIT (reg_bitmap p) reg_idx \<or> TEST_BIT (reg_bitmap p) (reg_idx + 1)
                  \<or> reg_idx + 1 \<ge> int PMP_N_REG then Some None
          else Some (Some reg_idx) }
      | PMP_PRI_TOP \<Rightarrow>
          if start \<noteq> 0 then None
          else if TEST_BIT (reg_bitmap p) 0 then Some None
          else Some (Some 0)
      | PMP_PRI_BOTTOM \<Rightarrow> None)"

definition tor_region_init ::
  "u64 \<Rightarrow> u64 \<Rightarrow> pmp_priority \<Rightarrow> int \<Rightarrow> bool \<Rightarrow> pmp_state \<Rightarrow> (u64 \<times> int \<times> pmp_state) option" where
  "tor_region_init start sz priority rid allow_overlap p =
     (if sz = 0 then None
      else if sz AND (RISCV_PGSIZE - 1) \<noteq> 0 then None
      else if start AND (RISCV_PGSIZE - 1) \<noteq> 0 then None
      else if priority = PMP_PRI_BOTTOM then None
      else do {
        region_idx \<leftarrow> get_free_region_idx p;
        if region_idx < 0 \<or> region_idx > int PMP_MAX_N_REGION
        then Some (SBI_ERR_SM_PMP_REGION_MAX_REACHED, rid, p)
        else do {
          choice \<leftarrow> tor_pick_reg start priority p;
          case choice of
            None \<Rightarrow> Some (SBI_ERR_SM_PMP_REGION_MAX_REACHED, region_idx, p)
          | Some reg_idx \<Rightarrow> do {
              let p = region_init region_idx start sz PMP_A_TOR allow_overlap reg_idx p;
              let p = p\<lparr>region_def_bitmap := SET_BIT (region_def_bitmap p) region_idx\<rparr>;
              let p = p\<lparr>reg_bitmap := SET_BIT (reg_bitmap p) reg_idx\<rparr>;
              let p = (if reg_idx > 0 then p\<lparr>reg_bitmap := SET_BIT (reg_bitmap p) (reg_idx + 1)\<rparr>
                       else p);
              Some (SBI_ERR_SM_PMP_SUCCESS, region_idx, p) } } })"

definition napot_pick_reg :: "pmp_priority \<Rightarrow> pmp_state \<Rightarrow> int option option" where
  "napot_pick_reg priority p =
     (case priority of
        PMP_PRI_ANY \<Rightarrow> do {
          reg_idx \<leftarrow> get_free_reg_idx p;
          if reg_idx < 0 then Some None
          else if TEST_BIT (reg_bitmap p) reg_idx \<or> reg_idx \<ge> int PMP_N_REG then Some None
          else Some (Some reg_idx) }
      | PMP_PRI_TOP \<Rightarrow> if TEST_BIT (reg_bitmap p) 0 then Some None else Some (Some 0)
      | PMP_PRI_BOTTOM \<Rightarrow> Some (Some (int PMP_N_REG - 1)))"

definition napot_region_init ::
  "u64 \<Rightarrow> u64 \<Rightarrow> pmp_priority \<Rightarrow> int \<Rightarrow> bool \<Rightarrow> pmp_state \<Rightarrow> (u64 \<times> int \<times> pmp_state) option" where
  "napot_region_init start sz priority rid allow_overlap p =
     (if sz = 0 then None
      else if \<not> (sz = - 1 \<and> start = 0) \<and>
              (sz AND (sz - 1) \<noteq> 0 \<or> start AND (sz - 1) \<noteq> 0
               \<or> sz AND (RISCV_PGSIZE - 1) \<noteq> 0 \<or> start AND (RISCV_PGSIZE - 1) \<noteq> 0) then None
      else do {
        region_idx \<leftarrow> get_free_region_idx p;
        if region_idx < 0 \<or> region_idx > int PMP_MAX_N_REGION
        then Some (SBI_ERR_SM_PMP_REGION_MAX_REACHED, rid, p)
        else do {
          choice \<leftarrow> napot_pick_reg priority p;
          case choice of
            None \<Rightarrow> Some (SBI_ERR_SM_PMP_REGION_MAX_REACHED, region_idx, p)
          | Some reg_idx \<Rightarrow> do {
              let p = region_init region_idx start sz PMP_A_NAPOT allow_overlap reg_idx p;
              let p = p\<lparr>region_def_bitmap := SET_BIT (region_def_bitmap p) region_idx\<rparr>;
              let p = p\<lparr>reg_bitmap := SET_BIT (reg_bitmap p) reg_idx\<rparr>;
              Some (SBI_ERR_SM_PMP_SUCCESS, region_idx, p) } } })"

definition pmp_region_init ::
  "u64 \<Rightarrow> u64 \<Rightarrow> pmp_priority \<Rightarrow> int \<Rightarrow> bool \<Rightarrow> pmp_state \<Rightarrow> (u64 \<times> int \<times> pmp_state) option" where
  "pmp_region_init start sz priority rid allow_overlap p =
     (if sz = 0 then Some (SBI_ERR_SM_PMP_REGION_SIZE_INVALID, rid, p)
      else if \<not> allow_overlap \<and> detect_region_overlap start sz p
      then Some (SBI_ERR_SM_PMP_REGION_OVERLAP, rid, p)
      else if sz \<noteq> - 1 \<and> sz AND (RISCV_PGSIZE - 1) \<noteq> 0
      then Some (SBI_ERR_SM_PMP_REGION_NOT_PAGE_GRANULARITY, rid, p)
      else if start AND (RISCV_PGSIZE - 1) \<noteq> 0
      then Some (SBI_ERR_SM_PMP_REGION_NOT_PAGE_GRANULARITY, rid, p)
      else if (sz = - 1 \<and> start = 0) \<or> (sz AND (sz - 1) = 0 \<and> start AND (sz - 1) = 0)
      then napot_region_init start sz priority rid allow_overlap p
      else if priority \<noteq> PMP_PRI_ANY \<and> (priority \<noteq> PMP_PRI_TOP \<or> start \<noteq> 0)
      then Some (SBI_ERR_SM_PMP_REGION_IMPOSSIBLE_TOR, rid, p)
      else tor_region_init start sz priority rid allow_overlap p)"

definition pmp_region_init_atomic ::
  "u64 \<Rightarrow> u64 \<Rightarrow> pmp_priority \<Rightarrow> int \<Rightarrow> bool \<Rightarrow> pmp_state \<Rightarrow> (u64 \<times> int \<times> pmp_state) option" where
  "pmp_region_init_atomic start sz priority rid allow_overlap p =
     pmp_region_init start sz priority rid allow_overlap p"

definition pmp_region_free_atomic :: "int \<Rightarrow> pmp_state \<Rightarrow> u64 \<times> pmp_state" where
  "pmp_region_free_atomic region_idx p =
     (if \<not> is_pmp_region_valid p region_idx then (SBI_ERR_SM_PMP_REGION_INVALID, p)
      else
        let reg_idx = region_register_idx p region_idx;
            two = region_needs_two_entries p region_idx;
            p = p\<lparr>region_def_bitmap := UNSET_BIT (region_def_bitmap p) region_idx\<rparr>;
            p = p\<lparr>reg_bitmap := UNSET_BIT (reg_bitmap p) reg_idx\<rparr>;
            p = (if two then p\<lparr>reg_bitmap := UNSET_BIT (reg_bitmap p) (reg_idx - 1)\<rparr> else p)
        in (SBI_ERR_SM_PMP_SUCCESS, region_clear_all region_idx p))"

definition pmp_region_get_addr :: "pmp_state \<Rightarrow> int \<Rightarrow> u64" where
  "pmp_region_get_addr p i = (if is_pmp_region_valid p i then region_get_addr p i else 0)"

definition pmp_region_get_size :: "pmp_state \<Rightarrow> int \<Rightarrow> u64" where
  "pmp_region_get_size p i = (if is_pmp_region_valid p i then region_get_size p i else 0)"

section \<open>Updating every hart\<close>

text \<open>
  A global update runs \<open>sbi_pmp_ipi_local_update\<close> on the harts that OpenSBI delivers the
  request to (\<open>sm/src/ipi.c\<close>). OpenSBI is not part of the repository: the harts, in the order
  in which they run the update, are the parameter \<open>ipi_harts\<close>.
\<close>

datatype ipi_type = SBI_PMP_IPI_TYPE_SET | SBI_PMP_IPI_TYPE_UNSET

definition sbi_pmp_ipi_local_update ::
  "ipi_type \<Rightarrow> int \<Rightarrow> u8 \<Rightarrow> pmp_state \<Rightarrow> pmp_csrs \<Rightarrow> pmp_csrs option" where
  "sbi_pmp_ipi_local_update typ rid perm p c =
     (case typ of
        SBI_PMP_IPI_TYPE_SET \<Rightarrow> map_option snd (pmp_set_keystone rid perm p c)
      | SBI_PMP_IPI_TYPE_UNSET \<Rightarrow> map_option snd (pmp_unset rid p c))"

fun send_and_sync_pmp_ipi ::
  "nat list \<Rightarrow> int \<Rightarrow> ipi_type \<Rightarrow> u8 \<Rightarrow> pmp_state \<Rightarrow> (nat \<Rightarrow> pmp_csrs) \<Rightarrow> (nat \<Rightarrow> pmp_csrs) option" where
  "send_and_sync_pmp_ipi [] region_idx typ perm p hs = Some hs"
| "send_and_sync_pmp_ipi (h # ipi_harts) region_idx typ perm p hs =
     (case sbi_pmp_ipi_local_update typ region_idx perm p (hs h) of
        None \<Rightarrow> None
      | Some c \<Rightarrow> send_and_sync_pmp_ipi ipi_harts region_idx typ perm p (hs(h := c)))"

definition pmp_set_global ::
  "nat list \<Rightarrow> int \<Rightarrow> u8 \<Rightarrow> pmp_state \<Rightarrow> (nat \<Rightarrow> pmp_csrs) \<Rightarrow> (u64 \<times> (nat \<Rightarrow> pmp_csrs)) option" where
  "pmp_set_global ipi_harts region_idx perm p hs =
     (if \<not> is_pmp_region_valid p region_idx then Some (SBI_ERR_SM_PMP_REGION_INVALID, hs)
      else map_option (Pair SBI_ERR_SM_PMP_SUCCESS)
             (send_and_sync_pmp_ipi ipi_harts region_idx SBI_PMP_IPI_TYPE_SET perm p hs))"

definition pmp_unset_global ::
  "nat list \<Rightarrow> int \<Rightarrow> pmp_state \<Rightarrow> (nat \<Rightarrow> pmp_csrs) \<Rightarrow> (u64 \<times> (nat \<Rightarrow> pmp_csrs)) option" where
  "pmp_unset_global ipi_harts region_idx p hs =
     (if \<not> is_pmp_region_valid p region_idx then Some (SBI_ERR_SM_PMP_REGION_INVALID, hs)
      else map_option (Pair SBI_ERR_SM_PMP_SUCCESS)
             (send_and_sync_pmp_ipi ipi_harts region_idx SBI_PMP_IPI_TYPE_UNSET PMP_NO_PERM p hs))"

section \<open>What the bitmap searches return\<close>

lemma unat_push_bit_mask:
  assumes "k + w \<le> 32"
  shows "unat (push_bit k (mask w) :: u32) = 2 ^ k * (2 ^ w - 1)"
proof -
  have *: "push_bit k (mask w) = (of_nat (2 ^ k * (2 ^ w - 1)) :: u32)"
    by (simp add: push_bit_eq_mult mask_eq_exp_minus_1 of_nat_diff mult.commute)
  have "(2::nat) ^ k * (2 ^ w - 1) < 2 ^ (k + w)" by (simp add: power_add)
  also have "\<dots> \<le> 2 ^ 32" using assms by (intro power_increasing) auto
  finally have "2 ^ k * (2 ^ w - 1) mod 2 ^ 32 = (2 ^ k * (2 ^ w - 1) :: nat)" by (rule mod_less)
  then show ?thesis unfolding * by (simp only: unat_of_nat len_num1 len_bit0) simp
qed

lemma window_unset_iff:
  assumes "k + w \<le> 32"
  shows "NOT b AND push_bit k (mask w) = (push_bit k (mask w) :: u32)
    \<longleftrightarrow> (\<forall>t<w. \<not> bit b (k + t))"
proof
  assume *: "NOT b AND push_bit k (mask w) = (push_bit k (mask w) :: u32)"
  show "\<forall>t<w. \<not> bit b (k + t)"
  proof (intro allI impI)
    fix t assume "t < w"
    then have "bit (push_bit k (mask w) :: u32) (k + t)"
      using assms by (simp add: bit_simps)
    then show "\<not> bit b (k + t)" by (subst (asm) * [symmetric]) (simp add: bit_simps)
  qed
next
  assume *: "\<forall>t<w. \<not> bit b (k + t)"
  show "NOT b AND push_bit k (mask w) = (push_bit k (mask w) :: u32)"
  proof (rule bit_word_eqI)
    fix n assume "n < LENGTH(32)"
    then show "bit (NOT b AND push_bit k (mask w)) n = bit (push_bit k (mask w) :: u32) n"
      using * [rule_format, of "n - k"] by (auto simp: bit_simps)
  qed
qed

lemma pow_window:
  assumes "0 < w"
  shows "2 ^ k * (2 ^ w - 1) < (2 ^ mx :: nat) \<longleftrightarrow> k + w \<le> mx"
proof
  assume *: "2 ^ k * (2 ^ w - 1) < (2 ^ mx :: nat)"
  have "(2::nat) ^ (w - 1) \<le> 2 ^ w - 1"
    using assms by (cases w) (auto)
  then have "2 ^ k * 2 ^ (w - 1) \<le> 2 ^ k * (2 ^ w - (1::nat))" by (intro mult_le_mono2)
  with * have "(2::nat) ^ (k + (w - 1)) < 2 ^ mx" by (simp only: power_add)
  then have "k + (w - 1) < mx" by (simp only: power_strict_increasing_iff)
  with assms show "k + w \<le> mx" by simp
next
  assume "k + w \<le> mx"
  then have "(2::nat) ^ (k + w) \<le> 2 ^ mx" by (intro power_increasing) auto
  moreover have "2 ^ k * (2 ^ w - 1) < (2 ^ (k + w) :: nat)" by (simp add: power_add)
  ultimately show "2 ^ k * (2 ^ w - 1) < (2 ^ mx :: nat)" by linarith
qed

lemma search_loop_eq_find:
  assumes "mx < 32" and "0 < w" and "k + w \<le> Suc mx"
  shows "search_loop b mx (push_bit k (mask w)) (int k) =
    (case find (\<lambda>j. \<forall>t<w. \<not> bit b (j + t)) [k..<Suc mx - w] of None \<Rightarrow> - 1 | Some j \<Rightarrow> int j)"
  using assms
proof (induction "Suc mx - k" arbitrary: k)
  case 0
  then show ?case by simp
next
  case (Suc n)
  have w: "unat (push_bit k (mask w) :: u32) < 2 ^ mx \<longleftrightarrow> k + w \<le> mx"
    using Suc.prems by (subst unat_push_bit_mask) (auto simp only: pow_window)
  show ?case
  proof (cases "k + w \<le> mx")
    case False
    with Suc.prems w show ?thesis by (subst search_loop.simps) simp
  next
    case True
    then have *: "[k..<Suc mx - w] = k # [Suc k..<Suc mx - w]"
      using Suc.prems by (intro upt_conv_Cons) simp
    have "push_bit 1 (push_bit k (mask w)) = (push_bit (Suc k) (mask w) :: u32)"
      by (simp only: push_bit_push_bit) simp
    moreover have "search_loop b mx (push_bit (Suc k) (mask w)) (int (Suc k)) =
      (case find (\<lambda>j. \<forall>t<w. \<not> bit b (j + t)) [Suc k..<Suc mx - w] of
         None \<Rightarrow> - 1 | Some j \<Rightarrow> int j)"
      using Suc.hyps(2) Suc.prems True by (intro Suc.hyps(1)) auto
    ultimately show ?thesis
      using Suc.prems w True window_unset_iff [of k w b]
      by (subst search_loop.simps) (auto simp: * ac_simps)
  qed
qed

lemma mask_window: "(mask w + 1) AND mask w = (0 :: u32)"
proof -
  have "mask w + 1 = (2 ^ w :: u32)" by (simp add: mask_eq_exp_minus_1)
  moreover have "2 ^ w AND mask w = (0 :: u32)"
    by (rule bit_word_eqI) (simp add: bit_simps)
  ultimately show ?thesis by simp
qed

lemma search_rightmost_unset_eq:
  assumes "mx < 32" and "0 < w" and "w \<le> Suc mx"
  shows "search_rightmost_unset b mx (mask w) =
    Some (case find (\<lambda>j. \<forall>t<w. \<not> bit b (j + t)) [0..<Suc mx - w] of
            None \<Rightarrow> - 1 | Some j \<Rightarrow> int j)"
  using search_loop_eq_find [of mx w 0 b] assms
  by (simp add: search_rightmost_unset_def mask_window)

lemma get_free_region_idx_eq:
  "get_free_region_idx p =
    Some (case find (\<lambda>j. \<not> bit (region_def_bitmap p) j) [0..<16] of None \<Rightarrow> - 1 | Some j \<Rightarrow> int j)"
  using search_rightmost_unset_eq [of 16 1 "region_def_bitmap p"]
  by (simp add: get_free_region_idx_def cfg_defs)

lemma get_free_reg_idx_eq:
  "get_free_reg_idx p =
    Some (case find (\<lambda>j. \<not> bit (reg_bitmap p) j) [0..<8] of None \<Rightarrow> - 1 | Some j \<Rightarrow> int j)"
  using search_rightmost_unset_eq [of 8 1 "reg_bitmap p"]
  by (simp add: get_free_reg_idx_def cfg_defs)

lemma get_conseq_free_reg_idx_eq:
  "get_conseq_free_reg_idx p =
    Some (case find (\<lambda>j. \<not> bit (reg_bitmap p) j \<and> \<not> bit (reg_bitmap p) (Suc j)) [0..<7] of
            None \<Rightarrow> - 1 | Some j \<Rightarrow> int j)"
proof -
  have "(\<forall>t<2. \<not> bit (reg_bitmap p) (j + t)) \<longleftrightarrow>
      \<not> bit (reg_bitmap p) j \<and> \<not> bit (reg_bitmap p) (Suc j)" for j
    by (auto simp: less_2_cases_iff)
  moreover have "(3 :: u32) = mask 2" by (simp add: mask_eq_exp_minus_1)
  ultimately show ?thesis
    using search_rightmost_unset_eq [of 8 2 "reg_bitmap p"]
    by (simp add: get_conseq_free_reg_idx_def cfg_defs)
qed

lemmas pmp_searches = get_free_region_idx_eq get_free_reg_idx_eq get_conseq_free_reg_idx_eq

section \<open>The invariant of the region table\<close>

text \<open>
  The registers a region occupies, what a defined region looks like, and the invariant of the
  table. The last register is shared by all regions created with bottom priority, so two regions
  may both use register 7, and its bit in \<open>reg_bitmap\<close> says nothing.
\<close>

definition region_regs :: "pmp_region \<Rightarrow> nat set" where
  "region_regs r =
     (if rg_addrmode r = PMP_A_TOR \<and> rg_reg_idx r > 0
      then {nat (rg_reg_idx r) - 1, nat (rg_reg_idx r)} else {nat (rg_reg_idx r)})"

definition napot_shape :: "u64 \<Rightarrow> u64 \<Rightarrow> bool" where
  "napot_shape a s \<longleftrightarrow> s AND (s - 1) = 0 \<and> a AND (s - 1) = 0"

definition page_aligned :: "u64 \<Rightarrow> bool" where
  "page_aligned a \<longleftrightarrow> a AND (RISCV_PGSIZE - 1) = 0"

definition region_ok :: "pmp_region \<Rightarrow> bool" where
  "region_ok r \<longleftrightarrow>
     rg_size r \<noteq> 0 \<and> page_aligned (rg_addr r) \<and> 0 \<le> rg_reg_idx r \<and> rg_reg_idx r < 8 \<and>
     (rg_addrmode r = PMP_A_NAPOT \<and>
        (rg_addr r = 0 \<and> rg_size r = - 1 \<or> page_aligned (rg_size r) \<and> napot_shape (rg_addr r) (rg_size r))
      \<or> rg_addrmode r = PMP_A_TOR \<and> page_aligned (rg_size r) \<and> (rg_reg_idx r = 0 \<longrightarrow> rg_addr r = 0)) \<and>
     (\<not> rg_allow_overlap r \<longrightarrow> unat (rg_addr r) + unat (rg_size r) < 2 ^ 64)"

definition regions_disjoint :: "pmp_region \<Rightarrow> pmp_region \<Rightarrow> bool" where
  "regions_disjoint r s \<longleftrightarrow>
     unat (rg_addr r) + unat (rg_size r) \<le> unat (rg_addr s) \<or>
     unat (rg_addr s) + unat (rg_size s) \<le> unat (rg_addr r)"

definition pmp_wf :: "pmp_state \<Rightarrow> bool" where
  "pmp_wf p \<longleftrightarrow>
     length (regions p) = 16 \<and>
     (\<forall>n<32. bit (region_def_bitmap p) n \<longrightarrow> n < 16) \<and>
     (\<forall>n<32. bit (reg_bitmap p) n \<longrightarrow> n < 8) \<and>
     (\<forall>i<16. bit (region_def_bitmap p) i \<longrightarrow> region_ok (regions p ! i) \<and>
        (\<forall>n \<in> region_regs (regions p ! i). n < 7 \<longrightarrow> bit (reg_bitmap p) n)) \<and>
     (\<forall>i<16. \<forall>j<16. i \<noteq> j \<longrightarrow> bit (region_def_bitmap p) i \<longrightarrow> bit (region_def_bitmap p) j \<longrightarrow>
        region_regs (regions p ! i) \<inter> region_regs (regions p ! j) \<subseteq> {7} \<and>
        (\<not> rg_allow_overlap (regions p ! i) \<longrightarrow> \<not> rg_allow_overlap (regions p ! j) \<longrightarrow>
         regions_disjoint (regions p ! i) (regions p ! j)))"

lemma pmp_wf_zero: "pmp_wf pmp_state_zero"
  by (simp add: pmp_wf_def pmp_state_zero_def cfg_defs)

lemma valid_iff_bit:
  assumes "pmp_wf p"
  shows "is_pmp_region_valid p i \<longleftrightarrow>
    bit (region_def_bitmap p) (nat (i mod 32)) \<and> nat (i mod 32) < 16"
proof -
  have "nat (i mod 32) < 32" by (simp add: nat_less_iff)
  with assms show ?thesis
    unfolding is_pmp_region_valid_def TEST_BIT_mod pmp_wf_def by blast
qed

lemma valid_nat_iff:
  assumes "i < 32"
  shows "is_pmp_region_valid p (int i) \<longleftrightarrow> bit (region_def_bitmap p) i"
  using assms by (simp add: is_pmp_region_valid_def TEST_BIT_iff)

subsection \<open>Overlap detection decides intersection\<close>

lemma foldl_or:
  "foldl (\<lambda>b i. if \<not> P i then b else if Q i then b else b \<or> R i) b xs
    \<longleftrightarrow> b \<or> (\<exists>i \<in> set xs. P i \<and> \<not> Q i \<and> R i)"
  by (induction xs arbitrary: b) auto

lemma detect_region_overlap_iff:
  assumes wf: "pmp_wf p"
  shows "detect_region_overlap addr sz p \<longleftrightarrow>
    2 ^ 64 \<le> unat addr + unat sz \<or>
    (\<exists>i<16. bit (region_def_bitmap p) i \<and> \<not> rg_allow_overlap (regions p ! i) \<and>
       unat (rg_addr (regions p ! i)) < unat addr + unat sz \<and>
       unat addr < unat (rg_addr (regions p ! i)) + unat (rg_size (regions p ! i)))"
proof (cases "unat addr + unat sz < 2 ^ 64")
  case False
  then show ?thesis by (simp add: detect_region_overlap_def CHECKED_ADD_def)
next
  case True
  have *: "(rg_addr r < addr + sz \<and> rg_addr r + rg_size r > addr) \<longleftrightarrow>
      (unat (rg_addr r) < unat addr + unat sz \<and> unat addr < unat (rg_addr r) + unat (rg_size r))"
    if "region_ok r" "\<not> rg_allow_overlap r" for r
  proof -
    have "unat (rg_addr r) + unat (rg_size r) < 2 ^ 64" using that by (simp add: region_ok_def)
    then have "unat (rg_addr r + rg_size r) = unat (rg_addr r) + unat (rg_size r)"
      by (rule unat_add_small)
    moreover have "unat (addr + sz) = unat addr + unat sz" using True by (rule unat_add_small)
    ultimately show ?thesis by (simp add: word_less_nat_alt)
  qed
  have "detect_region_overlap addr sz p \<longleftrightarrow>
     (\<exists>i \<in> set (map int [0..<PMP_MAX_N_REGION]). is_pmp_region_valid p i \<and> \<not> region_allows_overlap p i \<and>
        region_get_addr p i < addr + sz \<and> region_get_addr p i + region_get_size p i > addr)"
    using True by (simp only: detect_region_overlap_def CHECKED_ADD_def Let_def option.case if_True foldl_or)
       simp
  also have "\<dots> \<longleftrightarrow> (\<exists>i<16. bit (region_def_bitmap p) i \<and> \<not> rg_allow_overlap (regions p ! i) \<and>
      rg_addr (regions p ! i) < addr + sz \<and> rg_addr (regions p ! i) + rg_size (regions p ! i) > addr)"
    by (auto simp: cfg_defs valid_nat_iff region_allows_overlap_def region_get_addr_def
        region_get_size_def)
  also have "\<dots> \<longleftrightarrow> (\<exists>i<16. bit (region_def_bitmap p) i \<and> \<not> rg_allow_overlap (regions p ! i) \<and>
       unat (rg_addr (regions p ! i)) < unat addr + unat sz \<and>
       unat addr < unat (rg_addr (regions p ! i)) + unat (rg_size (regions p ! i)))"
    using wf * unfolding pmp_wf_def by blast
  finally show ?thesis using True by simp
qed

subsection \<open>What a successful allocation does\<close>

definition pmp_allocated ::
  "pmp_state \<Rightarrow> pmp_priority \<Rightarrow> nat \<Rightarrow> pmp_region \<Rightarrow> pmp_state \<Rightarrow> bool" where
  "pmp_allocated p priority k r p' \<longleftrightarrow>
     k < 16 \<and> \<not> bit (region_def_bitmap p) k \<and>
     regions p' = (regions p)[k := r] \<and>
     (\<forall>n. bit (region_def_bitmap p') n = (bit (region_def_bitmap p) n \<or> n = k)) \<and>
     (\<forall>n. bit (reg_bitmap p') n = (bit (reg_bitmap p) n \<or> n \<in> region_regs r)) \<and>
     (\<forall>n \<in> region_regs r. \<not> bit (reg_bitmap p) n \<or> priority = PMP_PRI_BOTTOM \<and> n = 7) \<and>
     (priority = PMP_PRI_TOP \<longrightarrow> region_regs r = {0}) \<and>
     (priority = PMP_PRI_BOTTOM \<longrightarrow> region_regs r = {7})"

lemma napot_pick_reg_eq:
  "napot_pick_reg priority p = Some (case priority of
      PMP_PRI_ANY \<Rightarrow> map_option int (find (\<lambda>j. \<not> bit (reg_bitmap p) j) [0..<8])
    | PMP_PRI_TOP \<Rightarrow> if bit (reg_bitmap p) 0 then None else Some 0
    | PMP_PRI_BOTTOM \<Rightarrow> Some 7)"
proof (cases priority)
  case PMP_PRI_ANY
  show ?thesis
  proof (cases "find (\<lambda>j. \<not> bit (reg_bitmap p) j) [0..<8]")
    case (Some j)
    with PMP_PRI_ANY find_upt_SomeD [OF Some] show ?thesis
      by (simp add: napot_pick_reg_def get_free_reg_idx_eq cfg_defs TEST_BIT_nat)
  qed (simp add: PMP_PRI_ANY napot_pick_reg_def get_free_reg_idx_eq)
qed (simp_all add: napot_pick_reg_def TEST_BIT_iff cfg_defs)

lemma tor_pick_reg_eq:
  assumes "priority = PMP_PRI_ANY \<or> priority = PMP_PRI_TOP \<and> start = 0"
  shows "tor_pick_reg start priority p = Some (case priority of
      PMP_PRI_ANY \<Rightarrow> map_option int
        (find (\<lambda>j. \<not> bit (reg_bitmap p) j \<and> \<not> bit (reg_bitmap p) (Suc j)) [0..<7])
    | _ \<Rightarrow> if bit (reg_bitmap p) 0 then None else Some 0)"
proof (cases priority)
  case PMP_PRI_ANY
  have T: "TEST_BIT b (int j + 1) = bit b (Suc j)" if "j < 7" for b j
    using that TEST_BIT_nat [of "Suc j" b] by (simp add: add.commute)
  show ?thesis
  proof (cases "find (\<lambda>j. \<not> bit (reg_bitmap p) j \<and> \<not> bit (reg_bitmap p) (Suc j)) [0..<7]")
    case (Some j)
    with PMP_PRI_ANY find_upt_SomeD [OF Some] show ?thesis
      by (simp add: tor_pick_reg_def get_conseq_free_reg_idx_eq cfg_defs TEST_BIT_nat T)
  qed (simp add: PMP_PRI_ANY tor_pick_reg_def get_conseq_free_reg_idx_eq)
qed (use assms in \<open>simp_all add: tor_pick_reg_def TEST_BIT_iff\<close>)

lemma addrmodes [simp]: "PMP_A_NAPOT \<noteq> PMP_A_TOR" "PMP_A_TOR \<noteq> PMP_A_NAPOT"
  by (simp_all add: hw_consts)

lemma region_init_regions:
  "region_init (int k) addr sz md ov idx p = p\<lparr>regions := (regions p)[k :=
     \<lparr>rg_size = sz, rg_addrmode = md, rg_addr = addr, rg_allow_overlap = ov,
      rg_reg_idx = (if md = PMP_A_TOR \<and> idx > 0 then idx + 1 else idx)\<rparr>]\<rparr>"
  by (cases "regions p ! k") (simp add: region_init_def)

lemma napot_allocated:
  assumes "k < 16" "\<not> bit (region_def_bitmap p) k" "reg < 8"
   and "\<not> bit (reg_bitmap p) reg \<or> priority = PMP_PRI_BOTTOM \<and> reg = 7"
        "priority = PMP_PRI_TOP \<longrightarrow> reg = 0" "priority = PMP_PRI_BOTTOM \<longrightarrow> reg = 7"
  shows "pmp_allocated p priority k
     \<lparr>rg_size = sz, rg_addrmode = PMP_A_NAPOT, rg_addr = start, rg_allow_overlap = ov,
      rg_reg_idx = int reg\<rparr>
     ((region_init (int k) start sz PMP_A_NAPOT ov (int reg) p)
           \<lparr>region_def_bitmap := SET_BIT (region_def_bitmap p) (int k),
            reg_bitmap := SET_BIT (reg_bitmap p) (int reg)\<rparr>)"
  using assms by (cases priority)
   (auto simp: pmp_allocated_def region_init_regions region_regs_def bit_SET_BIT
     bit_SET_BIT [of 0, simplified] bit_SET_BIT [of 7, simplified])

lemma tor_allocated:
  assumes "k < 16" "\<not> bit (region_def_bitmap p) k" "reg < 7" "\<not> bit (reg_bitmap p) reg"
    and "priority = PMP_PRI_ANY \<and> \<not> bit (reg_bitmap p) (Suc reg) \<or> priority = PMP_PRI_TOP \<and> reg = 0"
  shows "pmp_allocated p priority k
     \<lparr>rg_size = sz, rg_addrmode = PMP_A_TOR, rg_addr = start, rg_allow_overlap = ov,
      rg_reg_idx = (if reg = 0 then 0 else int (Suc reg))\<rparr>
     ((region_init (int k) start sz PMP_A_TOR ov (int reg) p)
           \<lparr>region_def_bitmap := SET_BIT (region_def_bitmap p) (int k),
            reg_bitmap := (if 0 < reg then SET_BIT (SET_BIT (reg_bitmap p) (int reg)) (int (Suc reg))
                           else SET_BIT (reg_bitmap p) (int reg))\<rparr>)"
proof (cases reg)
  case 0
  with assms show ?thesis
    by (auto simp: pmp_allocated_def region_init_regions region_regs_def bit_SET_BIT
     bit_SET_BIT [of 0, simplified])
next
  case (Suc m)
  have e: "int (Suc m) + 1 = int (Suc (Suc m))" by simp
  from assms Suc show ?thesis
    by (auto simp: pmp_allocated_def region_init_regions region_regs_def bit_SET_BIT e simp del: of_nat_Suc)
qed

lemma napot_region_init_cases:
  assumes "napot_region_init start sz priority rid ov p = Some (c, rid', p')"
  shows "c = SBI_ERR_SM_PMP_REGION_MAX_REACHED \<and> p' = p \<or>
    (\<exists>k reg. c = SBI_ERR_SM_PMP_SUCCESS \<and> rid' = int k \<and> reg < 8 \<and>
       pmp_allocated p priority k
         \<lparr>rg_size = sz, rg_addrmode = PMP_A_NAPOT, rg_addr = start, rg_allow_overlap = ov,
          rg_reg_idx = int reg\<rparr> p')"
  using assms unfolding napot_region_init_def if_None_eq_Some
proof (elim conjE, goal_cases)
  case 1
  note body = 1(3)
  show ?case
  proof (cases "find (\<lambda>j. \<not> bit (region_def_bitmap p) j) [0..<16]")
    case None
    with body show ?thesis by (simp add: get_free_region_idx_eq)
  next
    case k: (Some k)
    note kD = find_upt_SomeD [OF k]
    obtain choice where ch: "napot_pick_reg priority p = Some choice"
      by (simp add: napot_pick_reg_eq)
    show ?thesis
    proof (cases choice)
      case None
      with body k kD ch show ?thesis by (simp add: get_free_region_idx_eq cfg_defs)
    next
      case (Some r)
      then obtain reg where reg: "r = int reg" "reg < 8"
        "\<not> bit (reg_bitmap p) reg \<or> priority = PMP_PRI_BOTTOM \<and> reg = 7"
        "priority = PMP_PRI_TOP \<longrightarrow> reg = 0" "priority = PMP_PRI_BOTTOM \<longrightarrow> reg = 7"
        using ch by (cases priority)
          (auto simp: napot_pick_reg_eq dest: find_upt_SomeD split: if_splits)
      have "Some (c, rid', p') = Some (SBI_ERR_SM_PMP_SUCCESS, int k,
          (region_init (int k) start sz PMP_A_NAPOT ov (int reg) p)
           \<lparr>region_def_bitmap := SET_BIT (region_def_bitmap p) (int k),
            reg_bitmap := SET_BIT (reg_bitmap p) (int reg)\<rparr>)"
        using k kD ch Some reg(1) unfolding body [symmetric]
        by (simp add: get_free_region_idx_eq cfg_defs Let_def region_init_regions)
      then show ?thesis using napot_allocated [OF kD reg(2-5)] reg(2) by blast
    qed
  qed
qed

lemma tor_region_init_cases:
  assumes "tor_region_init start sz priority rid ov p = Some (c, rid', p')"
    and "priority = PMP_PRI_ANY \<or> priority = PMP_PRI_TOP \<and> start = 0"
  shows "c = SBI_ERR_SM_PMP_REGION_MAX_REACHED \<and> p' = p \<or>
    (\<exists>k reg. c = SBI_ERR_SM_PMP_SUCCESS \<and> rid' = int k \<and> reg < 8 \<and>
       (reg = 0 \<longrightarrow> priority = PMP_PRI_TOP \<or> \<not> bit (reg_bitmap p) 0) \<and>
       pmp_allocated p priority k
         \<lparr>rg_size = sz, rg_addrmode = PMP_A_TOR, rg_addr = start, rg_allow_overlap = ov,
          rg_reg_idx = int reg\<rparr> p')"
  using assms unfolding tor_region_init_def if_None_eq_Some
proof (elim conjE, goal_cases)
  case 1
  note body = 1(6)
  show ?case
  proof (cases "find (\<lambda>j. \<not> bit (region_def_bitmap p) j) [0..<16]")
    case None
    with body show ?thesis by (simp add: get_free_region_idx_eq)
  next
    case k: (Some k)
    note kD = find_upt_SomeD [OF k]
    obtain choice where ch: "tor_pick_reg start priority p = Some choice"
      using assms(2) by (simp add: tor_pick_reg_eq)
    show ?thesis
    proof (cases choice)
      case None
      with body k kD ch show ?thesis by (simp add: get_free_region_idx_eq cfg_defs)
    next
      case (Some r)
      then obtain reg where reg: "r = int reg" "reg < 7" "\<not> bit (reg_bitmap p) reg"
        "priority = PMP_PRI_ANY \<and> \<not> bit (reg_bitmap p) (Suc reg) \<or>
         priority = PMP_PRI_TOP \<and> reg = 0"
        using ch assms(2)
        by (cases priority) (auto simp: tor_pick_reg_eq dest: find_upt_SomeD split: if_splits)
      have res: "Some (c, rid', p') = Some (SBI_ERR_SM_PMP_SUCCESS, int k,
          (region_init (int k) start sz PMP_A_TOR ov (int reg) p)
           \<lparr>region_def_bitmap := SET_BIT (region_def_bitmap p) (int k),
            reg_bitmap := (if 0 < reg then SET_BIT (SET_BIT (reg_bitmap p) (int reg)) (int (Suc reg))
                           else SET_BIT (reg_bitmap p) (int reg))\<rparr>)"
        using k kD ch Some reg(1) unfolding body [symmetric]
        by (simp add: get_free_region_idx_eq cfg_defs Let_def region_init_regions add.commute)
      have "int (if reg = 0 then 0 else Suc reg) = (if reg = 0 then 0 else int (Suc reg))" by simp
      with res show ?thesis using tor_allocated [OF kD reg(2-4), of sz start ov] reg(2,3)
        by - (rule disjI2, rule exI [of _ k], rule exI [of _ "if reg = 0 then 0 else Suc reg"],
            auto simp del: of_nat_Suc)
    qed
  qed
qed

lemma detect_overlap_no_wrap:
  "\<not> detect_region_overlap start sz p \<Longrightarrow> unat start + unat sz < 2 ^ 64"
  by (auto simp: detect_region_overlap_def CHECKED_ADD_def split: if_splits)

lemma pmp_region_init_cases:
  assumes "pmp_region_init start sz priority rid ov p = Some (c, rid', p')"
    and reg0: "priority = PMP_PRI_ANY \<longrightarrow> bit (reg_bitmap p) 0"
  shows "c \<noteq> SBI_ERR_SM_PMP_SUCCESS \<and> p' = p \<or>
    (\<exists>k r. c = SBI_ERR_SM_PMP_SUCCESS \<and> rid' = int k \<and> pmp_allocated p priority k r p' \<and>
       rg_addr r = start \<and> rg_size r = sz \<and> rg_allow_overlap r = ov \<and> region_ok r \<and>
       (\<not> ov \<longrightarrow> \<not> detect_region_overlap start sz p))"
proof -
  let ?all = "sz = - 1 \<and> start = 0"
  let ?np = "sz AND (sz - 1) = 0 \<and> start AND (sz - 1) = 0"
  consider (err) "c \<noteq> SBI_ERR_SM_PMP_SUCCESS" "p' = p"
    | (napot) "sz \<noteq> 0" "\<not> ov \<longrightarrow> \<not> detect_region_overlap start sz p"
        "sz = - 1 \<or> page_aligned sz" "page_aligned start" "?all \<or> ?np"
        "napot_region_init start sz priority rid ov p = Some (c, rid', p')"
    | (tor) "sz \<noteq> 0" "\<not> ov \<longrightarrow> \<not> detect_region_overlap start sz p"
        "sz = - 1 \<or> page_aligned sz" "page_aligned start"
        "priority = PMP_PRI_ANY \<or> priority = PMP_PRI_TOP \<and> start = 0"
        "tor_region_init start sz priority rid ov p = Some (c, rid', p')"
    using assms(1) unfolding pmp_region_init_def page_aligned_def
    by (simp only: err_codes split: if_split_asm) (auto simp: err_codes)
  then show ?thesis
  proof cases
    case napot
    have "?all \<or> page_aligned sz \<and> napot_shape start sz"
      using napot(3,5) by (auto simp: napot_shape_def)
    then have "region_ok \<lparr>rg_size = sz, rg_addrmode = PMP_A_NAPOT, rg_addr = start,
        rg_allow_overlap = ov, rg_reg_idx = int reg\<rparr>" if "reg < 8" for reg
      using that napot(1,2,4) detect_overlap_no_wrap [of start sz p] by (auto simp: region_ok_def)
    then show ?thesis using napot_region_init_cases [OF napot(6)] napot(2)
      by (elim disjE exE conjE) (simp add: err_codes, force)
  next
    case tor
    then have "page_aligned sz"
      by (auto simp: tor_region_init_def page_aligned_def)
    then have "region_ok \<lparr>rg_size = sz, rg_addrmode = PMP_A_TOR, rg_addr = start,
        rg_allow_overlap = ov, rg_reg_idx = int reg\<rparr>" if "reg < 8" "reg = 0 \<longrightarrow> start = 0" for reg
      using that tor(1,2,4) detect_overlap_no_wrap [of start sz p] by (auto simp: region_ok_def)
    moreover have "start = 0" if "priority = PMP_PRI_TOP \<or> \<not> bit (reg_bitmap p) 0"
      using that tor(5) reg0 by blast
    ultimately show ?thesis using tor_region_init_cases [OF tor(6,5)] tor(2)
    proof (elim disjE exE conjE, goal_cases)
      case 1
      then show ?case by (simp add: err_codes)
    next
      case (2 k reg)
      then show ?case by (intro disjI2 exI conjI) (assumption | simp)+
    qed
  qed simp
qed

lemma pmp_allocatedD:
  assumes "pmp_allocated p priority k r p'"
  shows "k < 16" and "\<not> bit (region_def_bitmap p) k" and "regions p' = (regions p)[k := r]"
    and "bit (region_def_bitmap p') n = (bit (region_def_bitmap p) n \<or> n = k)"
    and "bit (reg_bitmap p') n = (bit (reg_bitmap p) n \<or> n \<in> region_regs r)"
    and "n \<in> region_regs r \<Longrightarrow> \<not> bit (reg_bitmap p) n \<or> n = 7"
    and "priority = PMP_PRI_TOP \<Longrightarrow> region_regs r = {0}"
    and "priority = PMP_PRI_BOTTOM \<Longrightarrow> region_regs r = {7}"
  using assms unfolding pmp_allocated_def by blast+

lemma pmp_allocated_wf:
  assumes wf: "pmp_wf p" and al: "pmp_allocated p priority k r p'" and ok: "region_ok r"
    and ov: "\<not> rg_allow_overlap r \<longrightarrow> \<not> detect_region_overlap (rg_addr r) (rg_size r) p"
  shows "pmp_wf p'"
proof -
  have k: "k < 16" "length (regions p) = 16" using wf pmp_allocatedD(1) [OF al] by (simp_all add: pmp_wf_def)
  have nth: "regions p' ! i = (if i = k then r else regions p ! i)" for i
    using pmp_allocatedD(3) [OF al] k by (cases "i = k") auto
  have bits: "bit (region_def_bitmap p') n = (bit (region_def_bitmap p) n \<or> n = k)"
    "bit (reg_bitmap p') n = (bit (reg_bitmap p) n \<or> n \<in> region_regs r)" for n
    using pmp_allocatedD(4,5) [OF al] by simp_all
  have regs: "n < 8" if "n \<in> region_regs r" for n
    using that ok by (auto simp: region_regs_def region_ok_def split: if_splits)
  have fresh: "region_regs (regions p ! i) \<inter> region_regs r \<subseteq> {7}"
    if "i < 16" "bit (region_def_bitmap p) i" for i
  proof -
    have "n = 7" if "n \<in> region_regs (regions p ! i)" "n \<in> region_regs r" for n
    proof (rule ccontr)
      assume "n \<noteq> 7"
      moreover have "\<not> bit (reg_bitmap p) n \<or> n = 7" using pmp_allocatedD(6) [OF al] that by blast
      moreover have "n < 7 \<longrightarrow> bit (reg_bitmap p) n"
        using wf that \<open>i < 16\<close> \<open>bit (region_def_bitmap p) i\<close> unfolding pmp_wf_def by blast
      ultimately show False using regs [OF that(2)] by simp
    qed
    then show ?thesis by blast
  qed
  have disj: "regions_disjoint (regions p ! i) r" "regions_disjoint r (regions p ! i)"
    if "i < 16" "bit (region_def_bitmap p) i" "\<not> rg_allow_overlap (regions p ! i)" "\<not> rg_allow_overlap r" for i
    using that ov detect_region_overlap_iff [OF wf, of "rg_addr r" "rg_size r"]
    by (auto simp: regions_disjoint_def not_less)
  show ?thesis
    unfolding pmp_wf_def nth bits
  proof (intro conjI allI impI)
    show "length (regions p') = 16" using pmp_allocatedD(3) [OF al] k by simp
  next
    fix i j assume "i < 16" "j < 16" "i \<noteq> j" "bit (region_def_bitmap p) i \<or> i = k"
      "bit (region_def_bitmap p) j \<or> j = k"
    then show "region_regs (if i = k then r else regions p ! i) \<inter>
        region_regs (if j = k then r else regions p ! j) \<subseteq> {7}"
      using fresh [of i] fresh [of j] wf unfolding pmp_wf_def
      by (cases "i = k"; cases "j = k") (simp_all add: Int_commute)
  next
    fix i j assume "i < 16" "j < 16" "i \<noteq> j" "bit (region_def_bitmap p) i \<or> i = k"
      "bit (region_def_bitmap p) j \<or> j = k"
      "\<not> rg_allow_overlap (if i = k then r else regions p ! i)"
      "\<not> rg_allow_overlap (if j = k then r else regions p ! j)"
    then show "regions_disjoint (if i = k then r else regions p ! i)
        (if j = k then r else regions p ! j)"
      using disj [of i] disj [of j] wf unfolding pmp_wf_def by (cases "i = k"; cases "j = k") simp_all
  qed (use wf ok regs k in \<open>auto simp: pmp_wf_def\<close>)
qed

subsection \<open>What freeing does\<close>

definition pmp_freed :: "pmp_state \<Rightarrow> nat \<Rightarrow> pmp_state \<Rightarrow> bool" where
  "pmp_freed p k p' \<longleftrightarrow>
     regions p' = (regions p)[k := region_zero] \<and>
     (\<forall>n. bit (region_def_bitmap p') n \<longleftrightarrow> bit (region_def_bitmap p) n \<and> n \<noteq> k) \<and>
     (\<forall>n. bit (reg_bitmap p') n \<longleftrightarrow> bit (reg_bitmap p) n \<and> n \<notin> region_regs (regions p ! k))"

lemma pmp_freedD:
  assumes "pmp_freed p k p'"
  shows "regions p' = (regions p)[k := region_zero]"
    and "bit (region_def_bitmap p') n \<longleftrightarrow> bit (region_def_bitmap p) n \<and> n \<noteq> k"
    and "bit (reg_bitmap p') n \<longleftrightarrow> bit (reg_bitmap p) n \<and> n \<notin> region_regs (regions p ! k)"
  using assms unfolding pmp_freed_def by blast+

lemma pmp_wfD:
  assumes "pmp_wf p"
  shows "length (regions p) = 16"
    and "i < 16 \<Longrightarrow> bit (region_def_bitmap p) i \<Longrightarrow> region_ok (regions p ! i)"
    and "i < 16 \<Longrightarrow> bit (region_def_bitmap p) i \<Longrightarrow> n \<in> region_regs (regions p ! i) \<Longrightarrow> n < 7 \<Longrightarrow>
      bit (reg_bitmap p) n"
    and "i < 16 \<Longrightarrow> j < 16 \<Longrightarrow> i \<noteq> j \<Longrightarrow> bit (region_def_bitmap p) i \<Longrightarrow> bit (region_def_bitmap p) j \<Longrightarrow>
      n \<in> region_regs (regions p ! i) \<Longrightarrow> n \<in> region_regs (regions p ! j) \<Longrightarrow> n = 7"
    and "i < 16 \<Longrightarrow> j < 16 \<Longrightarrow> i \<noteq> j \<Longrightarrow> bit (region_def_bitmap p) i \<Longrightarrow> bit (region_def_bitmap p) j \<Longrightarrow>
      \<not> rg_allow_overlap (regions p ! i) \<Longrightarrow> \<not> rg_allow_overlap (regions p ! j) \<Longrightarrow>
      regions_disjoint (regions p ! i) (regions p ! j)"
  using assms unfolding pmp_wf_def by blast+

lemma pmp_wf_bits:
  assumes "pmp_wf p"
  shows "bit (region_def_bitmap p) n \<Longrightarrow> n < 16" and "bit (reg_bitmap p) n \<Longrightarrow> n < 8"
  using assms bit_imp_le_length [of "region_def_bitmap p" n] bit_imp_le_length [of "reg_bitmap p" n]
  unfolding pmp_wf_def by simp_all

lemma region_regs_bound:
  assumes "region_ok r" and "n \<in> region_regs r"
  shows "n < 8"
  using assms by (auto simp: region_regs_def region_ok_def split: if_splits)

lemma region_ok_nat:
  assumes "region_ok r"
  obtains g where "rg_reg_idx r = int g" and "g < 8"
  using assms that [of "nat (rg_reg_idx r)"] by (simp add: region_ok_def nat_less_iff)

lemma pmp_region_free_valid:
  assumes wf: "pmp_wf p" and "k < 16" and "bit (region_def_bitmap p) k"
  shows "\<exists>p'. pmp_region_free_atomic (int k) p = (SBI_ERR_SM_PMP_SUCCESS, p') \<and> pmp_freed p k p'"
proof -
  let ?r = "regions p ! k"
  obtain g where g: "rg_reg_idx ?r = int g" "g < 8"
    using pmp_wfD(2) [OF wf assms(2,3)] by (rule region_ok_nat)
  have z: "?r\<lparr>rg_addr := 0, rg_size := 0, rg_addrmode := 0, rg_allow_overlap := False,
      rg_reg_idx := 0\<rparr> = region_zero"
    by (cases ?r) (simp add: region_zero_def)
  have v: "is_pmp_region_valid p (int k)" using assms by (simp add: valid_nat_iff)
  note defs = pmp_region_free_atomic_def Let_def pmp_freed_def region_clear_all_def z
    region_register_idx_def region_needs_two_entries_def region_is_tor_def region_regs_def
    bit_UNSET_BIT bit_UNSET_BIT [of 0, simplified]
  show ?thesis
  proof (cases g)
    case 0
    with assms(2) g v show ?thesis by (simp add: defs)
  next
    case (Suc h)
    with assms(2) g v bit_UNSET_BIT [of "Suc h"] show ?thesis
      by (auto simp: defs nat_add_distrib)
  qed
qed

lemma pmp_region_free_invalid:
  "\<not> is_pmp_region_valid p i \<Longrightarrow> pmp_region_free_atomic i p = (SBI_ERR_SM_PMP_REGION_INVALID, p)"
  by (simp add: pmp_region_free_atomic_def)

lemma pmp_freed_wf:
  assumes wf: "pmp_wf p" and k: "k < 16" "bit (region_def_bitmap p) k" and fr: "pmp_freed p k p'"
  shows "pmp_wf p'"
proof -
  have nth: "regions p' ! i = regions p ! i" if "i \<noteq> k" for i
    using pmp_freedD(1) [OF fr] that by simp
  have "n < 7 \<Longrightarrow> n \<notin> region_regs (regions p ! k)"
    if "i < 16" "bit (region_def_bitmap p) i" "i \<noteq> k" "n \<in> region_regs (regions p ! i)" for i n
    using pmp_wfD(4) [OF wf that(1) k(1) that(3,2) k(2) that(4)] by fastforce
  then have regs: "bit (reg_bitmap p) n \<and> n \<notin> region_regs (regions p ! k)"
    if "i < 16" "bit (region_def_bitmap p) i" "i \<noteq> k" "n \<in> region_regs (regions p ! i)" "n < 7" for i n
    using pmp_wfD(3) [OF wf that(1,2,4,5)] that by blast
  show ?thesis
    unfolding pmp_wf_def pmp_freedD(2,3) [OF fr]
  proof (intro conjI allI impI ballI)
    show "length (regions p') = 16" using pmp_wfD(1) [OF wf] pmp_freedD(1) [OF fr] by simp
  next
    fix i n
    assume *: "i < 16" "bit (region_def_bitmap p) i \<and> i \<noteq> k" "n \<in> region_regs (regions p' ! i)" "n < 7"
    then show "bit (reg_bitmap p) n" "n \<notin> region_regs (regions p ! k)"
      using regs [of i n] nth by simp_all
  next
    fix i j
    assume *: "i < 16" "j < 16" "i \<noteq> j" "bit (region_def_bitmap p) i \<and> i \<noteq> k"
      "bit (region_def_bitmap p) j \<and> j \<noteq> k"
    then show "region_regs (regions p' ! i) \<inter> region_regs (regions p' ! j) \<subseteq> {7}"
      using pmp_wfD(4) [OF wf *(1-3)] nth by auto
  qed (use pmp_wfD(2,5) [OF wf] pmp_wf_bits [OF wf] nth in auto)
qed

section \<open>What the registers hold after an update\<close>

text \<open>The contents of PMP entry \<open>n < 8\<close> of a hart: its address and its configuration byte.\<close>

definition pmp_entry :: "pmp_csrs \<Rightarrow> nat \<Rightarrow> u64 \<times> u8" where
  "pmp_entry c n = (pmpaddr c n, ucast (drop_bit (8 * n) (pmpcfg c 0)))"

lemma byte_mask: "(0xff :: u64) = mask 8"
  by (simp add: mask_eq_exp_minus_1)

lemma bit_cfg_mask:
  assumes "n < 8"
  shows "bit (NOT (push_bit (8 * n) 0xff) :: u64) k \<longleftrightarrow> k < 64 \<and> \<not> (8 * n \<le> k \<and> k < 8 * n + 8)"
  using assms unfolding byte_mask by (auto simp: bit_not_iff bit_push_bit_iff bit_mask_iff)

lemma bit_cfg_byte:
  assumes "n < 8"
  shows "bit (push_bit (8 * n) (ucast (b :: u8)) :: u64) k \<longleftrightarrow> 8 * n \<le> k \<and> k < 8 * n + 8 \<and> bit b (k - 8 * n)"
  using assms bit_imp_le_length [of b "k - 8 * n"]
  by (auto simp: bit_push_bit_iff bit_ucast_iff)

lemma entry_byte_eqI:
  assumes "\<And>k. 8 * m \<le> k \<Longrightarrow> k < 8 * m + 8 \<Longrightarrow> bit (x :: u64) k \<longleftrightarrow> bit (b :: u8) (k - 8 * m)"
  shows "ucast (drop_bit (8 * m) x) = b"
proof (rule bit_word_eqI)
  fix k assume "k < LENGTH(8)"
  then show "bit (ucast (drop_bit (8 * m) x) :: u8) k \<longleftrightarrow> bit b k"
    using assms [of "8 * m + k"] by (simp add: bit_ucast_iff bit_drop_bit_eq)
qed

lemma PMP_SET_entry:
  assumes "n < 8" and "m < 8"
  shows "pmp_entry (snd (PMP_SET n 0 adr (push_bit (8 * n) (ucast (b :: u8))) c)) m =
    (if m = n then (adr, b) else pmp_entry c m)"
proof -
  have "ucast (drop_bit (8 * m) (push_bit (8 * n) (ucast b) OR
      (pmpcfg c 0 AND NOT (push_bit (8 * n) 0xff)))) =
    (if m = n then b else (ucast (drop_bit (8 * m) (pmpcfg c 0)) :: u8))"
    using assms
    by (intro entry_byte_eqI)
      (auto simp: bit_or_iff bit_and_iff bit_cfg_byte bit_cfg_mask bit_ucast_iff bit_drop_bit_eq)
  then show ?thesis using assms
    by (simp only: pmp_entry_def PMP_SET_def Let_def cfg_defs) simp
qed

lemma PMP_SET_0_entry:
  assumes "n < 8" and "m < 8"
  shows "pmp_entry (snd (PMP_SET n 0 adr 0 c)) m = (if m = n then (adr, 0) else pmp_entry c m)"
  using PMP_SET_entry [OF assms, of adr 0 c] by simp

lemma PMP_UNSET_entry:
  assumes "n < 8" and "m < 8"
  shows "pmp_entry (PMP_UNSET n 0 c) m = (if m = n then (0, 0) else pmp_entry c m)"
proof -
  have "PMP_UNSET n 0 c = snd (PMP_SET n 0 0 0 c)" by (simp add: PMP_UNSET_def PMP_SET_def Let_def)
  then show ?thesis using PMP_SET_0_entry [OF assms, of 0 c] by simp
qed

lemma pmp_reg_group_lt: "n < 8 \<Longrightarrow> pmp_reg_group (int n) = Some 0"
  by (auto simp: pmp_reg_group_def LIST_OF_PMP_REGS_def)

definition region_entry :: "pmp_state \<Rightarrow> nat \<Rightarrow> u8 \<Rightarrow> nat \<Rightarrow> u64 \<times> u8" where
  "region_entry p k perm n =
     (if int n = rg_reg_idx (regions p ! k)
      then (region_pmpaddr_val p (int k), rg_addrmode (regions p ! k) OR (perm AND PMP_ALL_PERM))
      else (drop_bit 2 (rg_addr (regions p ! k)), 0))"

definition entries_set :: "pmp_state \<Rightarrow> nat \<Rightarrow> u8 \<Rightarrow> pmp_csrs \<Rightarrow> pmp_csrs \<Rightarrow> bool" where
  "entries_set p k perm c c' \<longleftrightarrow>
     (\<forall>n<8. pmp_entry c' n =
        (if n \<in> region_regs (regions p ! k) then region_entry p k perm n else pmp_entry c n))"

definition entries_unset :: "pmp_state \<Rightarrow> nat \<Rightarrow> pmp_csrs \<Rightarrow> pmp_csrs \<Rightarrow> bool" where
  "entries_unset p k c c' \<longleftrightarrow>
     (\<forall>n<8. pmp_entry c' n =
        (if n \<in> region_regs (regions p ! k) then (0, 0) else pmp_entry c n))"

lemma pmp_set_keystone_valid:
  assumes wf: "pmp_wf p" and k: "k < 16" "bit (region_def_bitmap p) k"
  shows "\<exists>c'. pmp_set_keystone (int k) perm p c = Some (SBI_ERR_SM_PMP_SUCCESS, c') \<and>
    entries_set p k perm c c'"
proof -
  let ?r = "regions p ! k"
  obtain g where g: "rg_reg_idx ?r = int g" "g < 8"
    using pmp_wfD(2) [OF wf k] by (rule region_ok_nat)
  have v: "is_pmp_region_valid p (int k)" using k by (simp add: valid_nat_iff)
  let ?b = "rg_addrmode ?r OR (perm AND PMP_ALL_PERM)"
  let ?c = "snd (PMP_SET g 0 (region_pmpaddr_val p (int k)) (push_bit (8 * g) (ucast ?b)) c)"
  have cfg: "region_pmpcfg_val p (int k) (int g) (perm AND PMP_ALL_PERM) = push_bit (8 * g) (ucast ?b)"
    using g(2) by (simp add: region_pmpcfg_val_def cfg_defs)
  show ?thesis
  proof (cases "rg_addrmode ?r = PMP_A_TOR \<and> 0 < g")
    case False
    then have "pmp_set_keystone (int k) perm p c = Some (SBI_ERR_SM_PMP_SUCCESS, ?c)"
      using v g cfg by (auto simp: pmp_set_keystone_def Let_def region_register_idx_def pmp_reg_group_lt
          region_needs_two_entries_def region_is_tor_def)
    moreover have "entries_set p k perm c ?c"
      using False g by (auto simp: entries_set_def PMP_SET_entry region_entry_def region_regs_def)
    ultimately show ?thesis by blast
  next
    case True
    then obtain h where h: "g = Suc h" by (cases g) auto
    let ?d = "snd (PMP_SET h 0 (drop_bit 2 (rg_addr ?r)) 0 ?c)"
    have "pmp_set_keystone (int k) perm p c = Some (SBI_ERR_SM_PMP_SUCCESS, ?d)"
      using v g cfg True h pmp_reg_group_lt [of g] pmp_reg_group_lt [of h]
      by (simp add: pmp_set_keystone_def Let_def region_register_idx_def
          region_needs_two_entries_def region_is_tor_def region_get_addr_def nat_add_distrib)
    moreover have "entries_set p k perm c ?d"
      using True g h
      by (auto simp: entries_set_def PMP_SET_entry [of "Suc h", simplified] PMP_SET_0_entry region_entry_def
          region_regs_def nat_add_distrib)
    ultimately show ?thesis by blast
  qed
qed

lemma pmp_unset_valid:
  assumes wf: "pmp_wf p" and k: "k < 16" "bit (region_def_bitmap p) k"
  shows "\<exists>c'. pmp_unset (int k) p c = Some (SBI_ERR_SM_PMP_SUCCESS, c') \<and> entries_unset p k c c'"
proof -
  let ?r = "regions p ! k"
  obtain g where g: "rg_reg_idx ?r = int g" "g < 8"
    using pmp_wfD(2) [OF wf k] by (rule region_ok_nat)
  have v: "is_pmp_region_valid p (int k)" using k by (simp add: valid_nat_iff)
  show ?thesis
  proof (cases "rg_addrmode ?r = PMP_A_TOR \<and> 0 < g")
    case False
    with v g show ?thesis
      by (auto simp: pmp_unset_def Let_def region_register_idx_def pmp_reg_group_lt
          region_needs_two_entries_def region_is_tor_def entries_unset_def PMP_UNSET_entry region_regs_def)
  next
    case True
    then obtain h where h: "g = Suc h" by (cases g) auto
    with v g True pmp_reg_group_lt [of g] pmp_reg_group_lt [of h] show ?thesis
      by (auto simp: pmp_unset_def Let_def region_register_idx_def nat_add_distrib
          region_needs_two_entries_def region_is_tor_def entries_unset_def PMP_UNSET_entry region_regs_def)
  qed
qed

subsection \<open>Updates on every hart\<close>

lemma entries_set_again:
  "entries_set p k perm c c' \<Longrightarrow> entries_set p k perm c' c'' \<Longrightarrow> entries_set p k perm c c''"
  by (auto simp: entries_set_def)

lemma entries_unset_again:
  "entries_unset p k c c' \<Longrightarrow> entries_unset p k c' c'' \<Longrightarrow> entries_unset p k c c''"
  by (auto simp: entries_unset_def)

lemma send_set_valid:
  assumes "pmp_wf p" and "k < 16" "bit (region_def_bitmap p) k"
  shows "\<exists>hs'. send_and_sync_pmp_ipi ipi_harts (int k) SBI_PMP_IPI_TYPE_SET perm p hs = Some hs' \<and>
    (\<forall>h. if h \<in> set ipi_harts then entries_set p k perm (hs h) (hs' h) else hs' h = hs h)"
proof (induction ipi_harts arbitrary: hs)
  case Nil
  then show ?case by simp
next
  case (Cons x xs)
  obtain c where c: "pmp_set_keystone (int k) perm p (hs x) = Some (SBI_ERR_SM_PMP_SUCCESS, c)"
    "entries_set p k perm (hs x) c"
    using pmp_set_keystone_valid [OF assms] by blast
  obtain hs' where hs': "send_and_sync_pmp_ipi xs (int k) SBI_PMP_IPI_TYPE_SET perm p (hs(x := c)) = Some hs'"
    "\<And>h. if h \<in> set xs then entries_set p k perm ((hs(x := c)) h) (hs' h) else hs' h = (hs(x := c)) h"
    using Cons.IH [of "hs(x := c)"] by blast
  have "if h \<in> set (x # xs) then entries_set p k perm (hs h) (hs' h) else hs' h = hs h" for h
    using hs'(2) [of h] c(2) entries_set_again [OF c(2), of "hs' h"] by (auto split: if_splits)
  with hs'(1) c(1) show ?case by (auto simp: sbi_pmp_ipi_local_update_def)
qed

lemma send_unset_valid:
  assumes "pmp_wf p" and "k < 16" "bit (region_def_bitmap p) k"
  shows "\<exists>hs'. send_and_sync_pmp_ipi ipi_harts (int k) SBI_PMP_IPI_TYPE_UNSET perm p hs = Some hs' \<and>
    (\<forall>h. if h \<in> set ipi_harts then entries_unset p k (hs h) (hs' h) else hs' h = hs h)"
proof (induction ipi_harts arbitrary: hs)
  case Nil
  then show ?case by simp
next
  case (Cons x xs)
  obtain c where c: "pmp_unset (int k) p (hs x) = Some (SBI_ERR_SM_PMP_SUCCESS, c)"
    "entries_unset p k (hs x) c"
    using pmp_unset_valid [OF assms] by blast
  obtain hs' where hs': "send_and_sync_pmp_ipi xs (int k) SBI_PMP_IPI_TYPE_UNSET perm p (hs(x := c)) = Some hs'"
    "\<And>h. if h \<in> set xs then entries_unset p k ((hs(x := c)) h) (hs' h) else hs' h = (hs(x := c)) h"
    using Cons.IH [of "hs(x := c)"] by blast
  have "if h \<in> set (x # xs) then entries_unset p k (hs h) (hs' h) else hs' h = hs h" for h
    using hs'(2) [of h] c(2) entries_unset_again [OF c(2), of "hs' h"] by (auto split: if_splits)
  with hs'(1) c(1) show ?case by (auto simp: sbi_pmp_ipi_local_update_def)
qed

lemma pmp_set_global_valid:
  assumes "pmp_wf p" and "k < 16" "bit (region_def_bitmap p) k"
  shows "\<exists>hs'. pmp_set_global ipi_harts (int k) perm p hs = Some (SBI_ERR_SM_PMP_SUCCESS, hs') \<and>
    (\<forall>h. if h \<in> set ipi_harts then entries_set p k perm (hs h) (hs' h) else hs' h = hs h)"
  using send_set_valid [OF assms, of ipi_harts perm hs] assms
  by (auto simp: pmp_set_global_def valid_nat_iff)

lemma pmp_unset_global_valid:
  assumes "pmp_wf p" and "k < 16" "bit (region_def_bitmap p) k"
  shows "\<exists>hs'. pmp_unset_global ipi_harts (int k) p hs = Some (SBI_ERR_SM_PMP_SUCCESS, hs') \<and>
    (\<forall>h. if h \<in> set ipi_harts then entries_unset p k (hs h) (hs' h) else hs' h = hs h)"
  using send_unset_valid [OF assms, of ipi_harts PMP_NO_PERM hs] assms
  by (auto simp: pmp_unset_global_def valid_nat_iff)

lemma pmp_invalid_region:
  assumes "\<not> is_pmp_region_valid p i"
  shows "pmp_set_keystone i perm p c = Some (SBI_ERR_SM_PMP_REGION_INVALID, c)"
    and "pmp_unset i p c = Some (SBI_ERR_SM_PMP_REGION_INVALID, c)"
    and "pmp_set_global ipi_harts i perm p hs = Some (SBI_ERR_SM_PMP_REGION_INVALID, hs)"
    and "pmp_unset_global ipi_harts i p hs = Some (SBI_ERR_SM_PMP_REGION_INVALID, hs)"
  using assms by (simp_all add: pmp_set_keystone_def pmp_unset_def pmp_set_global_def pmp_unset_global_def)

section \<open>The regions of the boot\<close>

text \<open>The table after the monitor's region was created, and after the operating system's.\<close>

definition sm_region :: pmp_region where
  "sm_region = \<lparr>rg_size = SMM_SIZE, rg_addrmode = PMP_A_NAPOT, rg_addr = SMM_BASE, rg_allow_overlap = False, rg_reg_idx = 0\<rparr>"

definition os_region :: pmp_region where
  "os_region = \<lparr>rg_size = - 1, rg_addrmode = PMP_A_NAPOT, rg_addr = 0, rg_allow_overlap = True, rg_reg_idx = 7\<rparr>"

definition smm_regions :: pmp_state where
  "smm_regions = \<lparr>regions = (replicate 16 region_zero)[0 := sm_region], reg_bitmap = 1, region_def_bitmap = 1\<rparr>"

definition boot_regions :: pmp_state where
  "boot_regions = \<lparr>regions = (replicate 16 region_zero)[0 := sm_region, 1 := os_region],
     reg_bitmap = 129, region_def_bitmap = 3\<rparr>"

lemma find_upt_first: "m < n \<Longrightarrow> find P [m..<n] = (if P m then Some m else find P [Suc m..<n])"
  by (simp add: upt_conv_Cons)

lemma foldl_keep: "foldl (\<lambda>b i. b) x ys = x"
  by (induction ys) simp_all

lemmas region_init_evals = pmp_region_init_atomic_def pmp_region_init_def napot_region_init_def napot_pick_reg_eq
  get_free_region_idx_eq SET_BIT_def BIT_MASK_def cfg_defs err_codes region_zero_def

lemma boot_sm_region:
  "pmp_region_init_atomic SMM_BASE SMM_SIZE PMP_PRI_TOP (- 1) False pmp_state_zero = Some (SBI_ERR_SM_PMP_SUCCESS, 0, smm_regions)"
  by (simp add: region_init_evals find_upt_first [of 0] region_init_regions [of 0, simplified] smm_regions_def
      detect_region_overlap_def CHECKED_ADD_def foldl_keep pmp_state_zero_def is_pmp_region_valid_def TEST_BIT_def sm_region_def)

lemma boot_os_region:
  "pmp_region_init_atomic 0 (- 1) PMP_PRI_BOTTOM (- 1) True smm_regions = Some (SBI_ERR_SM_PMP_SUCCESS, 1, boot_regions)"
  by (simp add: region_init_evals find_upt_first [of 0] find_upt_first [of "Suc 0"] smm_regions_def
      region_init_regions [of 1, simplified] bit_1_iff boot_regions_def os_region_def)

lemma region_init_wf:
  assumes "pmp_wf p" and "pmp_region_init start sz priority rid ov p = Some (c, rid', p')"
    and "priority = PMP_PRI_ANY \<longrightarrow> bit (reg_bitmap p) 0"
  shows "pmp_wf p'"
  using pmp_region_init_cases [OF assms(2,3)] pmp_allocated_wf [OF assms(1)] assms(1) by auto

lemma boot_regions_wf: "pmp_wf smm_regions" "pmp_wf boot_regions"
proof -
  show w: "pmp_wf smm_regions"
    using boot_sm_region region_init_wf [OF pmp_wf_zero, of SMM_BASE SMM_SIZE PMP_PRI_TOP "- 1" False]
    by (simp add: pmp_region_init_atomic_def)
  show "pmp_wf boot_regions"
    using boot_os_region region_init_wf [OF w, of 0 "- 1" PMP_PRI_BOTTOM "- 1" True]
    by (simp add: pmp_region_init_atomic_def)
qed

section \<open>Properties of the region table\<close>

text \<open>The addresses of a region and of a request, as numbers.\<close>

definition region_span :: "pmp_region \<Rightarrow> nat set" where
  "region_span r = {unat (rg_addr r) ..< unat (rg_addr r) + unat (rg_size r)}"

lemma span_meets_iff:
  fixes a b n k :: nat
  assumes "0 < n" and "0 < k"
  shows "{a ..< a + n} \<inter> {b ..< b + k} \<noteq> {} \<longleftrightarrow> b < a + n \<and> a < b + k"
proof
  assume "b < a + n \<and> a < b + k"
  then have "max a b \<in> {a ..< a + n} \<inter> {b ..< b + k}" using assms by auto
  then show "{a ..< a + n} \<inter> {b ..< b + k} \<noteq> {}" by blast
qed auto

lemma detect_overlap_span:
  assumes wf: "pmp_wf p" and sz: "sz \<noteq> 0"
  shows "detect_region_overlap addr sz p \<longleftrightarrow>
    2 ^ 64 \<le> unat addr + unat sz \<or>
    (\<exists>i<16. is_pmp_region_valid p (int i) \<and> \<not> rg_allow_overlap (regions p ! i) \<and>
       {unat addr ..< unat addr + unat sz} \<inter> region_span (regions p ! i) \<noteq> {})"
proof -
  have m: "{unat addr ..< unat addr + unat sz} \<inter> region_span (regions p ! i) \<noteq> {} \<longleftrightarrow>
      unat (rg_addr (regions p ! i)) < unat addr + unat sz \<and>
      unat addr < unat (rg_addr (regions p ! i)) + unat (rg_size (regions p ! i))"
    if "i < 16" "bit (region_def_bitmap p) i" for i
    unfolding region_span_def using sz pmp_wfD(2) [OF wf that]
    by (intro span_meets_iff) (auto simp: region_ok_def unat_gt_0)
  have "(i < 16 \<and> bit (region_def_bitmap p) i \<and> \<not> rg_allow_overlap (regions p ! i) \<and>
       unat (rg_addr (regions p ! i)) < unat addr + unat sz \<and>
       unat addr < unat (rg_addr (regions p ! i)) + unat (rg_size (regions p ! i))) \<longleftrightarrow>
     (i < 16 \<and> is_pmp_region_valid p (int i) \<and> \<not> rg_allow_overlap (regions p ! i) \<and>
       {unat addr ..< unat addr + unat sz} \<inter> region_span (regions p ! i) \<noteq> {})" for i
    using m [of i] valid_nat_iff [of i p] by (cases "i < 16"; cases "bit (region_def_bitmap p) i") simp_all
  then show ?thesis unfolding detect_region_overlap_iff [OF wf] by (simp only:)
qed

text \<open>
  C19. \<open>search_rightmost_unset\<close> finds the first free window: with a mask of \<open>w\<close> ones it returns
  the least index at which \<open>w\<close> consecutive bits of the bitmap are clear below \<open>max\<close>, and \<open>-1\<close>
  exactly when there is none.
\<close>

theorem search_rightmost_unset_first_fit:
  assumes "mx < 32" and "0 < w" and "w \<le> mx"
  shows "\<exists>r. search_rightmost_unset b mx (mask w) = Some r \<and>
    (r = - 1 \<longrightarrow> (\<forall>j. j + w \<le> mx \<longrightarrow> (\<exists>t<w. bit b (j + t)))) \<and>
    (r \<noteq> - 1 \<longrightarrow> 0 \<le> r \<and> nat r + w \<le> mx \<and> (\<forall>t<w. \<not> bit b (nat r + t)) \<and>
       (\<forall>j<nat r. \<exists>t<w. bit b (j + t)))"
proof (cases "find (\<lambda>j. \<forall>t<w. \<not> bit b (j + t)) [0..<Suc mx - w]")
  case None
  then have "search_rightmost_unset b mx (mask w) = Some (- 1)"
    using assms by (simp add: search_rightmost_unset_eq)
  moreover from None have "\<forall>j. j + w \<le> mx \<longrightarrow> (\<exists>t<w. bit b (j + t))"
    by (auto simp: find_None_iff)
  ultimately show ?thesis by simp
next
  case (Some j)
  then have "search_rightmost_unset b mx (mask w) = Some (int j)"
    using assms by (simp add: search_rightmost_unset_eq)
  moreover from Some have "j + w \<le> mx" "\<forall>t<w. \<not> bit b (j + t)" "\<forall>i<j. \<exists>t<w. bit b (i + t)"
    by (auto simp: find_Some_iff)
  ultimately show ?thesis by simp
qed

theorem search_rightmost_unset_first_fit_witness:
  "search_rightmost_unset 0x17 8 (mask 2) = Some 5"
proof -
  have "\<not> bit (0x17 :: u32) 5" "\<not> bit (0x17 :: u32) 6" by code_simp+
  moreover have "\<exists>r. search_rightmost_unset 0x17 8 (mask 2) = Some r \<and>
    (r = - 1 \<longrightarrow> (\<forall>j. j + 2 \<le> 8 \<longrightarrow> (\<exists>t<2. bit (0x17 :: u32) (j + t)))) \<and>
    (r \<noteq> - 1 \<longrightarrow> 0 \<le> r \<and> nat r + 2 \<le> 8 \<and> (\<forall>t<2. \<not> bit (0x17 :: u32) (nat r + t)) \<and>
       (\<forall>j<nat r. \<exists>t<2. bit (0x17 :: u32) (j + t)))"
    by (rule search_rightmost_unset_first_fit) simp_all
  moreover have "search_rightmost_unset 0x17 8 (mask 2) = Some 5" by code_simp
  ultimately show ?thesis by simp
qed

text \<open>
  C18. \<open>detect_region_overlap\<close> decides what it is named for: it reports an overlap exactly when the
  requested range wraps around the address space or shares an address with a defined region that
  does not allow overlap.
\<close>

theorem detect_region_overlap_decides:
  assumes "pmp_wf p" and "sz \<noteq> 0"
  shows "detect_region_overlap addr sz p \<longleftrightarrow>
    2 ^ 64 \<le> unat addr + unat sz \<or>
    (\<exists>i<16. is_pmp_region_valid p (int i) \<and> \<not> rg_allow_overlap (regions p ! i) \<and>
       {unat addr ..< unat addr + unat sz} \<inter> region_span (regions p ! i) \<noteq> {})"
  using assms by (rule detect_overlap_span)

theorem detect_region_overlap_decides_witness:
  "pmp_wf boot_regions \<and> detect_region_overlap 0x80001000 0x1000 boot_regions \<and> \<not> detect_region_overlap 0x90000000 0x1000 boot_regions"
proof -
  have v: "is_pmp_region_valid boot_regions (int i) \<longleftrightarrow> i < 2" if "i < 16" for i
    using that by (auto simp: valid_nat_iff boot_regions_def bit_numeral_rec less_Suc_eq bit_1_iff numeral_2_eq_2 split: nat.splits)
  have r: "regions boot_regions ! 0 = sm_region" "rg_allow_overlap (regions boot_regions ! 1)"
    by (simp_all add: boot_regions_def os_region_def)
  have s: "region_span sm_region = {0x80000000 ..< 0x80200000}" "\<not> rg_allow_overlap sm_region"
    by (simp_all add: region_span_def sm_region_def cfg_defs)
  have "detect_region_overlap 0x80001000 0x1000 boot_regions"
    by (subst detect_region_overlap_decides [OF boot_regions_wf(2)])
      (use r s v [of 0] in \<open>auto intro!: exI [of _ 0]\<close>)
  moreover have "\<not> detect_region_overlap 0x90000000 0x1000 boot_regions"
    by (subst detect_region_overlap_decides [OF boot_regions_wf(2)])
      (use r s v in \<open>auto simp: less_2_cases_iff\<close>)
  ultimately show ?thesis using boot_regions_wf(2) by simp
qed

lemma allocated_valid:
  assumes "pmp_allocated p priority k r p'" and "i < 16"
  shows "is_pmp_region_valid p' (int i) \<longleftrightarrow> is_pmp_region_valid p (int i) \<or> i = k"
  using pmp_allocatedD(4) [OF assms(1), of i] assms(2) by (simp add: valid_nat_iff)

lemma freed_valid:
  assumes "pmp_freed p k p'" and "i < 16"
  shows "is_pmp_region_valid p' (int i) \<longleftrightarrow> is_pmp_region_valid p (int i) \<and> i \<noteq> k"
  using pmp_freedD(2) [OF assms(1), of i] assms(2) by (simp add: valid_nat_iff)





text \<open>
  C21. \<open>pmp_init\<close> sets every address register to 0 but turns off the first entry only: the
  configuration of the entries 1 to 7 is what it was, because the variable it writes is not reset
  between the iterations.
\<close>

theorem pmp_init_effect:
  assumes "n < 8"
  shows "pmp_entry (pmp_init c) n = (0, if n = 0 then 0 else snd (pmp_entry c n))"
proof -
  have "pmpcfg (pmp_init c) 0 = pmpcfg c 0 AND NOT (push_bit (8 * 0) 0xff)" and a: "n = 0 \<or> n = 1 \<or> n = 2 \<or> n = 3 \<or> n = 4 \<or> n = 5 \<or> n = 6 \<or> n = 7 \<Longrightarrow> pmpaddr (pmp_init c) n = 0"
    by (auto simp: pmp_init_def PMP_N_REG_def LIST_OF_PMP_REGS_def PMP_SET_def Let_def upt_rec PMP_PER_GROUP_def)
  then have "bit (pmpcfg (pmp_init c) 0) k \<longleftrightarrow> bit (pmpcfg c 0) k \<and> \<not> k < 8" if "k < 64" for k
    using bit_cfg_mask [of 0 k] that by (simp add: bit_and_iff)
  then have "ucast (drop_bit (8 * n) (pmpcfg (pmp_init c) 0)) = (if n = 0 then 0 else snd (pmp_entry c n))"
    using assms by (intro entry_byte_eqI) (auto simp: pmp_entry_def bit_simps)
  moreover have "n = 0 \<or> n = 1 \<or> n = 2 \<or> n = 3 \<or> n = 4 \<or> n = 5 \<or> n = 6 \<or> n = 7" using assms by linarith
  ultimately show ?thesis using a by (simp add: pmp_entry_def)
qed

theorem pmp_init_effect_witness:
  "pmp_entry (pmp_init \<lparr>pmpaddr = (\<lambda>_. 5), pmpcfg = (\<lambda>_. 0x1F1F)\<rparr>) 1 = (0, 0x1F)"
  by (subst pmp_init_effect) (simp_all add: pmp_entry_def)

end
