(* ===== verification/PMP_Hardware.thy ===== *)
theory PMP_Hardware
  imports PMP
begin

text \<open>
  The access check of the RISC-V PMP unit (privileged architecture, section "Physical Memory
  Protection"), for the eight entries the monitor programs and accesses from S- and U-mode: entry
  matching, priority of the lowest-numbered matching entry, and denial without a match. Byte
  accesses are checked; a wider access is the conjunction of its bytes.
\<close>

datatype pmp_mode = PMP_OFF | PMP_TOR | PMP_NA4 | PMP_NAPOT

definition cfg_mode :: "u8 \<Rightarrow> pmp_mode" where
  "cfg_mode b =
     (let a = drop_bit 3 b AND 3 in
      if a = 0 then PMP_OFF else if a = 1 then PMP_TOR else if a = 2 then PMP_NA4 else PMP_NAPOT)"

definition entry_matches :: "pmp_csrs \<Rightarrow> nat \<Rightarrow> u64 \<Rightarrow> bool" where
  "entry_matches c n a =
     (let v = fst (pmp_entry c n); w = drop_bit 2 a in
      case cfg_mode (snd (pmp_entry c n)) of
        PMP_OFF \<Rightarrow> False
      | PMP_TOR \<Rightarrow> (if n = 0 then True else fst (pmp_entry c (n - 1)) \<le> w) \<and> w < v
      | PMP_NA4 \<Rightarrow> w = v
      | PMP_NAPOT \<Rightarrow> (w XOR v) AND NOT (v XOR (v + 1)) = 0)"

definition pmp_lookup :: "pmp_csrs \<Rightarrow> u64 \<Rightarrow> nat option" where
  "pmp_lookup c a = find (\<lambda>n. entry_matches c n a) [0..<8]"

definition pmp_allows :: "pmp_csrs \<Rightarrow> u64 \<Rightarrow> u8 \<Rightarrow> bool" where
  "pmp_allows c a perm =
     (case pmp_lookup c a of None \<Rightarrow> False | Some n \<Rightarrow> snd (pmp_entry c n) AND perm = perm)"

section \<open>Encoding and matching agree\<close>

definition in_region :: "pmp_region \<Rightarrow> u64 \<Rightarrow> bool" where
  "in_region r a \<longleftrightarrow>
     (if rg_addr r = 0 \<and> rg_size r = - 1 then True
      else unat (rg_addr r) \<le> unat a \<and> unat a < unat (rg_addr r) + unat (rg_size r))"

lemma and_pred_pow2:
  fixes n :: nat
  assumes "0 < n" and "n AND (n - 1) = 0"
  shows "\<exists>k. n = 2 ^ k"
  using assms
proof (induction n rule: less_induct)
  case (less n)
  show ?case
  proof (cases "even n")
    case True
    then obtain m where m: "n = 2 * m" by blast
    then have "(n - 1) div 2 = m - 1" by simp
    then have "m AND (m - 1) = 0"
      using less.prems(2) m by (subst (asm) and_rec) simp
    with less m obtain k where "m = 2 ^ k" by (metis less_add_same_cancel1 mult_2 nat_0_less_mult_iff)
    with m show ?thesis by (intro exI [of _ "Suc k"]) simp
  next
    case False
    then obtain m where m: "n = 2 * m + 1" by (auto elim: oddE)
    then have "m AND m = 0" using less.prems(2) by (subst (asm) and_rec) simp
    with m show ?thesis by (intro exI [of _ 0]) simp
  qed
qed

lemma pow2_sizeE:
  fixes s :: u64
  assumes "s \<noteq> 0" and "s AND (s - 1) = 0"
  obtains k where "k < 64" and "s = 2 ^ k" and "unat s = 2 ^ k"
proof -
  have "unat (s - 1) = unat s - 1" using assms(1) by (rule unat_minus_one)
  moreover have "unat s AND unat (s - 1) = 0"
    using assms(2) by (metis unsigned_0 unsigned_and_eq)
  ultimately obtain k where k: "unat s = 2 ^ k"
    using and_pred_pow2 [of "unat s"] assms(1) unat_gt_0 [of s] by auto
  moreover have "unat s < 2 ^ LENGTH(64)" by (rule unsigned_less)
  ultimately have "(2::nat) ^ k < 2 ^ 64" by simp
  then have "k < 64" by (simp only: power_strict_increasing_iff)
  moreover have "s = of_nat (unat s)" by simp
  then have "s = 2 ^ k" unfolding k by simp
  ultimately show ?thesis using that k by blast
qed

text \<open>An address and size in NAPOT shape as bits.\<close>

lemma napot_bits:
  assumes "napot_shape a s" and "s = 2 ^ k" and "k < 64"
  shows "j < k \<Longrightarrow> \<not> bit a j" and "unat a = 2 ^ k * unat (drop_bit k a)"
proof -
  have m: "s - 1 = mask k" using assms(2) by (simp add: mask_eq_exp_minus_1)
  then have z: "a AND mask k = 0" using assms(1) by (simp add: napot_shape_def)
  then show "\<not> bit a j" if "j < k"
  proof -
    have "bit (a AND mask k) j \<longleftrightarrow> bit (0 :: u64) j" by (simp only: z)
    with that assms(3) show ?thesis by (simp add: bit_and_iff bit_mask_iff)
  qed
  from z have "take_bit k a = 0" by (simp add: take_bit_eq_mask)
  then have "take_bit k (unat a) = 0" by (metis unsigned_0 unsigned_take_bit_eq)
  then show "unat a = 2 ^ k * unat (drop_bit k a)"
    using div_mult_mod_eq [of "unat a" "2 ^ k"] assms(3)
    by (simp add: take_bit_eq_mod unat_drop_bit_eq drop_bit_eq_div [of _ "unat a"] mult.commute)
qed

lemma xor_succ_mask:
  fixes v :: u64
  assumes "m < 63" and ones: "\<And>j. j < m \<Longrightarrow> bit v j" and zero: "\<not> bit v m"
  shows "v XOR (v + 1) = mask (Suc m)"
proof -
  let ?u = "v AND NOT (mask (Suc m))"
  have v: "v = ?u OR mask m"
    by (rule bit_word_eqI)
      (use assms in \<open>auto simp: bit_or_iff bit_and_iff bit_not_iff bit_mask_iff less_Suc_eq\<close>)
  have "?u + mask m = ?u OR mask m"
    by (rule disjunctive_add) (auto simp: bit_and_iff bit_not_iff bit_mask_iff)
  then have "v + 1 = ?u + (mask m + 1)" by (subst v) (simp add: add.assoc)
  also have "mask m + 1 = (2 ^ m :: u64)" by (simp add: mask_eq_exp_minus_1)
  also have "?u + 2 ^ m = ?u OR 2 ^ m"
    by (rule disjunctive_add) (auto simp: bit_and_iff bit_not_iff bit_mask_iff bit_exp_iff)
  finally have s: "v + 1 = ?u OR 2 ^ m" .
  show ?thesis
  proof (rule bit_word_eqI)
    fix j assume "j < LENGTH(64)"
    then show "bit (v XOR (v + 1)) j \<longleftrightarrow> bit (mask (Suc m) :: u64) j"
      unfolding s using assms
      by (cases "j < m"; cases "j = m")
        (auto simp: bit_xor_iff bit_or_iff bit_and_iff bit_not_iff bit_mask_iff bit_exp_iff)
  qed
qed

lemma and_not_mask_eq_0:
  "(w XOR v) AND NOT (mask n) = (0 :: u64) \<longleftrightarrow> drop_bit n w = drop_bit n v"
proof
  assume *: "(w XOR v) AND NOT (mask n) = 0"
  show "drop_bit n w = drop_bit n v"
  proof (rule bit_word_eqI)
    fix j
    have "bit ((w XOR v) AND NOT (mask n)) (n + j) \<longleftrightarrow> bit (0 :: u64) (n + j)" by (simp only: *)
    then show "bit (drop_bit n w) j \<longleftrightarrow> bit (drop_bit n v) j"
      using bit_imp_le_length [of w "n + j"] bit_imp_le_length [of v "n + j"]
      by (auto simp: bit_drop_bit_eq bit_and_iff bit_xor_iff bit_not_iff bit_mask_iff)
  qed
next
  assume *: "drop_bit n w = drop_bit n v"
  show "(w XOR v) AND NOT (mask n) = 0"
  proof (rule bit_word_eqI)
    fix j
    have "bit (drop_bit n w) (j - n) \<longleftrightarrow> bit (drop_bit n v) (j - n)" by (simp only: *)
    then show "bit ((w XOR v) AND NOT (mask n)) j \<longleftrightarrow> bit (0 :: u64) j"
      by (auto simp: bit_drop_bit_eq bit_and_iff bit_xor_iff bit_not_iff bit_mask_iff)
  qed
qed

lemma napot_match:
  fixes a0 a :: u64
  assumes sh: "napot_shape a0 s" and s: "s = 2 ^ k" and k: "3 \<le> k" "k < 64"
    and v: "v = drop_bit 2 (a0 OR (s div 2 - 1))"
  shows "(drop_bit 2 a XOR v) AND NOT (v XOR (v + 1)) = 0 \<longleftrightarrow> drop_bit k a = drop_bit k a0"
proof -
  have "s div 2 = 2 ^ (k - 1)"
  proof (rule bit_word_eqI)
    fix j assume "j < LENGTH(64)"
    then show "bit (s div 2) j \<longleftrightarrow> bit (2 ^ (k - 1) :: u64) j"
      using k unfolding s by (auto simp: bit_simps simp flip: drop_bit_Suc drop_bit_eq_div [of 1, simplified])
  qed
  then have m: "s div 2 - 1 = mask (k - 1)" by (simp add: mask_eq_exp_minus_1)
  have bv: "bit v j \<longleftrightarrow> bit a0 (j + 2) \<or> j + 2 < k - 1" if "j < 62" for j
    using that unfolding v m by (auto simp: bit_drop_bit_eq bit_or_iff bit_mask_iff add.commute)
  have "v XOR (v + 1) = mask (Suc (k - 3))"
  proof (rule xor_succ_mask)
    have "k - 3 + 2 = k - 1" using k by simp
    then show "\<not> bit v (k - 3)"
      using bv [of "k - 3"] napot_bits(1) [OF sh s k(2), of "k - 1"] k by simp
  qed (use bv k in auto)
  then have "v XOR (v + 1) = mask (k - 2)" using k by (simp add: Suc_diff_le [symmetric])
  moreover have "drop_bit (k - 2) v = drop_bit k a0"
  proof (rule bit_word_eqI)
    fix j assume "j < LENGTH(64)"
    have "2 + (k - 2 + j) = k + j" using k by simp
    then show "bit (drop_bit (k - 2) v) j \<longleftrightarrow> bit (drop_bit k a0) j"
      unfolding v m by (auto simp: bit_drop_bit_eq bit_or_iff bit_mask_iff)
  qed
  moreover have "k - 2 + 2 = k" using k by simp
  then have "drop_bit (k - 2) (drop_bit 2 a) = drop_bit k a" by (simp only: drop_bit_drop_bit)
  ultimately show ?thesis by (simp add: and_not_mask_eq_0)
qed

lemma div_eq_range:
  fixes m n q :: nat
  assumes "0 < m"
  shows "n div m = q \<longleftrightarrow> m * q \<le> n \<and> n < m * q + m"
  using assms times_div_less_eq_dividend [of m n] dividend_less_times_div [of m n]
  by (auto simp: div_nat_eqI)

lemma drop_bit_eq_range:
  fixes a0 a :: u64
  assumes sh: "napot_shape a0 s" and s: "s = 2 ^ k" "unat s = 2 ^ k" and k: "k < 64"
  shows "drop_bit k a = drop_bit k a0 \<longleftrightarrow> unat a0 \<le> unat a \<and> unat a < unat a0 + unat s"
proof -
  let ?q = "unat (drop_bit k a0)"
  have a0: "unat a0 = 2 ^ k * ?q" using napot_bits(2) [OF sh s(1) k] .
  have "drop_bit k a = drop_bit k a0 \<longleftrightarrow> unat a div 2 ^ k = ?q"
    by (simp add: word_unat_eq_iff unat_drop_bit_eq drop_bit_eq_div [of _ "unat a"])
  also have "\<dots> \<longleftrightarrow> 2 ^ k * ?q \<le> unat a \<and> unat a < 2 ^ k * ?q + 2 ^ k"
    by (rule div_eq_range) simp
  finally show ?thesis using a0 s(2) by simp
qed

lemma unat_drop_bit_2_less:
  fixes a e :: u64
  assumes "e AND 3 = 0"
  shows "drop_bit 2 a < drop_bit 2 e \<longleftrightarrow> unat a < unat e"
    and "drop_bit 2 e \<le> drop_bit 2 a \<longleftrightarrow> unat e \<le> unat a"
proof -
  have "(3 :: u64) = mask 2" by (simp add: mask_eq_exp_minus_1)
  then have "take_bit 2 e = 0" using assms by (simp add: take_bit_eq_mask)
  then have "take_bit 2 (unat e) = 0" by (metis unsigned_0 unsigned_take_bit_eq)
  then have "unat e mod 4 = 0" by (simp add: take_bit_eq_mod)
  then have q: "unat e = 4 * (unat e div 4)" by (metis add_0 mult_div_mod_eq add.commute)
  have "drop_bit 2 a < drop_bit 2 e \<longleftrightarrow> unat a div 4 < unat e div 4"
    by (simp add: word_less_nat_alt unat_drop_bit_eq drop_bit_eq_div [of _ "unat _"])
  moreover have "drop_bit 2 e \<le> drop_bit 2 a \<longleftrightarrow> unat e div 4 \<le> unat a div 4"
    by (simp add: word_le_nat_alt unat_drop_bit_eq drop_bit_eq_div [of _ "unat _"])
  ultimately show "drop_bit 2 a < drop_bit 2 e \<longleftrightarrow> unat a < unat e"
    and "drop_bit 2 e \<le> drop_bit 2 a \<longleftrightarrow> unat e \<le> unat a"
    using q div_less_iff_less_mult [of 4 "unat a" "unat e div 4"] less_eq_div_iff_mult_less_eq [of 4 "unat e div 4" "unat a"]
    by (simp_all add: mult.commute)
qed

lemma page_aligned_iff: "page_aligned a \<longleftrightarrow> unat a mod 4096 = 0"
proof -
  have "RISCV_PGSIZE - 1 = mask 12" by (simp add: cfg_defs mask_eq_exp_minus_1)
  then have "page_aligned a \<longleftrightarrow> take_bit 12 a = 0"
    by (simp only: page_aligned_def take_bit_eq_mask)
  also have "\<dots> \<longleftrightarrow> unat (take_bit 12 a) = 0" by (simp add: word_unat_eq_iff)
  also have "unat (take_bit 12 a) = unat a mod 4096"
    by (simp add: unsigned_take_bit_eq take_bit_eq_mod [of _ "unat a"])
  finally show ?thesis .
qed

lemma page_aligned_and_3: "page_aligned a \<Longrightarrow> a AND 3 = 0"
proof -
  assume "page_aligned a"
  then have "unat a mod 4096 = 0" by (simp add: page_aligned_iff)
  then have "unat a mod 4 = 0" using mod_mod_cancel [of 4 4096 "unat a"] by simp
  then have "unat (take_bit 2 a) = 0" by (simp add: unsigned_take_bit_eq take_bit_eq_mod [of _ "unat a"])
  then show ?thesis by (simp add: word_unat_eq_iff take_bit_eq_mask mask_eq_exp_minus_1)
qed

lemma page_aligned_add:
  assumes "page_aligned a" and "page_aligned b"
  shows "page_aligned (a + b)"
proof -
  have "(unat a + unat b) mod 4096 = 0"
    using assms unfolding page_aligned_iff by (metis add_0 mod_add_eq mod_0)
  then show ?thesis
    unfolding page_aligned_iff unat_word_ariths by (subst mod_mod_cancel) simp_all
qed

lemma page_aligned_pow2:
  assumes "page_aligned s" "s = 2 ^ k" "k < 64"
  shows "12 \<le> k"
proof (rule ccontr)
  assume "\<not> 12 \<le> k"
  have "bit (s AND mask 12) k \<longleftrightarrow> bit (0 :: u64) k"
    using assms(1) by (simp add: page_aligned_def cfg_defs mask_eq_exp_minus_1)
  with assms \<open>\<not> 12 \<le> k\<close> show False by (simp add: bit_simps)
qed



section \<open>A programmed region\<close>

text \<open>The registers of region \<open>k\<close> hold its encoding with permission \<open>perm\<close>.\<close>

definition programmed :: "pmp_csrs \<Rightarrow> pmp_state \<Rightarrow> nat \<Rightarrow> u8 \<Rightarrow> bool" where
  "programmed c p k perm \<longleftrightarrow>
     (\<forall>n \<in> region_regs (regions p ! k). pmp_entry c n = region_entry p k perm n)"

lemma cfg_mode_region:
  "cfg_mode (PMP_A_NAPOT OR (perm AND PMP_ALL_PERM)) = PMP_NAPOT"
  "cfg_mode (PMP_A_TOR OR (perm AND PMP_ALL_PERM)) = PMP_TOR"
  "cfg_mode 0 = PMP_OFF"
proof -
  have "drop_bit 3 (PMP_A_NAPOT OR (perm AND PMP_ALL_PERM)) = 3"
    "drop_bit 3 (PMP_A_TOR OR (perm AND PMP_ALL_PERM)) = 1"
    by (simp_all add: hw_consts PMP_ALL_PERM_def drop_bit_or drop_bit_and)
  then show "cfg_mode (PMP_A_NAPOT OR (perm AND PMP_ALL_PERM)) = PMP_NAPOT"
    "cfg_mode (PMP_A_TOR OR (perm AND PMP_ALL_PERM)) = PMP_TOR"
    by (simp_all add: cfg_mode_def)
qed (simp add: cfg_mode_def)

lemma region_matches:
  assumes ok: "region_ok (regions p ! k)" and pr: "programmed c p k perm"
    and nw: "rg_addrmode (regions p ! k) = PMP_A_TOR \<longrightarrow>
      unat (rg_addr (regions p ! k)) + unat (rg_size (regions p ! k)) < 2 ^ 64"
    and g: "rg_reg_idx (regions p ! k) = int g"
  shows "entry_matches c g a \<longleftrightarrow> in_region (regions p ! k) a"
proof -
  let ?r = "regions p ! k"
  have e: "pmp_entry c g = (region_pmpaddr_val p (int k), rg_addrmode ?r OR (perm AND PMP_ALL_PERM))"
    using pr g by (auto simp: programmed_def region_entry_def region_regs_def split: if_splits)
  from ok consider (all) "rg_addrmode ?r = PMP_A_NAPOT" "rg_addr ?r = 0 \<and> rg_size ?r = - 1"
    | (napot) "rg_addrmode ?r = PMP_A_NAPOT" "\<not> (rg_addr ?r = 0 \<and> rg_size ?r = - 1)"
        "page_aligned (rg_size ?r)" "napot_shape (rg_addr ?r) (rg_size ?r)" "rg_size ?r \<noteq> 0"
    | (tor) "rg_addrmode ?r = PMP_A_TOR" "page_aligned (rg_size ?r)" "page_aligned (rg_addr ?r)"
        "rg_reg_idx ?r = 0 \<longrightarrow> rg_addr ?r = 0"
    unfolding region_ok_def by blast
  then show ?thesis
  proof cases
    case all
    then show ?thesis using e
      by (simp add: entry_matches_def cfg_mode_region region_pmpaddr_val_def region_is_napot_all_def
          in_region_def)
  next
    case napot
    obtain s where s: "s < 64" "rg_size ?r = 2 ^ s" "unat (rg_size ?r) = 2 ^ s"
      using pow2_sizeE [OF napot(5)] napot(4) unfolding napot_shape_def by blast
    have "12 \<le> s" using page_aligned_pow2 [OF napot(3) s(2,1)] .
    then have "3 \<le> s" by simp
    have "region_pmpaddr_val p (int k) = drop_bit 2 (rg_addr ?r OR (rg_size ?r div 2 - 1))"
      using napot(1,2) by (simp add: region_pmpaddr_val_def region_is_napot_all_def region_is_napot_def Let_def)
    with e napot(1) have "entry_matches c g a \<longleftrightarrow> drop_bit s a = drop_bit s (rg_addr ?r)"
      using napot_match [OF napot(4) s(2) \<open>3 \<le> s\<close> s(1), of _ a]
      by (simp add: entry_matches_def cfg_mode_region Let_def)
    also have "\<dots> \<longleftrightarrow> in_region ?r a"
      using drop_bit_eq_range [OF napot(4) s(2,3,1)] napot(2) by (auto simp: in_region_def)
    finally show ?thesis .
  next
    case tor
    have "\<not> (rg_addr ?r = 0 \<and> rg_size ?r = - 1)" using tor(2) by (auto simp: page_aligned_def cfg_defs)
    moreover from this have "region_pmpaddr_val p (int k) = drop_bit 2 (rg_addr ?r + rg_size ?r)"
      using tor(1) by (auto simp: region_pmpaddr_val_def region_is_napot_all_def region_is_napot_def
          region_is_tor_def Let_def)
    moreover have "pmp_entry c (g - 1) = (drop_bit 2 (rg_addr ?r), 0)" if "0 < g"
      using pr g tor(1) that by (auto simp: programmed_def region_entry_def region_regs_def)
    moreover have "unat (rg_addr ?r + rg_size ?r) = unat (rg_addr ?r) + unat (rg_size ?r)"
      using nw tor(1) by (intro unat_add_small) simp
    ultimately show ?thesis
      using e tor(1,4) g unat_drop_bit_2_less(1) [OF page_aligned_and_3, OF page_aligned_add [OF tor(3,2)], of a]
        unat_drop_bit_2_less(2) [OF page_aligned_and_3 [OF tor(3)], of a]
      by (cases "g = 0") (auto simp: entry_matches_def cfg_mode_region in_region_def)
  qed
qed

section \<open>The permissions a hart's registers encode\<close>

text \<open>
  \<open>hart_pmp p c f\<close>: the registers \<open>c\<close> encode exactly the permissions \<open>f\<close>. A region with
  \<open>f k = Some perm\<close> is programmed with \<open>perm\<close>; every other entry is off. \<open>perm_set\<close> and
  \<open>perm_unset\<close> are the abstract counterparts of \<open>pmp_set_keystone\<close> and \<open>pmp_unset\<close>: a region
  that shares a register with the one updated loses its entry.
\<close>

definition region_valid :: "pmp_state \<Rightarrow> nat \<Rightarrow> bool" where
  "region_valid p k \<longleftrightarrow> k < 16 \<and> bit (region_def_bitmap p) k"

definition hart_pmp :: "pmp_state \<Rightarrow> pmp_csrs \<Rightarrow> (nat \<Rightarrow> u8 option) \<Rightarrow> bool" where
  "hart_pmp p c f \<longleftrightarrow>
     (\<forall>k perm. f k = Some perm \<longrightarrow> region_valid p k \<and> programmed c p k perm) \<and>
     (\<forall>n<8. snd (pmp_entry c n) \<noteq> 0 \<longrightarrow>
        (\<exists>k perm. f k = Some perm \<and> rg_reg_idx (regions p ! k) = int n))"

definition shares_reg :: "pmp_state \<Rightarrow> nat \<Rightarrow> nat \<Rightarrow> bool" where
  "shares_reg p k j \<longleftrightarrow> region_regs (regions p ! k) \<inter> region_regs (regions p ! j) \<noteq> {}"

definition perm_unset :: "pmp_state \<Rightarrow> nat \<Rightarrow> (nat \<Rightarrow> u8 option) \<Rightarrow> nat \<Rightarrow> u8 option" where
  "perm_unset p k f = (\<lambda>j. if j = k \<or> shares_reg p k j then None else f j)"

definition perm_set :: "pmp_state \<Rightarrow> nat \<Rightarrow> u8 \<Rightarrow> (nat \<Rightarrow> u8 option) \<Rightarrow> nat \<Rightarrow> u8 option" where
  "perm_set p k perm f = (perm_unset p k f)(k \<mapsto> perm)"

lemma hart_pmpD:
  assumes "hart_pmp p c f"
  shows "f k = Some perm \<Longrightarrow> region_valid p k" and "f k = Some perm \<Longrightarrow> programmed c p k perm"
    and "n < 8 \<Longrightarrow> snd (pmp_entry c n) \<noteq> 0 \<Longrightarrow>
      \<exists>k perm. f k = Some perm \<and> rg_reg_idx (regions p ! k) = int n"
  using assms unfolding hart_pmp_def by blast+

lemma idx_in_regs: "rg_reg_idx r = int n \<Longrightarrow> n \<in> region_regs r"
  by (simp add: region_regs_def)

lemma regs_inter_empty:
  assumes wf: "pmp_wf p" and k: "region_valid p k" and j: "region_valid p j"
    and n: "rg_reg_idx (regions p ! j) = int n" "n \<notin> region_regs (regions p ! k)" "n < 8"
  shows "region_regs (regions p ! k) \<inter> region_regs (regions p ! j) = {}"
proof (rule ccontr)
  assume "region_regs (regions p ! k) \<inter> region_regs (regions p ! j) \<noteq> {}"
  then obtain x where x: "x \<in> region_regs (regions p ! k)" "x \<in> region_regs (regions p ! j)" by blast
  have "k \<noteq> j" using n idx_in_regs by blast
  then have "x = 7" using pmp_wfD(4) [OF wf _ _ _ _ _ x] k j unfolding region_valid_def by blast
  then have "n = 7" using x(2) n(1,3) by (auto simp: region_regs_def split: if_splits)
  with x(1) \<open>x = 7\<close> n(2) show False by simp
qed

lemma hart_pmp_off: "(\<And>n. n < 8 \<Longrightarrow> snd (pmp_entry c n) = 0) \<Longrightarrow> hart_pmp p c (\<lambda>_. None)"
  by (simp add: hart_pmp_def)

lemma hart_pmp_unset:
  assumes wf: "pmp_wf p" and h: "hart_pmp p c f" and v: "region_valid p k"
    and e: "entries_unset p k c c'"
  shows "hart_pmp p c' (perm_unset p k f)"
proof -
  let ?R = "\<lambda>j. region_regs (regions p ! j)"
  have ent: "pmp_entry c' n = (if n \<in> ?R k then (0, 0) else pmp_entry c n)" if "n < 8" for n
    using e that by (simp add: entries_unset_def)
  have bound: "n < 8" if "region_valid p j" "n \<in> ?R j" for n j
    using pmp_wfD(2) [OF wf] that region_regs_bound unfolding region_valid_def by blast
  show ?thesis
    unfolding hart_pmp_def
  proof (intro conjI allI impI)
    fix j perm assume "perm_unset p k f j = Some perm"
    then have f: "f j = Some perm" and sh: "?R k \<inter> ?R j = {}"
      by (auto simp: perm_unset_def shares_reg_def split: if_splits)
    show "region_valid p j" using hart_pmpD(1) [OF h f] .
    then have "pmp_entry c' n = pmp_entry c n" if "n \<in> ?R j" for n
      using ent [of n] bound [of j n] that sh by auto
    with hart_pmpD(2) [OF h f] show "programmed c' p j perm" by (simp add: programmed_def)
  next
    fix n assume n: "n < 8" "snd (pmp_entry c' n) \<noteq> 0"
    then have nk: "n \<notin> ?R k" and "snd (pmp_entry c n) \<noteq> 0" using ent [of n] by (auto split: if_splits)
    then obtain j perm where j: "f j = Some perm" "rg_reg_idx (regions p ! j) = int n"
      using hart_pmpD(3) [OF h n(1)] by blast
    have "?R k \<inter> ?R j = {}"
      using regs_inter_empty [OF wf v hart_pmpD(1) [OF h j(1)] j(2) nk n(1)] .
    with j show "\<exists>j perm. perm_unset p k f j = Some perm \<and> rg_reg_idx (regions p ! j) = int n"
      using nk idx_in_regs [OF j(2)] by (intro exI [of _ j] exI [of _ perm]) (auto simp: perm_unset_def shares_reg_def)
  qed
qed

lemma region_idx_nat:
  assumes "pmp_wf p" and "region_valid p k"
  obtains g where "rg_reg_idx (regions p ! k) = int g" and "g < 8"
  using pmp_wfD(2) [OF assms(1)] assms(2) unfolding region_valid_def by (blast elim: region_ok_nat)

lemma hart_pmp_set:
  assumes wf: "pmp_wf p" and h: "hart_pmp p c f" and v: "region_valid p k"
    and e: "entries_set p k perm c c'"
  shows "hart_pmp p c' (perm_set p k perm f)"
proof -
  let ?R = "\<lambda>j. region_regs (regions p ! j)"
  have ent: "pmp_entry c' n = (if n \<in> ?R k then region_entry p k perm n else pmp_entry c n)" if "n < 8" for n
    using e that by (simp add: entries_set_def)
  have bound: "n < 8" if "region_valid p j" "n \<in> ?R j" for n j
    using pmp_wfD(2) [OF wf] that region_regs_bound unfolding region_valid_def by blast
  show ?thesis
    unfolding hart_pmp_def
  proof (intro conjI allI impI)
    fix j q assume "perm_set p k perm f j = Some q"
    then consider "j = k" "q = perm" | "j \<noteq> k" "f j = Some q" "?R k \<inter> ?R j = {}"
      by (auto simp: perm_set_def perm_unset_def shares_reg_def split: if_splits)
    then have "region_valid p j \<and> programmed c' p j q"
    proof cases
      case 1
      with v bound ent show ?thesis by (auto simp: programmed_def)
    next
      case 2
      note f = 2(2)
      have *: "region_valid p j" using hart_pmpD(1) [OF h f] .
      then have "pmp_entry c' n = pmp_entry c n" if "n \<in> ?R j" for n
        using ent [of n] bound [of j n] that 2(3) by auto
      with hart_pmpD(2) [OF h f] * show ?thesis by (simp add: programmed_def)
    qed
    then show "region_valid p j" "programmed c' p j q" by blast+
  next
    fix n assume n: "n < 8" "snd (pmp_entry c' n) \<noteq> 0"
    show "\<exists>j q. perm_set p k perm f j = Some q \<and> rg_reg_idx (regions p ! j) = int n"
    proof (cases "n \<in> ?R k")
      case True
      with n ent [of n] have "rg_reg_idx (regions p ! k) = int n"
        by (auto simp: region_entry_def split: if_splits)
      then show ?thesis by (intro exI [of _ k] exI [of _ perm]) (simp add: perm_set_def)
    next
      case nk: False
      then have "snd (pmp_entry c n) \<noteq> 0" using n ent [of n] by simp
      then obtain j q where j: "f j = Some q" "rg_reg_idx (regions p ! j) = int n"
        using hart_pmpD(3) [OF h n(1)] by blast
      have "?R k \<inter> ?R j = {}"
        using regs_inter_empty [OF wf v hart_pmpD(1) [OF h j(1)] j(2) nk n(1)] .
      with j nk idx_in_regs [OF j(2)] show ?thesis
        by (intro exI [of _ j] exI [of _ q]) (auto simp: perm_set_def perm_unset_def shares_reg_def)
    qed
  qed
qed

lemma region_entry_cong:
  "regions p' ! k = regions p ! k \<Longrightarrow> region_entry p' k perm n = region_entry p k perm n"
  by (simp add: region_entry_def region_pmpaddr_val_def region_is_napot_all_def region_is_napot_def
      region_is_tor_def Let_def)

lemma hart_pmp_transfer:
  assumes h: "hart_pmp p c f"
    and same: "\<And>k. f k \<noteq> None \<Longrightarrow> regions p' ! k = regions p ! k \<and> region_valid p' k"
  shows "hart_pmp p' c f"
proof -
  have *: "regions p' ! k = regions p ! k" "region_valid p' k" if "f k = Some q" for k q
    using same [of k] that by auto
  show ?thesis
    unfolding hart_pmp_def
  proof (intro conjI allI impI)
    fix k q assume f: "f k = Some q"
    show "region_valid p' k" using *(2) [OF f] .
    show "programmed c p' k q"
      using hart_pmpD(2) [OF h f] region_entry_cong [OF *(1) [OF f]] *(1) [OF f]
      by (simp add: programmed_def)
  next
    fix n assume "n < 8" "snd (pmp_entry c n) \<noteq> 0"
    then obtain k q where kq: "f k = Some q" "rg_reg_idx (regions p ! k) = int n"
      using hart_pmpD(3) [OF h] by blast
    then show "\<exists>k q. f k = Some q \<and> rg_reg_idx (regions p' ! k) = int n"
      using *(1) [OF kq(1)] by (intro exI [of _ k] exI [of _ q]) simp
  qed
qed

lemma hart_pmp_allocated:
  assumes "pmp_wf p" and h: "hart_pmp p c f" and al: "pmp_allocated p priority k r p'"
  shows "hart_pmp p' c f"
proof (rule hart_pmp_transfer [OF h])
  fix j assume "f j \<noteq> None"
  then have v: "region_valid p j" using hart_pmpD(1) [OF h] by auto
  then have "j \<noteq> k" using pmp_allocatedD(2) [OF al] by (auto simp: region_valid_def)
  with v show "regions p' ! j = regions p ! j \<and> region_valid p' j"
    using pmp_allocatedD(3,4) [OF al] by (simp add: region_valid_def)
qed

lemma hart_pmp_freed:
  assumes h: "hart_pmp p c f" and fr: "pmp_freed p k p'" and "f k = None"
  shows "hart_pmp p' c f"
proof (rule hart_pmp_transfer [OF h])
  fix j assume "f j \<noteq> None"
  then have v: "region_valid p j" and "j \<noteq> k" using hart_pmpD(1) [OF h] assms(3) by auto
  then show "regions p' ! j = regions p ! j \<and> region_valid p' j"
    using pmp_freedD(1,2) [OF fr] by (simp add: region_valid_def)
qed

section \<open>Who may access what\<close>

text \<open>
  Regions whose range does not wrap around and whose encoding is not degenerate: every region
  created without overlap, and the region that covers all of memory.
\<close>

definition region_no_wrap :: "pmp_region \<Rightarrow> bool" where
  "region_no_wrap r \<longleftrightarrow>
     (rg_addrmode r = PMP_A_TOR \<longrightarrow> unat (rg_addr r) + unat (rg_size r) < 2 ^ 64)"

lemma entry_off: "snd (pmp_entry c n) = 0 \<Longrightarrow> \<not> entry_matches c n a"
  by (simp add: entry_matches_def cfg_mode_region Let_def)

lemma match_iff_region:
  assumes wf: "pmp_wf p" and h: "hart_pmp p c f" and n: "n < 8"
    and nw: "\<And>k. f k \<noteq> None \<Longrightarrow> region_no_wrap (regions p ! k)"
  shows "entry_matches c n a \<longleftrightarrow>
    (\<exists>k q. f k = Some q \<and> rg_reg_idx (regions p ! k) = int n \<and> in_region (regions p ! k) a)"
proof -
  have *: "entry_matches c n a \<longleftrightarrow> in_region (regions p ! k) a"
    if "f k = Some q" "rg_reg_idx (regions p ! k) = int n" for k q
    using region_matches [OF _ hart_pmpD(2) [OF h that(1)] _ that(2)] hart_pmpD(1) [OF h that(1)]
      pmp_wfD(2) [OF wf] nw [of k] that(1)
    by (simp add: region_valid_def region_no_wrap_def)
  show ?thesis
  proof (cases "snd (pmp_entry c n) = 0")
    case True
    then have "\<not> entry_matches c n a" by (rule entry_off)
    with * show ?thesis by blast
  next
    case False
    with hart_pmpD(3) [OF h n] * show ?thesis by blast
  qed
qed

lemma lookup_region:
  assumes wf: "pmp_wf p" and h: "hart_pmp p c f"
    and nw: "\<And>k. f k \<noteq> None \<Longrightarrow> region_no_wrap (regions p ! k)"
    and f: "f k = Some q" and g: "rg_reg_idx (regions p ! k) = int g" and a: "in_region (regions p ! k) a"
    and first: "\<And>j. f j \<noteq> None \<Longrightarrow> in_region (regions p ! j) a \<Longrightarrow> int g \<le> rg_reg_idx (regions p ! j)"
  shows "pmp_lookup c a = Some g"
proof -
  have "g < 8" using region_idx_nat [OF wf hart_pmpD(1) [OF h f]] g by auto
  moreover have "entry_matches c g a" using match_iff_region [OF wf h \<open>g < 8\<close> nw] f g a by blast
  moreover have "\<not> entry_matches c n a" if ng: "n < g" for n
  proof
    assume "entry_matches c n a"
    then obtain j q' where "f j = Some q'" "rg_reg_idx (regions p ! j) = int n" "in_region (regions p ! j) a"
      using match_iff_region [OF wf h less_trans [OF ng \<open>g < 8\<close>] nw] by blast
    with first [of j] ng show False by simp
  qed
  ultimately show ?thesis
    by (auto simp: pmp_lookup_def find_Some_iff intro!: exI [of _ g])
qed

lemma perm_byte_allows:
  assumes "q AND PMP_ALL_PERM = q" and "m = PMP_A_NAPOT \<or> m = PMP_A_TOR"
  shows "(m OR (perm AND PMP_ALL_PERM)) AND q = q \<longleftrightarrow> perm AND q = q"
proof -
  have "m AND PMP_ALL_PERM = 0" using assms(2) by (auto simp: hw_consts PMP_ALL_PERM_def)
  then have "m AND (PMP_ALL_PERM AND q) = 0" by (simp flip: and.assoc)
  then have "m AND q = 0" using assms(1) by (simp only: and.commute)
  moreover have "(perm AND PMP_ALL_PERM) AND q = perm AND q"
    unfolding and.assoc using assms(1) by (simp only: and.commute)
  ultimately show ?thesis by (simp add: bit.conj_disj_distrib2)
qed

lemma programmed_idx_byte:
  assumes "programmed c p k perm" and "rg_reg_idx (regions p ! k) = int g"
  shows "snd (pmp_entry c g) = rg_addrmode (regions p ! k) OR (perm AND PMP_ALL_PERM)"
  using assms idx_in_regs [OF assms(2)] by (simp add: programmed_def region_entry_def)

lemma region_ok_mode: "region_ok r \<Longrightarrow> rg_addrmode r = PMP_A_NAPOT \<or> rg_addrmode r = PMP_A_TOR"
  unfolding region_ok_def by blast

lemma no_wrap_valid:
  assumes "pmp_wf p" and "region_valid p k" and "\<not> rg_allow_overlap (regions p ! k)"
  shows "region_no_wrap (regions p ! k)"
  using pmp_wfD(2) [OF assms(1)] assms(2,3) unfolding region_valid_def region_ok_def region_no_wrap_def
  by blast

text \<open>
  \<open>overlap_last p f\<close>: a programmed region that may overlap others covers all of memory through
  the last register. The monitor creates one such region, for the operating system.
\<close>

definition overlap_last :: "pmp_state \<Rightarrow> (nat \<Rightarrow> u8 option) \<Rightarrow> bool" where
  "overlap_last p f \<longleftrightarrow>
     (\<forall>j. f j \<noteq> None \<longrightarrow> rg_allow_overlap (regions p ! j) \<longrightarrow>
        rg_reg_idx (regions p ! j) = 7 \<and> rg_addrmode (regions p ! j) = PMP_A_NAPOT)"

lemma overlap_last_no_wrap:
  assumes "pmp_wf p" and "hart_pmp p c f" and "overlap_last p f" and "f j \<noteq> None"
  shows "region_no_wrap (regions p ! j)"
proof (cases "rg_allow_overlap (regions p ! j)")
  case True
  with assms(3,4) show ?thesis by (auto simp: overlap_last_def region_no_wrap_def)
next
  case False
  with assms hart_pmpD(1) [OF assms(2)] show ?thesis by (auto intro: no_wrap_valid)
qed

lemma disjoint_not_in:
  assumes wf: "pmp_wf p" and v: "region_valid p k" "region_valid p j" and "k \<noteq> j"
    and nov: "\<not> rg_allow_overlap (regions p ! k)" "\<not> rg_allow_overlap (regions p ! j)"
    and a: "in_region (regions p ! k) a"
  shows "\<not> in_region (regions p ! j) a"
proof -
  have d: "regions_disjoint (regions p ! k) (regions p ! j)"
    using pmp_wfD(5) [OF wf] v \<open>k \<noteq> j\<close> nov unfolding region_valid_def by blast
  have "\<not> (rg_addr (regions p ! i) = 0 \<and> rg_size (regions p ! i) = - 1)"
    if "region_valid p i" "\<not> rg_allow_overlap (regions p ! i)" "k = i \<or> j = i" for i
  proof
    assume *: "rg_addr (regions p ! i) = 0 \<and> rg_size (regions p ! i) = - 1"
    have sz: "rg_size (regions p ! k) \<noteq> 0" "rg_size (regions p ! j) \<noteq> 0"
      using pmp_wfD(2) [OF wf] v unfolding region_valid_def region_ok_def by blast+
    then have "0 < unat (rg_size (regions p ! k))" "0 < unat (rg_size (regions p ! j))"
      by (simp_all add: unat_gt_0)
    moreover have "unat (rg_size (regions p ! i)) = 2 ^ 64 - 1"
      using * by (simp add: unsigned_minus_1_eq_mask mask_eq_exp_minus_1)
    moreover have "unat (rg_addr (regions p ! j)) < 2 ^ LENGTH(64)"
      "unat (rg_addr (regions p ! k)) < 2 ^ LENGTH(64)" by (rule unsigned_less)+
    moreover have "unat (rg_addr (regions p ! j)) + unat (rg_size (regions p ! j)) < 2 ^ 64"
      "unat (rg_addr (regions p ! k)) + unat (rg_size (regions p ! k)) < 2 ^ 64"
      using pmp_wfD(2) [OF wf] v nov unfolding region_valid_def region_ok_def by blast+
    ultimately show False using * d that(3) unfolding regions_disjoint_def by auto
  qed
  with v nov a d show ?thesis by (auto simp: in_region_def regions_disjoint_def)
qed

lemma pmp_allows_programmed:
  assumes wf: "pmp_wf p" and h: "hart_pmp p c f" and ol: "overlap_last p f"
    and f: "f k = Some perm" and nov: "\<not> rg_allow_overlap (regions p ! k)"
    and a: "in_region (regions p ! k) a" and q: "q AND PMP_ALL_PERM = q"
  shows "pmp_allows c a q \<longleftrightarrow> perm AND q = q"
proof -
  have v: "region_valid p k" using hart_pmpD(1) [OF h f] .
  obtain g where g: "rg_reg_idx (regions p ! k) = int g" "g < 8"
    using region_idx_nat [OF wf v] .
  have first: "int g \<le> rg_reg_idx (regions p ! j)"
    if fj: "f j \<noteq> None" and aj: "in_region (regions p ! j) a" for j
  proof (cases "j = k")
    case False
    obtain r where "f j = Some r" using fj by auto
    then have "region_valid p j" using hart_pmpD(1) [OF h] by blast
    then have "rg_allow_overlap (regions p ! j)"
      using disjoint_not_in [OF wf v _ _ nov _ a, of j] aj False by blast
    with ol fj g(2) show ?thesis by (simp add: overlap_last_def)
  qed (simp add: g)
  have "pmp_lookup c a = Some g"
    by (rule lookup_region [OF wf h overlap_last_no_wrap [OF wf h ol] f g(1) a first])
  moreover have "region_ok (regions p ! k)" using pmp_wfD(2) [OF wf] v by (simp add: region_valid_def)
  ultimately show ?thesis
    using perm_byte_allows [OF q region_ok_mode] programmed_idx_byte [OF hart_pmpD(2) [OF h f] g(1)]
    by (simp add: pmp_allows_def)
qed

lemma pmp_allows_only:
  assumes wf: "pmp_wf p" and h: "hart_pmp p c f" and ol: "overlap_last p f"
    and al: "pmp_allows c a q" and q: "q AND PMP_ALL_PERM = q"
  obtains k perm where "f k = Some perm" and "in_region (regions p ! k) a" and "perm AND q = q"
proof -
  obtain n where n: "n < 8" "entry_matches c n a" "snd (pmp_entry c n) AND q = q"
    using al unfolding pmp_allows_def pmp_lookup_def
    by (auto split: option.splits dest: find_upt_SomeD)
  obtain k perm where k: "f k = Some perm" "rg_reg_idx (regions p ! k) = int n" "in_region (regions p ! k) a"
    using match_iff_region [OF wf h n(1) overlap_last_no_wrap [OF wf h ol]] n(2) by blast
  have "region_ok (regions p ! k)"
    using pmp_wfD(2) [OF wf] hart_pmpD(1) [OF h k(1)] by (simp add: region_valid_def)
  then have "perm AND q = q"
    using n(3) perm_byte_allows [OF q region_ok_mode] programmed_idx_byte [OF hart_pmpD(2) [OF h k(1)] k(2)]
    by simp
  with k that show ?thesis by blast
qed

section \<open>Properties of the programmed registers\<close>

lemma boot_regions_simps:
  "region_valid boot_regions 0" "region_valid boot_regions 1" "regions boot_regions ! 0 = sm_region" "regions boot_regions ! 1 = os_region"
  "region_regs sm_region = {0}" "region_regs os_region = {7}"
  by (simp_all add: region_valid_def boot_regions_def region_regs_def sm_region_def os_region_def bit_numeral_rec)

text \<open>A hart whose PMP entries are all off.\<close>

definition csrs_off :: pmp_csrs where
  "csrs_off = \<lparr>pmpaddr = (\<lambda>_. 0), pmpcfg = (\<lambda>_. 0)\<rparr>"

lemma csrs_off_none: "hart_pmp p csrs_off (\<lambda>_. None)"
  by (rule hart_pmp_off) (simp add: csrs_off_def pmp_entry_def)

lemma set_keystone_refines:
  assumes "pmp_wf p" and "region_valid p k" and "hart_pmp p c f"
  shows "\<exists>c'. pmp_set_keystone (int k) perm p c = Some (SBI_ERR_SM_PMP_SUCCESS, c') \<and> hart_pmp p c' (perm_set p k perm f)"
  using pmp_set_keystone_valid [OF assms(1), of k perm c] hart_pmp_set [OF assms(1,3,2)] assms(2)
  by (auto simp: region_valid_def)

text \<open>
  C15. Programming the registers implements a map from regions to permissions. If the registers of
  a hart encode the permissions \<open>f\<close>, then \<open>pmp_set_keystone\<close> on a defined region succeeds and the
  registers encode \<open>f\<close> with the new permission for that region, \<open>pmp_unset\<close> succeeds and they encode
  \<open>f\<close> without it; only regions that share a register with it lose their permission.
\<close>

theorem pmp_set_unset_refine:
  assumes wf: "pmp_wf p" and k: "region_valid p k" and h: "hart_pmp p c f"
  shows "(\<exists>c'. pmp_set_keystone (int k) perm p c = Some (SBI_ERR_SM_PMP_SUCCESS, c') \<and> hart_pmp p c' (perm_set p k perm f)) \<and>
    (\<exists>c'. pmp_unset (int k) p c = Some (SBI_ERR_SM_PMP_SUCCESS, c') \<and> hart_pmp p c' (perm_unset p k f))"
  using set_keystone_refines [OF assms] pmp_unset_valid [OF wf, of k c] hart_pmp_unset [OF wf h k] k
  by (auto simp: region_valid_def)

theorem pmp_set_unset_refine_witness:
  "\<exists>c'. pmp_set_keystone 0 PMP_R boot_regions csrs_off = Some (SBI_ERR_SM_PMP_SUCCESS, c') \<and>
     hart_pmp boot_regions c' [0 \<mapsto> PMP_R]"
proof -
  have "perm_set boot_regions 0 PMP_R (\<lambda>_. None) = [0 \<mapsto> PMP_R]" by (simp add: perm_set_def perm_unset_def)
  then show ?thesis
    using pmp_set_unset_refine [OF boot_regions_wf(2) boot_regions_simps(1) csrs_off_none, of PMP_R] by simp
qed

text \<open>
  C16. The PMP unit enforces the encoded permissions. If the registers of a hart encode \<open>f\<close>, and
  the only regions in it that may overlap cover all of memory through the last register, then an
  access of kind \<open>q\<close> to an address of an exclusive region with permission \<open>perm\<close> is allowed
  exactly when \<open>perm\<close> contains \<open>q\<close>.
\<close>

theorem pmp_access_decision:
  assumes "pmp_wf p" and "hart_pmp p c f" and "overlap_last p f" and "f k = Some perm"
    and "\<not> rg_allow_overlap (regions p ! k)" and "in_region (regions p ! k) a" and "q AND PMP_ALL_PERM = q"
  shows "pmp_allows c a q \<longleftrightarrow> perm AND q = q"
  using assms by (rule pmp_allows_programmed)

theorem pmp_access_decision_witness:
  "\<exists>c. hart_pmp boot_regions c [0 \<mapsto> PMP_R] \<and> pmp_allows c 0x80000123 PMP_R \<and> \<not> pmp_allows c 0x80000123 PMP_W"
proof -
  obtain c where c: "hart_pmp boot_regions c [0 \<mapsto> PMP_R]"
    using set_keystone_refines [OF boot_regions_wf(2) boot_regions_simps(1) csrs_off_none, of PMP_R]
    by (auto simp: perm_set_def perm_unset_def)
  have h: "overlap_last boot_regions [0 \<mapsto> PMP_R]" "\<not> rg_allow_overlap (regions boot_regions ! 0)"
      "in_region (regions boot_regions ! 0) 0x80000123"
    by (simp_all add: overlap_last_def boot_regions_simps sm_region_def in_region_def cfg_defs)
  have "pmp_allows c 0x80000123 PMP_R \<longleftrightarrow> PMP_R AND PMP_R = PMP_R" "pmp_allows c 0x80000123 PMP_W \<longleftrightarrow> PMP_R AND PMP_W = PMP_W"
    by (rule pmp_access_decision [OF boot_regions_wf(2) c h(1) _ h(2,3)]; simp add: PMP_ALL_PERM_def hw_consts)+
  then show ?thesis using c by (auto simp: hw_consts)
qed

subsection \<open>The last register is shared\<close>

text \<open>An address that only the last entry covers is decided by that entry.\<close>

lemma pmp_allows_last:
  assumes wf: "pmp_wf p" and h: "hart_pmp p c f" and ol: "overlap_last p f"
    and f: "f b = Some perm" and idx: "rg_reg_idx (regions p ! b) = int 7" and a: "in_region (regions p ! b) a"
    and other: "\<And>j. f j \<noteq> None \<Longrightarrow> \<not> rg_allow_overlap (regions p ! j) \<Longrightarrow> \<not> in_region (regions p ! j) a"
    and q: "q AND PMP_ALL_PERM = q"
  shows "pmp_allows c a q \<longleftrightarrow> perm AND q = q"
proof -
  have first: "int 7 \<le> rg_reg_idx (regions p ! j)" if "f j \<noteq> None" "in_region (regions p ! j) a" for j
    using other [of j] that ol by (auto simp: overlap_last_def)
  have "pmp_lookup c a = Some 7"
    by (rule lookup_region [OF wf h overlap_last_no_wrap [OF wf h ol] f idx a first])
  moreover have "region_ok (regions p ! b)"
    using pmp_wfD(2) [OF wf] hart_pmpD(1) [OF h f] by (simp add: region_valid_def)
  ultimately show ?thesis
    using perm_byte_allows [OF q region_ok_mode] programmed_idx_byte [OF hart_pmpD(2) [OF h f] idx]
    by (simp add: pmp_allows_def)
qed

text \<open>
  Once a region of the last register is freed, and all other registers are taken, the next region
  of any priority gets the last register.
\<close>

lemma freed_last_reused:
  assumes wf: "pmp_wf p" and u: "region_valid p u" "region_regs (regions p ! u) = {7}"
    and full: "\<And>n. n < 7 \<Longrightarrow> bit (reg_bitmap p) n"
    and free: "pmp_region_free_atomic (int u) p = (e, p1)"
    and init: "pmp_region_init_atomic start sz PMP_PRI_ANY rid ov p1 = Some (SBI_ERR_SM_PMP_SUCCESS, rid', p2)"
  obtains k where "rid' = int k" and "pmp_wf p2" and "region_valid p2 k" and "region_regs (regions p2 ! k) = {7}"
    and "rg_allow_overlap (regions p2 ! k) = ov" and "rg_addr (regions p2 ! k) = start" and "rg_size (regions p2 ! k) = sz"
    and "\<And>j. region_valid p j \<Longrightarrow> j \<noteq> u \<Longrightarrow> j \<noteq> k \<and> region_valid p2 j \<and> regions p2 ! j = regions p ! j"
proof -
  have uv: "u < 16" "bit (region_def_bitmap p) u" using u(1) by (auto simp: region_valid_def)
  have fr: "pmp_freed p u p1" using pmp_region_free_valid [OF wf uv] free by auto
  have wf1: "pmp_wf p1" by (rule pmp_freed_wf [OF wf uv fr])
  have b1: "bit (reg_bitmap p1) n" if "n < 7" for n
    using pmp_freedD(3) [OF fr, of n] full [OF that] that u(2) by auto
  have i1: "pmp_region_init start sz PMP_PRI_ANY rid ov p1 = Some (SBI_ERR_SM_PMP_SUCCESS, rid', p2)"
    using init by (simp add: pmp_region_init_atomic_def)
  obtain k r where k: "rid' = int k" and al: "pmp_allocated p1 PMP_PRI_ANY k r p2" and ok: "region_ok r"
    and r: "rg_addr r = start" "rg_size r = sz" "rg_allow_overlap r = ov"
    using pmp_region_init_cases [OF i1] b1 [of 0] by auto
  note al' = pmp_allocatedD [OF al]
  have wf2: "pmp_wf p2" by (rule region_init_wf [OF wf1 i1]) (simp add: b1)
  have len: "length (regions p1) = 16" by (rule pmp_wfD(1) [OF wf1])
  have rk: "regions p2 ! k = r" using al'(1,3) len by simp
  obtain g where g: "rg_reg_idx r = int g" "g < 8"
    using region_idx_nat [OF wf2, of k] al'(1) al'(4) [of k] rk by (auto simp: region_valid_def)
  have sub: "n = 7" if n: "n \<in> region_regs r" for n
  proof -
    have "n < 8" using n g by (auto simp: region_regs_def split: if_splits)
    with al'(6) [OF n] b1 [of n] show ?thesis by force
  qed
  have "region_regs r = {7}" using sub idx_in_regs [OF g(1)] by auto
  moreover have "j \<noteq> k \<and> region_valid p2 j \<and> regions p2 ! j = regions p ! j" if "region_valid p j" "j \<noteq> u" for j
  proof -
    have j: "bit (region_def_bitmap p1) j" using that pmp_freedD(2) [OF fr, of j] by (simp add: region_valid_def)
    then have "j \<noteq> k" using al'(2) by auto
    then show ?thesis using that j al'(3) al'(4) [of j] pmp_freedD(1) [OF fr] by (simp add: region_valid_def)
  qed
  ultimately show thesis
    using that [OF k wf2] al'(1) al'(4) [of k] rk r by (auto simp: region_valid_def)
qed

text \<open>
  C17. A private region can lose its protection to the region of the operating system. Let the
  registers 0 to 6 be taken and the last register be shared by the region \<open>b\<close> of the operating
  system and the shared buffer \<open>u\<close> of an enclave. Freeing \<open>u\<close> marks the last register free, although
  \<open>b\<close> is still there. The next private region, created with \<open>PMP_PRI_ANY\<close>, gets the last
  register; after the monitor has programmed it with no permission and then the region of the
  operating system with all of them, as it does for every enclave, the operating system may read,
  write and execute the whole private region.
\<close>

theorem epm_in_last_register:
  assumes wf: "pmp_wf p" and u: "region_valid p u" "region_regs (regions p ! u) = {7}"
    and b: "region_valid p b" "b \<noteq> u" "regions p ! b = os_region"
    and full: "\<forall>n<7. bit (reg_bitmap p) n"
    and free: "pmp_region_free_atomic (int u) p = (e, p1)"
    and init: "pmp_region_init_atomic start sz PMP_PRI_ANY rid False p1 = Some (SBI_ERR_SM_PMP_SUCCESS, rid', p2)"
    and h: "hart_pmp p2 c f" "overlap_last p2 f"
    and set1: "pmp_set_keystone rid' PMP_NO_PERM p2 c = Some (e1, c1)"
    and set2: "pmp_set_keystone (int b) PMP_ALL_PERM p2 c1 = Some (e2, c2)"
    and a: "unat start \<le> unat a" "unat a < unat start + unat sz" and q: "q AND PMP_ALL_PERM = q"
  shows "pmp_allows c2 a q"
proof -
  obtain k where k: "rid' = int k" "pmp_wf p2" "region_valid p2 k" "region_regs (regions p2 ! k) = {7}"
      "\<not> rg_allow_overlap (regions p2 ! k)" "rg_addr (regions p2 ! k) = start" "rg_size (regions p2 ! k) = sz"
    and kb: "b \<noteq> k" "region_valid p2 b" "regions p2 ! b = os_region"
  proof (rule freed_last_reused [OF wf u _ free init])
    show "bit (reg_bitmap p) n" if "n < 7" for n using full that by blast
    fix k assume *: "rid' = int k" "pmp_wf p2" "region_valid p2 k" "region_regs (regions p2 ! k) = {7}"
      "rg_allow_overlap (regions p2 ! k) = False" "rg_addr (regions p2 ! k) = start" "rg_size (regions p2 ! k) = sz"
      and k: "\<And>j. region_valid p j \<Longrightarrow> j \<noteq> u \<Longrightarrow> j \<noteq> k \<and> region_valid p2 j \<and> regions p2 ! j = regions p ! j"
    show thesis using that [OF *(1-4) _ *(6,7)] *(5) k [OF b(1,2)] b(3) by simp
  qed
  let ?f1 = "perm_set p2 k PMP_NO_PERM f" let ?f2 = "perm_set p2 b PMP_ALL_PERM ?f1"
  have h1: "hart_pmp p2 c1 ?f1" using set_keystone_refines [OF k(2,3) h(1), of PMP_NO_PERM] set1 k(1) by auto
  have h2: "hart_pmp p2 c2 ?f2" using set_keystone_refines [OF k(2) kb(2) h1, of PMP_ALL_PERM] set2 by auto
  have ol: "overlap_last p2 ?f2"
    using h(2) k(5) kb(3) by (auto simp: overlap_last_def perm_set_def perm_unset_def os_region_def)
  have none: "?f2 k = None" using kb(1,3) k(4) boot_regions_simps(6) by (simp add: perm_set_def perm_unset_def shares_reg_def)
  have ik: "in_region (regions p2 ! k) a" using a k(6,7) by (simp add: in_region_def)
  have other: "\<not> in_region (regions p2 ! j) a" if "?f2 j \<noteq> None" "\<not> rg_allow_overlap (regions p2 ! j)" for j
    using disjoint_not_in [OF k(2,3) _ _ k(5) that(2) ik] hart_pmpD(1) [OF h2, of j] that(1) none by (cases "j = k") auto
  have "pmp_allows c2 a q \<longleftrightarrow> PMP_ALL_PERM AND q = q"
    by (rule pmp_allows_last [OF k(2) h2 ol, of b]) (use kb(3) other q in \<open>auto simp: perm_set_def os_region_def in_region_def\<close>)
  then show ?thesis using q by (simp add: and.commute)
qed

text \<open>A table in which a page of memory uses the last register, and how it comes about.\<close>

definition page_region :: pmp_region where
  "page_region = \<lparr>rg_size = 4096, rg_addrmode = PMP_A_NAPOT, rg_addr = 0x92000000, rg_allow_overlap = False, rg_reg_idx = 7\<rparr>"

definition page_regions :: "u32 \<Rightarrow> pmp_state" where
  "page_regions bm = \<lparr>regions = (replicate 16 region_zero)[0 := sm_region, 1 := os_region, 2 := page_region],
     reg_bitmap = bm, region_def_bitmap = 7\<rparr>"

lemma pmp_wf_more_regs:
  assumes "pmp_wf p" and "\<And>n. n < 7 \<Longrightarrow> bit (reg_bitmap p) n \<Longrightarrow> bit bm n" and "\<And>n. bit bm n \<Longrightarrow> n < 8"
  shows "pmp_wf (p\<lparr>reg_bitmap := bm\<rparr>)"
  using assms by (simp add: pmp_wf_def)

lemma low_bits:
  "bit (3 :: int) n \<longleftrightarrow> n < 2" "bit (7 :: int) n \<longleftrightarrow> n < 3" "bit (127 :: int) n \<longleftrightarrow> n < 7" "bit (255 :: int) n \<longleftrightarrow> n < 8"
  "bit (129 :: int) n \<longleftrightarrow> n = 0 \<or> n = 7"
proof -
  have m: "(3 :: int) = mask 2" "(7 :: int) = mask 3" "(127 :: int) = mask 7" "(255 :: int) = mask 8" "(129 :: int) = 1 OR 2 ^ 7"
    by (simp_all add: mask_eq_exp_minus_1)
  show "bit (3 :: int) n \<longleftrightarrow> n < 2" "bit (7 :: int) n \<longleftrightarrow> n < 3" "bit (127 :: int) n \<longleftrightarrow> n < 7" "bit (255 :: int) n \<longleftrightarrow> n < 8"
    by (simp_all only: m bit_mask_iff possible_bit_int simp_thms)
  show "bit (129 :: int) n \<longleftrightarrow> n = 0 \<or> n = 7" by (simp only: m bit_or_iff bit_exp_iff bit_1_iff possible_bit_int simp_thms)
qed

lemma page_no_overlap:
  assumes wf: "pmp_wf (boot_regions\<lparr>reg_bitmap := bm\<rparr>)"
  shows "\<not> detect_region_overlap 0x92000000 4096 (boot_regions\<lparr>reg_bitmap := bm\<rparr>)"
proof -
  let ?p = "boot_regions\<lparr>reg_bitmap := bm\<rparr>"
  have "is_pmp_region_valid ?p (int i) \<longleftrightarrow> i < 2" if "i < 16" for i
    using that by (simp add: valid_nat_iff boot_regions_def low_bits)
  moreover have "regions ?p ! 0 = sm_region" "regions ?p ! 1 = os_region" by (simp_all add: boot_regions_def)
  ultimately show ?thesis
    by (auto simp: detect_overlap_span [OF wf] less_2_cases_iff sm_region_def os_region_def region_span_def cfg_defs)
qed

lemma boot_regions_127: "pmp_wf (boot_regions\<lparr>reg_bitmap := 127\<rparr>)"
  by (rule pmp_wf_more_regs [OF boot_regions_wf(2)]) (auto simp: low_bits boot_regions_def page_regions_def)

lemma boot_page_region:
  "pmp_region_init_atomic 0x92000000 4096 PMP_PRI_BOTTOM rid False boot_regions = Some (SBI_ERR_SM_PMP_SUCCESS, 2, page_regions 129)"
  using page_no_overlap [of 129] boot_regions_wf(2)
  by (simp add: region_init_evals find_upt_first [of 0] find_upt_first [of "Suc 0"] find_upt_first [of "Suc (Suc 0)"] boot_regions_def
      page_regions_def page_region_def low_bits region_init_regions [of 2, simplified])

lemma last_page_region:
  "pmp_region_init_atomic 0x92000000 4096 PMP_PRI_ANY rid False (boot_regions\<lparr>reg_bitmap := 127\<rparr>) =
     Some (SBI_ERR_SM_PMP_SUCCESS, 2, page_regions 255)"
  using page_no_overlap [OF boot_regions_127]
  by (simp add: region_init_evals find_upt_first boot_regions_def page_regions_def page_region_def low_bits region_init_regions [of 2, simplified])

lemma page_regions_255: "pmp_wf (page_regions 255)"
proof -
  have "pmp_wf (page_regions 129)"
    using boot_page_region [of 0] region_init_wf [OF boot_regions_wf(2), of "0x92000000" 4096 PMP_PRI_BOTTOM 0 False]
    by (simp add: pmp_region_init_atomic_def)
  then have "pmp_wf (page_regions 129\<lparr>reg_bitmap := 255\<rparr>)"
    by (rule pmp_wf_more_regs) (auto simp: low_bits boot_regions_def page_regions_def)
  then show ?thesis by (simp add: page_regions_def)
qed

lemma page_regions_simps:
  "region_valid (page_regions bm) 1" "region_valid (page_regions bm) 2" "regions (page_regions bm) ! 1 = os_region"
  "regions (page_regions bm) ! 2 = page_region" "region_regs page_region = {7}"
  by (simp_all add: region_valid_def page_regions_def low_bits region_regs_def page_region_def)

lemma free_page_region:
  "pmp_region_free_atomic (int 2) (page_regions 255) = (SBI_ERR_SM_PMP_SUCCESS, boot_regions\<lparr>reg_bitmap := 127\<rparr>)"
proof -
  let ?p = "page_regions 255"
  obtain p' where p': "pmp_region_free_atomic (int 2) ?p = (SBI_ERR_SM_PMP_SUCCESS, p')" and fr: "pmp_freed ?p 2 p'"
    using pmp_region_free_valid [OF page_regions_255, of 2] page_regions_simps(2) [of 255] unfolding region_valid_def by blast
  have "reg_bitmap p' = 127"
  proof (rule bit_word_eqI)
    fix n :: nat
    have "n < 8 \<and> n \<noteq> 7 \<longleftrightarrow> n < 7" by linarith
    then show "bit (reg_bitmap p') n \<longleftrightarrow> bit (127 :: u32) n"
      using pmp_freedD(3) [OF fr, of n] page_regions_simps(5) by (simp add: page_regions_simps(4)) (simp add: page_regions_def low_bits)
  qed
  moreover have "region_def_bitmap p' = 3"
  proof (rule bit_word_eqI)
    fix n :: nat
    have "n < 3 \<and> n \<noteq> 2 \<longleftrightarrow> n < 2" by linarith
    then show "bit (region_def_bitmap p') n \<longleftrightarrow> bit (3 :: u32) n"
      using pmp_freedD(2) [OF fr, of n] by (simp add: page_regions_def low_bits)
  qed
  moreover have "(replicate 16 region_zero)[0 := sm_region, 1 := os_region, 2 := region_zero] = (replicate 16 region_zero)[0 := sm_region, 1 := os_region]"
    by (simp add: list_update_same_conv)
  then have "regions p' = regions boot_regions" using pmp_freedD(1) [OF fr] by (simp add: page_regions_def boot_regions_def)
  ultimately show ?thesis using p' by (simp add: boot_regions_def)
qed

theorem epm_in_last_register_witness:
  "\<exists>p1 p2 c1 c2. pmp_region_free_atomic 2 (page_regions 255) = (SBI_ERR_SM_PMP_SUCCESS, p1) \<and>
     pmp_region_init_atomic 0x92000000 4096 PMP_PRI_ANY 0 False p1 = Some (SBI_ERR_SM_PMP_SUCCESS, 2, p2) \<and>
     pmp_set_keystone 2 PMP_NO_PERM p2 csrs_off = Some (SBI_ERR_SM_PMP_SUCCESS, c1) \<and>
     pmp_set_keystone 1 PMP_ALL_PERM p2 c1 = Some (SBI_ERR_SM_PMP_SUCCESS, c2) \<and> pmp_allows c2 0x92000010 PMP_W"
proof -
  let ?p = "page_regions 255"
  obtain c1 where c1: "pmp_set_keystone (int 2) PMP_NO_PERM ?p csrs_off = Some (SBI_ERR_SM_PMP_SUCCESS, c1)"
      "hart_pmp ?p c1 (perm_set ?p 2 PMP_NO_PERM (\<lambda>_. None))"
    using set_keystone_refines [OF page_regions_255 page_regions_simps(2) csrs_off_none] by blast
  obtain c2 where c2: "pmp_set_keystone (int 1) PMP_ALL_PERM ?p c1 = Some (SBI_ERR_SM_PMP_SUCCESS, c2)"
    using set_keystone_refines [OF page_regions_255 page_regions_simps(1) c1(2)] by blast
  have "pmp_allows c2 0x92000010 PMP_W"
    by (rule epm_in_last_register [OF page_regions_255 page_regions_simps(2) _ page_regions_simps(1) _ _ _ free_page_region last_page_region csrs_off_none _ _ c2])
      (use c1(1) in \<open>simp_all add: page_regions_simps overlap_last_def PMP_ALL_PERM_def hw_consts page_regions_def low_bits\<close>)
  then show ?thesis using free_page_region last_page_region [of 0] c1(1) c2 by (intro exI conjI) simp_all
qed

end
