(* ===== verification/Thread.thy ===== *)
theory Thread
  imports SM_Interface Platform PMP
begin

text \<open>
  Enclave threads and context switching (\<open>sm/src/thread.c\<close>, \<open>sm/src/thread.h\<close>) and the
  per-hart record of which context runs (\<open>sm/src/cpu.c\<close>). The CSRs of a hart that the monitor
  reads and writes are a record; each is a plain 64-bit register, without the legalisation of
  written values that an implementation may do. \<open>struct sbi_trap_regs\<close>, which OpenSBI saves on
  a trap, is the 32 general registers in the order of \<open>struct ctx\<close>, \<open>mepc\<close> and \<open>mstatus\<close>.
\<close>

section \<open>Data\<close>

type_synonym ctx = "u64 list"

record csrs =
  sstatus :: u64
  sedeleg :: u64
  sideleg :: u64
  sie :: u64
  stvec :: u64
  scounteren :: u64
  sscratch :: u64
  sepc :: u64
  scause :: u64
  sbadaddr :: u64
  sip :: u64
  satp :: u64

record thread_state =
  prev_mpp :: int
  prev_mepc :: u64
  prev_mstatus :: u64
  prev_csrs :: csrs
  prev_state :: ctx

record sbi_trap_regs =
  gprs :: "u64 list"
  mepc :: u64
  mstatus :: u64

datatype trap_vector = trap_handler_host | trap_vector_enclave

record hart =
  h_pmp :: pmp_csrs
  h_csrs :: csrs
  mideleg :: u64
  mip :: u64
  mtvec :: trap_vector

text \<open>Register numbers and the fields of \<open>mstatus\<close> and \<open>mip\<close> (RISC-V privileged architecture).\<close>

definition REG_A0 :: nat where [hw_consts]: "REG_A0 = 10"
definition REG_A1 :: nat where [hw_consts]: "REG_A1 = 11"
definition REG_A2 :: nat where [hw_consts]: "REG_A2 = 12"
definition REG_A3 :: nat where [hw_consts]: "REG_A3 = 13"
definition REG_A4 :: nat where [hw_consts]: "REG_A4 = 14"
definition REG_A5 :: nat where [hw_consts]: "REG_A5 = 15"
definition REG_A6 :: nat where [hw_consts]: "REG_A6 = 16"
definition REG_A7 :: nat where [hw_consts]: "REG_A7 = 17"

definition MSTATUS_SIE :: u64 where [hw_consts]: "MSTATUS_SIE = 0x2"
definition MSTATUS_SPIE :: u64 where [hw_consts]: "MSTATUS_SPIE = 0x20"
definition MSTATUS_SPP :: u64 where [hw_consts]: "MSTATUS_SPP = 0x100"
definition MSTATUS_MPP :: u64 where [hw_consts]: "MSTATUS_MPP = 0x1800"
definition MSTATUS_FS :: u64 where [hw_consts]: "MSTATUS_FS = 0x6000"
definition MSTATUS_SUM :: u64 where [hw_consts]: "MSTATUS_SUM = 0x40000"
definition MSTATUS_MXR :: u64 where [hw_consts]: "MSTATUS_MXR = 0x80000"
definition MSTATUS_MPP_SHIFT :: nat where [hw_consts]: "MSTATUS_MPP_SHIFT = 11"

definition MIP_SSIP :: u64 where [hw_consts]: "MIP_SSIP = 0x2"
definition MIP_MSIP :: u64 where [hw_consts]: "MIP_MSIP = 0x8"
definition MIP_STIP :: u64 where [hw_consts]: "MIP_STIP = 0x20"
definition MIP_MTIP :: u64 where [hw_consts]: "MIP_MTIP = 0x80"
definition MIP_SEIP :: u64 where [hw_consts]: "MIP_SEIP = 0x200"
definition MIP_MEIP :: u64 where [hw_consts]: "MIP_MEIP = 0x800"

section \<open>Switching\<close>

definition switch_vector_enclave :: "hart \<Rightarrow> hart" where
  "switch_vector_enclave h = h\<lparr>mtvec := trap_vector_enclave\<rparr>"

definition switch_vector_host :: "hart \<Rightarrow> hart" where
  "switch_vector_host h = h\<lparr>mtvec := trap_handler_host\<rparr>"

definition mstatus_mask :: u64 where
  "mstatus_mask = MSTATUS_SIE OR MSTATUS_SPIE OR MSTATUS_SPP OR MSTATUS_MPP OR MSTATUS_FS OR
     MSTATUS_SUM OR MSTATUS_MXR"

definition swap_prev_mstatus ::
  "thread_state \<Rightarrow> sbi_trap_regs \<Rightarrow> u64 \<Rightarrow> thread_state \<times> sbi_trap_regs" where
  "swap_prev_mstatus thread regs current_mstatus =
     (let tmp = prev_mstatus thread in
      (thread\<lparr>prev_mstatus := (current_mstatus AND NOT mstatus_mask) OR (current_mstatus AND mstatus_mask)\<rparr>,
       regs\<lparr>mstatus := (current_mstatus AND NOT mstatus_mask) OR tmp\<rparr>))"

definition swap_prev_mepc ::
  "thread_state \<Rightarrow> sbi_trap_regs \<Rightarrow> u64 \<Rightarrow> thread_state \<times> sbi_trap_regs" where
  "swap_prev_mepc thread regs current_mepc =
     (let tmp = prev_mepc thread in
      (thread\<lparr>prev_mepc := current_mepc\<rparr>, regs\<lparr>mepc := tmp\<rparr>))"

text \<open>\<open>swap_prev_smode_csrs\<close> exchanges ten CSRs; \<open>sedeleg\<close> and \<open>sideleg\<close> are left alone.\<close>

definition swap_prev_smode_csrs :: "thread_state \<Rightarrow> csrs \<Rightarrow> thread_state \<times> csrs" where
  "swap_prev_smode_csrs thread c =
     (let p = prev_csrs thread in
      (thread\<lparr>prev_csrs := p\<lparr>sstatus := sstatus c, sie := sie c, stvec := stvec c,
          scounteren := scounteren c, sscratch := sscratch c, sepc := sepc c, scause := scause c,
          sbadaddr := sbadaddr c, sip := sip c, satp := satp c\<rparr>\<rparr>,
       c\<lparr>sstatus := sstatus p, sie := sie p, stvec := stvec p,
          scounteren := scounteren p, sscratch := sscratch p, sepc := sepc p, scause := scause p,
          sbadaddr := sbadaddr p, sip := sip p, satp := satp p\<rparr>))"

text \<open>The loop of \<open>swap_prev_state\<close> over the registers \<open>i, ..., 31\<close>.\<close>

fun swap_regs :: "nat list \<Rightarrow> ctx \<Rightarrow> u64 list \<Rightarrow> ctx \<times> u64 list" where
  "swap_regs [] prev rs = (prev, rs)"
| "swap_regs (i # ks) prev rs =
     (let tmp = prev ! i; prev = prev[i := rs ! i]; rs = rs[i := tmp] in swap_regs ks prev rs)"

definition swap_prev_state ::
  "thread_state \<Rightarrow> sbi_trap_regs \<Rightarrow> bool \<Rightarrow> csrs \<Rightarrow> thread_state \<times> sbi_trap_regs \<times> csrs" where
  "swap_prev_state thread regs return_on_resume c =
     (let (prev, rs) = swap_regs [0..<32] (prev_state thread) (gprs regs);
          prev = prev[0 := (if return_on_resume then 0 else 1)];
          (thread, c) = swap_prev_smode_csrs (thread\<lparr>prev_state := prev\<rparr>) c
      in (thread, regs\<lparr>gprs := rs\<rparr>, c))"

definition clean_smode_csrs :: "thread_state \<Rightarrow> csrs \<Rightarrow> thread_state" where
  "clean_smode_csrs st c =
     st\<lparr>prev_csrs := (prev_csrs st)\<lparr>sstatus := 0, sedeleg := 0, sideleg := 0, sie := 0, stvec := 0,
        scounteren := scounteren c, sscratch := 0, sepc := 0, scause := 0, sbadaddr := 0, sip := 0,
        satp := 0\<rparr>\<rparr>"

definition clean_state :: "thread_state \<Rightarrow> csrs \<Rightarrow> thread_state" where
  "clean_state st c =
     (let prev = foldl (\<lambda>prev i. prev[i := 0]) (prev_state st) [1..<32]
      in clean_smode_csrs (st\<lparr>prev_state := prev, prev_mpp := - 1\<rparr>) c)"

section \<open>The context of a hart\<close>

text \<open>
  \<open>cpus\<close> is indexed by the hart id, which is below \<open>MAX_HARTS\<close>.
\<close>

type_synonym enclave_id = u32

record cpu_state =
  is_enclave :: bool
  cpu_eid :: enclave_id

definition cpu_is_enclave_context :: "nat \<Rightarrow> (nat \<Rightarrow> cpu_state) \<Rightarrow> bool" where
  "cpu_is_enclave_context h cpus = is_enclave (cpus h)"

definition cpu_get_enclave_id :: "nat \<Rightarrow> (nat \<Rightarrow> cpu_state) \<Rightarrow> enclave_id" where
  "cpu_get_enclave_id h cpus = cpu_eid (cpus h)"

definition cpu_enter_enclave_context :: "nat \<Rightarrow> enclave_id \<Rightarrow> (nat \<Rightarrow> cpu_state) \<Rightarrow> nat \<Rightarrow> cpu_state" where
  "cpu_enter_enclave_context h eid cpus = cpus(h := (cpus h)\<lparr>is_enclave := True, cpu_eid := eid\<rparr>)"

definition cpu_exit_enclave_context :: "nat \<Rightarrow> (nat \<Rightarrow> cpu_state) \<Rightarrow> nat \<Rightarrow> cpu_state" where
  "cpu_exit_enclave_context h cpus = cpus(h := (cpus h)\<lparr>is_enclave := False\<rparr>)"

section \<open>Swapping exchanges the contexts\<close>

lemma swap_regs_upt:
  assumes "k \<le> n" and "length prev = length rs" and "n \<le> length rs"
  shows "swap_regs [k..<n] prev rs =
    (take k prev @ drop k (take n rs) @ drop n prev, take k rs @ drop k (take n prev) @ drop n rs)"
  using assms
proof (induction "n - k" arbitrary: k prev rs)
  case 0
  then show ?case by simp
next
  case (Suc d)
  let ?p = "prev[k := rs ! k]" and ?r = "rs[k := prev ! k]"
  have k: "k < n" using Suc by simp
  have 1: "swap_regs [k..<n] prev rs = swap_regs [Suc k..<n] ?p ?r"
    using k by (simp add: upt_conv_Cons Let_def)
  have 2: "swap_regs [Suc k..<n] ?p ?r = (take (Suc k) ?p @ drop (Suc k) (take n ?r) @ drop n ?p,
      take (Suc k) ?r @ drop (Suc k) (take n ?p) @ drop n ?r)"
    using Suc k by (intro Suc.hyps) auto
  have 3: "take (Suc k) ?p = take k prev @ [rs ! k]" "take (Suc k) ?r = take k rs @ [prev ! k]"
    using k Suc.prems by (simp_all add: take_Suc_conv_app_nth)
  have 4: "drop (Suc k) (take n ?r) = drop (Suc k) (take n rs)"
    "drop (Suc k) (take n ?p) = drop (Suc k) (take n prev)"
    using k by (simp_all add: take_update_swap)
  have 5: "drop n ?p = drop n prev" "drop n ?r = drop n rs" using k by simp_all
  show ?case
    unfolding 1 2 3 4 5
    using k Suc.prems Cons_nth_drop_Suc [of k "take n rs"] Cons_nth_drop_Suc [of k "take n prev"]
    by simp
qed

lemma swap_regs_all:
  assumes "length prev = 32" and "length rs = 32"
  shows "swap_regs [0..<32] prev rs = (rs, prev)"
  using swap_regs_upt [of 0 32 prev rs] assms by simp

lemma swap_prev_state_eq:
  assumes "length (prev_state t) = 32" and "length (gprs r) = 32"
  shows "swap_prev_state t r ror c =
    (t\<lparr>prev_state := (gprs r)[0 := (if ror then 0 else 1)],
       prev_csrs := c\<lparr>sedeleg := sedeleg (prev_csrs t), sideleg := sideleg (prev_csrs t)\<rparr>\<rparr>,
     r\<lparr>gprs := prev_state t\<rparr>,
     (prev_csrs t)\<lparr>sedeleg := sedeleg c, sideleg := sideleg c\<rparr>)"
  using assms
  by (cases "prev_csrs t"; cases c)
    (simp add: swap_prev_state_def swap_regs_all swap_prev_smode_csrs_def Let_def)

section \<open>Properties of a context switch\<close>

text \<open>The three exchanges of a context switch, in the order of \<open>context_switch_to_enclave\<close> and
  \<open>context_switch_to_host\<close>.\<close>

definition exchange_context ::
  "thread_state \<Rightarrow> sbi_trap_regs \<Rightarrow> bool \<Rightarrow> csrs \<Rightarrow> thread_state \<times> sbi_trap_regs \<times> csrs" where
  "exchange_context t r ror c =
     (let (t, r, c) = swap_prev_state t r ror c;
          (t, r) = swap_prev_mepc t r (mepc r);
          (t, r) = swap_prev_mstatus t r (mstatus r)
      in (t, r, c))"

lemma mask_or_mask: "(x AND NOT m) OR (x AND m) = x" for x m :: u64
  by (auto intro!: bit_word_eqI simp: bit_simps)

lemma exchange_context_eq:
  assumes "length (prev_state t) = 32" and "length (gprs r) = 32"
  shows "exchange_context t r ror c =
    (t\<lparr>prev_state := (gprs r)[0 := (if ror then 0 else 1)], prev_mepc := mepc r, prev_mstatus := mstatus r,
       prev_csrs := c\<lparr>sedeleg := sedeleg (prev_csrs t), sideleg := sideleg (prev_csrs t)\<rparr>\<rparr>,
     r\<lparr>gprs := prev_state t, mepc := prev_mepc t, mstatus := (mstatus r AND NOT mstatus_mask) OR prev_mstatus t\<rparr>,
     (prev_csrs t)\<lparr>sedeleg := sedeleg c, sideleg := sideleg c\<rparr>)"
  by (simp add: exchange_context_def swap_prev_state_eq [OF assms] swap_prev_mepc_def swap_prev_mstatus_def mask_or_mask Let_def)

text \<open>
  C29. Switching into an enclave and back restores the context. After two exchanges the CSRs, the
  program counter and the general registers of the interrupted context are what they were, with
  register 0 telling whether the enclave returns, and so is the saved context of the thread. The
  exception is \<open>mstatus\<close>: the saved value is merged without the mask, so that its bits outside
  the mask are still set after the way back.
\<close>

theorem exchange_context_roundtrip:
  assumes l: "length (prev_state t) = 32" "length (gprs r) = 32"
    and 1: "exchange_context t r ror c = (t1, r1, c1)" and 2: "exchange_context t1 r1 ror' c1 = (t2, r2, c2)"
  shows "c2 = c \<and> mepc r2 = mepc r \<and> gprs r2 = (gprs r)[0 := (if ror then 0 else 1)] \<and>
    prev_csrs t2 = prev_csrs t \<and> prev_mepc t2 = prev_mepc t \<and> prev_state t2 = (prev_state t)[0 := (if ror' then 0 else 1)] \<and>
    mstatus r2 = mstatus r OR (prev_mstatus t AND NOT mstatus_mask)"
proof -
  have e: "length (prev_state t1) = 32" "length (gprs r1) = 32" using 1 l by (auto simp: exchange_context_eq)
  have m: "(((x AND NOT m) OR y) AND NOT m) OR x = x OR (y AND NOT m)" for x y m :: u64
    by (auto intro!: bit_word_eqI simp: bit_simps)
  show ?thesis using 1 2 unfolding exchange_context_eq [OF l] exchange_context_eq [OF e] by (auto simp: m)
qed

definition csrs_zero :: csrs where
  "csrs_zero = \<lparr>sstatus = 0, sedeleg = 0, sideleg = 0, sie = 0, stvec = 0, scounteren = 0, sscratch = 0, sepc = 0,
     scause = 0, sbadaddr = 0, sip = 0, satp = 0\<rparr>"

definition thread_zero :: thread_state where
  "thread_zero = \<lparr>prev_mpp = 0, prev_mepc = 0, prev_mstatus = 0, prev_csrs = csrs_zero, prev_state = replicate 32 0\<rparr>"

theorem exchange_context_roundtrip_witness:
  "let t = thread_zero\<lparr>prev_mepc := 0x1000, prev_mstatus := 0x20000\<rparr>;
       r = \<lparr>gprs = replicate 32 7, mepc = 0x80400000, mstatus = 0x1800\<rparr>; c = csrs_zero\<lparr>satp := 5\<rparr>;
       (t1, r1, c1) = exchange_context t r False c; (t2, r2, c2) = exchange_context t1 r1 True c1
   in mepc r1 = 0x1000 \<and> mepc r2 = 0x80400000 \<and> c2 = c \<and> mstatus r2 = 0x21800"
proof -
  define t where "t = thread_zero\<lparr>prev_mepc := 0x1000, prev_mstatus := 0x20000\<rparr>"
  define r where "r = \<lparr>gprs = replicate 32 7, mepc = 0x80400000, mstatus = 0x1800\<rparr>"
  define c where "c = csrs_zero\<lparr>satp := 5\<rparr>"
  obtain t1 r1 c1 where 1: "exchange_context t r False c = (t1, r1, c1)" by (rule prod_cases3)
  obtain t2 r2 c2 where 2: "exchange_context t1 r1 True c1 = (t2, r2, c2)" by (rule prod_cases3)
  have l: "length (prev_state t) = 32" "length (gprs r) = 32" by (simp_all add: t_def r_def thread_zero_def)
  have "mepc r1 = 0x1000" using 1 unfolding exchange_context_eq [OF l] by (auto simp: t_def)
  then show ?thesis
    using exchange_context_roundtrip [OF l 1 2] 1 2 unfolding t_def [symmetric] r_def [symmetric] c_def [symmetric]
    by (simp add: r_def t_def mstatus_mask_def hw_consts)
qed

end
