(* ===== verification/Mprv.thy ===== *)
theory Mprv
  imports Prelude
begin

text \<open>
  Copies between the monitor and the context that called it (\<open>sm/src/mprv.h\<close>, \<open>mprv.S\<close>).
  The monitor sets \<open>mstatus.MPRV\<close> around the accesses to the caller's memory, so they go through
  the caller's address translation and protection: \<open>xr\<close> and \<open>xw\<close> map an address of the caller
  to the physical address of a byte it may read or write, \<open>None\<close> being the trap that the code
  catches and turns into the result \<open>-1\<close>.
\<close>

section \<open>Single accesses\<close>

type_synonym translation = "u64 \<Rightarrow> u64 option"

definition REGBYTES :: nat where [cfg_defs]: "REGBYTES = 8"
definition MPRV_BLOCK :: nat where [cfg_defs]: "MPRV_BLOCK = 64"

fun mprv_read :: "translation \<Rightarrow> mem \<Rightarrow> u64 \<Rightarrow> nat \<Rightarrow> u8 list option" where
  "mprv_read xr m a 0 = Some []"
| "mprv_read xr m a (Suc n) =
     (case xr a of None \<Rightarrow> None
      | Some pa \<Rightarrow> map_option ((#) (m pa)) (mprv_read xr m (a + 1) n))"

fun mprv_write :: "translation \<Rightarrow> u64 \<Rightarrow> u8 list \<Rightarrow> mem \<Rightarrow> mem option" where
  "mprv_write xw a [] m = Some m"
| "mprv_write xw a (b # bs) m =
     (case xw a of None \<Rightarrow> None | Some pa \<Rightarrow> mprv_write xw (a + 1) bs (m(pa := b)))"

text \<open>
  The copies into the monitor load everything before they store. The block copy out of the
  monitor stores eight words one after the other, so a trap may leave the first ones written.
\<close>

definition copy_block_to_sm :: "translation \<Rightarrow> u64 \<Rightarrow> u64 \<Rightarrow> mem \<Rightarrow> int \<times> mem" where
  "copy_block_to_sm xr dst src m =
     (case mprv_read xr m src MPRV_BLOCK of
        None \<Rightarrow> (- 1, m) | Some bs \<Rightarrow> (0, mem_write dst bs m))"

definition copy_word_to_sm :: "translation \<Rightarrow> u64 \<Rightarrow> u64 \<Rightarrow> mem \<Rightarrow> int \<times> mem" where
  "copy_word_to_sm xr dst src m =
     (case mprv_read xr m src REGBYTES of
        None \<Rightarrow> (- 1, m) | Some bs \<Rightarrow> (0, mem_write dst bs m))"

definition copy1_to_sm :: "translation \<Rightarrow> u64 \<Rightarrow> u64 \<Rightarrow> mem \<Rightarrow> int \<times> mem" where
  "copy1_to_sm xr dst src m =
     (case mprv_read xr m src 1 of
        None \<Rightarrow> (- 1, m) | Some bs \<Rightarrow> (0, mem_write dst bs m))"

definition store_mprv :: "translation \<Rightarrow> u64 \<Rightarrow> u8 list \<Rightarrow> mem \<Rightarrow> int \<times> mem" where
  "store_mprv xw a bs m = (case mprv_write xw a bs m of None \<Rightarrow> (- 1, m) | Some m \<Rightarrow> (0, m))"

definition copy_word_from_sm :: "translation \<Rightarrow> u64 \<Rightarrow> u64 \<Rightarrow> mem \<Rightarrow> int \<times> mem" where
  "copy_word_from_sm xw dst src m = store_mprv xw dst (mem_read m src REGBYTES) m"

definition copy1_from_sm :: "translation \<Rightarrow> u64 \<Rightarrow> u64 \<Rightarrow> mem \<Rightarrow> int \<times> mem" where
  "copy1_from_sm xw dst src m = store_mprv xw dst (mem_read m src 1) m"

fun store_words :: "translation \<Rightarrow> u64 \<Rightarrow> u8 list list \<Rightarrow> mem \<Rightarrow> int \<times> mem" where
  "store_words xw dst [] m = (0, m)"
| "store_words xw dst (w # ws) m =
     (case store_mprv xw dst w m of
        (res, m) \<Rightarrow> if res \<noteq> 0 then (- 1, m) else store_words xw (dst + of_nat REGBYTES) ws m)"

definition copy_block_from_sm :: "translation \<Rightarrow> u64 \<Rightarrow> u64 \<Rightarrow> mem \<Rightarrow> int \<times> mem" where
  "copy_block_from_sm xw dst src m =
     store_words xw dst (map (\<lambda>i. mem_read m (src + of_nat (REGBYTES * i)) REGBYTES) [0..<8]) m"

section \<open>Buffers\<close>

text \<open>
  A loop of \<open>copy_to_sm\<close> or \<open>copy_from_sm\<close>: while at least \<open>c\<close> bytes are left, copy \<open>c\<close> of them
  with \<open>cp\<close> and advance. The result is the return value, then \<open>dst\<close>, \<open>src\<close>, \<open>len\<close> and memory.
\<close>

fun copy_loop ::
  "(u64 \<Rightarrow> u64 \<Rightarrow> mem \<Rightarrow> int \<times> mem) \<Rightarrow> nat \<Rightarrow> u64 \<Rightarrow> u64 \<Rightarrow> nat \<Rightarrow> mem \<Rightarrow> int \<times> u64 \<times> u64 \<times> nat \<times> mem" where
  "copy_loop cp c dst src len m =
     (if len < c \<or> c = 0 then (0, dst, src, len, m)
      else case cp dst src m of
             (res, m) \<Rightarrow>
               if res \<noteq> 0 then (res, dst, src, len, m)
               else copy_loop cp c (dst + of_nat c) (src + of_nat c) (len - c) m)"

declare copy_loop.simps [simp del]

definition copy_to_sm :: "translation \<Rightarrow> u64 \<Rightarrow> u64 \<Rightarrow> nat \<Rightarrow> mem \<Rightarrow> int \<times> mem" where
  "copy_to_sm xr dst src len m =
     (let (res, dst, src, len, m) =
        (if src mod of_nat REGBYTES = 0 \<and> dst mod of_nat REGBYTES = 0 then
           case copy_loop (copy_block_to_sm xr) MPRV_BLOCK dst src len m of
             (res, dst, src, len, m) \<Rightarrow>
               if res \<noteq> 0 then (res, dst, src, len, m)
               else copy_loop (copy_word_to_sm xr) REGBYTES dst src len m
         else (0, dst, src, len, m))
      in if res \<noteq> 0 then (res, m)
         else case copy_loop (copy1_to_sm xr) 1 dst src len m of (res, dst, src, len, m) \<Rightarrow> (res, m))"

definition copy_from_sm :: "translation \<Rightarrow> u64 \<Rightarrow> u64 \<Rightarrow> nat \<Rightarrow> mem \<Rightarrow> int \<times> mem" where
  "copy_from_sm xw dst src len m =
     (let (res, dst, src, len, m) =
        (if src mod of_nat REGBYTES = 0 \<and> dst mod of_nat REGBYTES = 0 then
           case copy_loop (copy_block_from_sm xw) MPRV_BLOCK dst src len m of
             (res, dst, src, len, m) \<Rightarrow>
               if res \<noteq> 0 then (res, dst, src, len, m)
               else copy_loop (copy_word_from_sm xw) REGBYTES dst src len m
         else (0, dst, src, len, m))
      in if res \<noteq> 0 then (res, m)
         else case copy_loop (copy1_from_sm xw) 1 dst src len m of (res, dst, src, len, m) \<Rightarrow> (res, m))"

section \<open>A copy into the monitor copies the bytes or fails\<close>

text \<open>\<open>no_alias\<close>: no readable byte of the source is a byte of the destination buffer.\<close>

definition no_alias :: "translation \<Rightarrow> u64 \<Rightarrow> nat \<Rightarrow> u64 \<Rightarrow> nat \<Rightarrow> bool" where
  "no_alias xr src len dst n \<longleftrightarrow>
     (\<forall>i<len. \<forall>pa. xr (src + of_nat i) = Some pa \<longrightarrow> \<not> unat (pa - dst) < n)"

lemma mprv_read_length: "mprv_read xr m a n = Some bs \<Longrightarrow> length bs = n"
  by (induction xr m a n arbitrary: bs rule: mprv_read.induct) (auto split: option.splits)

lemma mprv_read_add:
  "mprv_read xr m a (i + j) =
     (case mprv_read xr m a i of None \<Rightarrow> None
      | Some xs \<Rightarrow> map_option ((@) xs) (mprv_read xr m (a + of_nat i) j))"
  by (induction i arbitrary: a) (auto split: option.splits simp: algebra_simps map_option_case)

lemma mprv_read_cong:
  assumes "\<And>i pa. i < n \<Longrightarrow> xr (a + of_nat i) = Some pa \<Longrightarrow> m pa = m' pa"
  shows "mprv_read xr m a n = mprv_read xr m' a n"
  using assms
proof (induction n arbitrary: a)
  case (Suc n)
  have "mprv_read xr m (a + 1) n = mprv_read xr m' (a + 1) n"
    using Suc.prems [of "Suc i" for i] by (intro Suc.IH) (simp add: algebra_simps)
  moreover have "m pa = m' pa" if "xr a = Some pa" for pa
    using Suc.prems [of 0] that by simp
  ultimately show ?case by (simp split: option.splits)
qed simp

lemma mem_write_other: "length bs < 2 ^ 64 \<Longrightarrow> \<not> unat (x - a) < length bs \<Longrightarrow> mem_write a bs m x = m x"
  by (simp add: mem_write_apply)

lemma offset_shift:
  fixes x a :: u64
  assumes l: "unat (x - (a + of_nat c)) < len" and b: "c + len < 2 ^ 64"
  shows "unat (x - a) < c + len"
proof -
  have e: "x - a = (x - (a + of_nat c)) + of_nat c" by simp
  have c: "unat (of_nat c :: u64) = c" using b by (simp add: unsigned_of_nat take_bit_nat_eq_self_iff)
  have "unat (x - a) = unat (x - (a + of_nat c)) + c"
    unfolding e using l b c by (subst unat_add_small) simp_all
  then show ?thesis using l by simp
qed

lemma no_alias_tail:
  assumes "no_alias xr src (c + len) dst (c + len)" "c + len < 2 ^ 64"
  shows "no_alias xr (src + of_nat c) len (dst + of_nat c) len"
  unfolding no_alias_def
proof (intro allI impI)
  fix i pa assume i: "i < len" and pa: "xr (src + of_nat c + of_nat i) = Some pa"
  then have "xr (src + of_nat (c + i)) = Some pa" by (simp add: add.assoc)
  then have "\<not> unat (pa - dst) < c + len" using assms(1) i unfolding no_alias_def
    by (meson nat_add_left_cancel_less)
  then show "\<not> unat (pa - (dst + of_nat c)) < len" using offset_shift assms(2) by blast
qed

lemma mprv_read_mem_write:
  assumes na: "no_alias xr src n dst (length bs)" and len: "length bs < 2 ^ 64"
  shows "mprv_read xr (mem_write dst bs m) src n = mprv_read xr m src n"
  using assms by (intro mprv_read_cong mem_write_other) (auto simp: no_alias_def)

lemma no_alias_mono: "no_alias xr src len dst n \<Longrightarrow> len' \<le> len \<Longrightarrow> n' \<le> n \<Longrightarrow> no_alias xr src len' dst n'"
  unfolding no_alias_def by (meson le_less_trans less_le_trans not_le)

lemma no_alias_add:
  "no_alias xr src (c + len) dst n \<Longrightarrow> no_alias xr (src + of_nat c) len dst n"
  unfolding no_alias_def
proof (intro allI impI)
  fix i pa
  assume a: "\<forall>i<c + len. \<forall>pa. xr (src + of_nat i) = Some pa \<longrightarrow> \<not> unat (pa - dst) < n"
    and "i < len" and "xr (src + of_nat c + of_nat i) = Some pa"
  then show "\<not> unat (pa - dst) < n" using a [rule_format, of "c + i" pa] by (simp add: add.assoc)
qed

text \<open>What a loop of \<open>copy_to_sm\<close> does: \<open>k\<close> bytes copied, or a failure that leaves the rest alone.\<close>

definition copied :: "translation \<Rightarrow> u64 \<Rightarrow> u64 \<Rightarrow> nat \<Rightarrow> nat \<Rightarrow> mem \<Rightarrow> int \<times> u64 \<times> u64 \<times> nat \<times> mem \<Rightarrow> bool" where
  "copied xr dst src len k m r =
     (case mprv_read xr m src k of
        Some bs \<Rightarrow> r = (0, dst + of_nat k, src + of_nat k, len - k, mem_write dst bs m)
      | None \<Rightarrow> fst r = - 1 \<and> (\<forall>x. \<not> unat (x - dst) < len \<longrightarrow> snd (snd (snd (snd r))) x = m x))"

lemma copy_loop_to_sm:
  assumes cp: "\<And>dst src m. cp dst src m =
      (case mprv_read xr m src c of None \<Rightarrow> (- 1, m) | Some bs \<Rightarrow> (0, mem_write dst bs m))"
    and c: "0 < c"
    and na: "no_alias xr src len dst len" and len: "len < 2 ^ 64"
  shows "copied xr dst src len (len - len mod c) m (copy_loop cp c dst src len m)"
  using na len
proof (induction len arbitrary: dst src m rule: less_induct)
  case (less len)
  show ?case
  proof (cases "len < c")
    case True
    then show ?thesis by (simp add: copied_def copy_loop.simps)
  next
    case False
    define l where "l = len - c"
    have l: "len = c + l" "l < len" using False c by (auto simp: l_def)
    define j where "j = l - l mod c"
    have k: "len - len mod c = c + j" unfolding l(1) j_def by simp
    have jl: "j \<le> l" by (simp add: j_def)
    have na': "no_alias xr (src + of_nat c) l (dst + of_nat c) l"
      using less.prems l by (intro no_alias_tail) simp_all
    show ?thesis
    proof (cases "mprv_read xr m src c")
      case None
      then show ?thesis using False c by (simp add: copied_def copy_loop.simps k mprv_read_add cp)
    next
      case (Some bs)
      let ?m = "mem_write dst bs m"
      have lb: "length bs = c" using Some by (rule mprv_read_length)
      have ih: "copied xr (dst + of_nat c) (src + of_nat c) l j ?m
                  (copy_loop cp c (dst + of_nat c) (src + of_nat c) l ?m)"
        using less.IH [OF l(2) na'] less.prems l by (simp add: j_def)
      have rd: "mprv_read xr ?m (src + of_nat c) j = mprv_read xr m (src + of_nat c) j"
        using less.prems l lb jl
        by (intro mprv_read_mem_write no_alias_mono [OF no_alias_add [of _ _ c l dst len]]) simp_all
      have st: "copy_loop cp c dst src len m = copy_loop cp c (dst + of_nat c) (src + of_nat c) l ?m"
        using False c by (subst copy_loop.simps) (simp add: cp Some l_def)
      have out: "?m x = m x" if "\<not> unat (x - dst) < len" for x
        using that lb l less.prems by (intro mem_write_other) simp_all
      have sh: "\<not> unat (x - (dst + of_nat c)) < l" if "\<not> unat (x - dst) < len" for x
        using that offset_shift [of x dst c l] l less.prems by auto
      show ?thesis
      proof (cases "mprv_read xr m (src + of_nat c) j")
        case None
        then show ?thesis using ih Some out sh unfolding st k
          by (simp add: copied_def mprv_read_add rd)
      next
        case (Some cs)
        then show ?thesis using ih \<open>mprv_read xr m src c = Some bs\<close> lb l unfolding st k
          by (simp add: copied_def mprv_read_add rd mem_write_append add.assoc)
      qed
    qed
  qed
qed

lemma copied_seq:
  assumes r: "copied xr dst src len k m (res, d, s, n, m1)"
    and q: "res = 0 \<Longrightarrow> copied xr d s n j m1 q"
    and kj: "k + j \<le> len" and na: "no_alias xr src len dst len" and len: "len < 2 ^ 64"
  shows "copied xr dst src len (k + j) m (if res \<noteq> 0 then (res, d, s, n, m1) else q)"
proof (cases "mprv_read xr m src k")
  case None
  then show ?thesis using r by (simp add: copied_def mprv_read_add)
next
  case (Some bs)
  have lb: "length bs = k" using Some by (rule mprv_read_length)
  have e: "res = 0" "d = dst + of_nat k" "s = src + of_nat k" "n = len - k" "m1 = mem_write dst bs m"
    using r Some by (auto simp: copied_def)
  obtain i where i: "len = k + i" using kj by (metis add_leE le_Suc_ex)
  have rd: "mprv_read xr m1 s j = mprv_read xr m s j"
    unfolding e using na len kj lb i
    by (intro mprv_read_mem_write no_alias_mono [OF no_alias_add [of _ _ k i dst len]]) simp_all
  have out: "m1 x = m x \<and> \<not> unat (x - d) < n" if "\<not> unat (x - dst) < len" for x
    using that lb i len mem_write_other [of bs x dst m] offset_shift [of x dst k i] by (auto simp: e)
  show ?thesis
  proof (cases "mprv_read xr m s j")
    case None
    then show ?thesis using q Some out e by (simp add: copied_def mprv_read_add rd [unfolded e])
  next
    case (Some cs)
    then show ?thesis using q \<open>mprv_read xr m src k = Some bs\<close> e lb
      by (simp add: copied_def mprv_read_add rd [unfolded e] mem_write_append add.assoc)
  qed
qed

text \<open>Running one more loop, unless the previous one failed.\<close>

definition next_loop ::
  "(u64 \<Rightarrow> u64 \<Rightarrow> mem \<Rightarrow> int \<times> mem) \<Rightarrow> nat \<Rightarrow> int \<times> u64 \<times> u64 \<times> nat \<times> mem \<Rightarrow> int \<times> u64 \<times> u64 \<times> nat \<times> mem" where
  "next_loop cp c r =
     (case r of (res, d, s, n, m) \<Rightarrow> if res \<noteq> 0 then r else copy_loop cp c d s n m)"

lemma next_loop_copied:
  assumes cp: "\<And>dst src m. cp dst src m =
      (case mprv_read xr m src c of None \<Rightarrow> (- 1, m) | Some bs \<Rightarrow> (0, mem_write dst bs m))"
    and c: "0 < c" and r: "copied xr dst src len k m r" and k: "k \<le> len"
    and na: "no_alias xr src len dst len" and len: "len < 2 ^ 64"
  shows "copied xr dst src len (k + ((len - k) - (len - k) mod c)) m (next_loop cp c r)"
proof -
  obtain res d s n m1 where r': "r = (res, d, s, n, m1)" by (cases r)
  obtain i where i: "len = k + i" using k le_Suc_ex by blast
  have "copied xr d s n ((len - k) - (len - k) mod c) m1 (copy_loop cp c d s n m1)" if "res = 0"
  proof -
    have e: "d = dst + of_nat k" "s = src + of_nat k" "n = len - k"
      using r that by (auto simp: r' copied_def split: option.splits)
    show ?thesis unfolding e using na len i
      by (intro copy_loop_to_sm [OF cp c]) (auto intro!: no_alias_tail)
  qed
  from copied_seq [OF r [unfolded r'] this _ na len] show ?thesis
    using i by (auto simp: r' next_loop_def)
qed

lemma copied_start: "copied xr dst src len 0 m (0, dst, src, len, m)"
  by (simp add: copied_def)

lemma copied_weaken_fail:
  assumes "copied xr dst src len len m r"
  shows "case mprv_read xr m src len of
           Some bs \<Rightarrow> (fst r, snd (snd (snd (snd r)))) = (0, mem_write dst bs m)
         | None \<Rightarrow> fst r = - 1 \<and> (\<forall>x. \<not> unat (x - dst) < len \<longrightarrow> snd (snd (snd (snd r))) x = m x)"
  using assms by (auto simp: copied_def split: option.splits)

lemma copy_to_sm_loops:
  "copy_to_sm xr dst src len m =
     (let r = next_loop (copy1_to_sm xr) 1
        (if src mod 8 = 0 \<and> dst mod 8 = 0
         then next_loop (copy_word_to_sm xr) 8
                (next_loop (copy_block_to_sm xr) 64 (0, dst, src, len, m))
         else (0, dst, src, len, m))
      in (fst r, snd (snd (snd (snd r)))))"
  by (auto simp: copy_to_sm_def next_loop_def REGBYTES_def MPRV_BLOCK_def Let_def split: prod.splits)

lemma next_loop_all:
  assumes "\<And>dst src m. cp dst src m =
      (case mprv_read xr m src 1 of None \<Rightarrow> (- 1, m) | Some bs \<Rightarrow> (0, mem_write dst bs m))"
    and "copied xr dst src len k m r" "k \<le> len" "no_alias xr src len dst len" "len < 2 ^ 64"
  shows "copied xr dst src len len m (next_loop cp 1 r)"
  using next_loop_copied [OF assms(1) _ assms(2-5)] assms(3) by simp

lemma copy_to_sm_bytes:
  assumes na: "no_alias xr src len dst len" and len: "len < 2 ^ 64"
  shows "case mprv_read xr m src len of
           Some bs \<Rightarrow> copy_to_sm xr dst src len m = (0, mem_write dst bs m)
         | None \<Rightarrow> fst (copy_to_sm xr dst src len m) = - 1 \<and>
             (\<forall>x. \<not> unat (x - dst) < len \<longrightarrow> snd (copy_to_sm xr dst src len m) x = m x)"
proof -
  let ?s = "(0, dst, src, len, m)"
  have 1: "copied xr dst src len (len - len mod 64) m (next_loop (copy_block_to_sm xr) 64 ?s)"
    using next_loop_copied [OF copy_block_to_sm_def [unfolded MPRV_BLOCK_def] _ copied_start _ na len, of m] by simp
  define j where "j = len - len mod 64"
  define k where "k = j + ((len - j) - (len - j) mod 8)"
  have j: "j \<le> len" by (simp add: j_def)
  then have k: "k \<le> len" unfolding k_def using diff_le_self [of "len - j" "(len - j) mod 8"] by linarith
  have 2: "copied xr dst src len k m (next_loop (copy_word_to_sm xr) 8 (next_loop (copy_block_to_sm xr) 64 ?s))"
    unfolding k_def
    by (rule next_loop_copied [OF copy_word_to_sm_def [unfolded REGBYTES_def] _ 1 [folded j_def] j na len]) simp
  define r where "r = next_loop (copy1_to_sm xr) 1
    (if src mod 8 = 0 \<and> dst mod 8 = 0 then next_loop (copy_word_to_sm xr) 8 (next_loop (copy_block_to_sm xr) 64 ?s) else ?s)"
  have "copied xr dst src len len m r"
    unfolding r_def using k 2 by (intro next_loop_all [OF copy1_to_sm_def _ _ na len, of "if src mod 8 = 0 \<and> dst mod 8 = 0 then k else 0"])
      (auto simp: copied_start)
  from copied_weaken_fail [OF this] show ?thesis
    unfolding copy_to_sm_loops r_def [symmetric] by (auto simp: Let_def split: option.splits)
qed

section \<open>A copy out of the monitor\<close>

lemma mprv_write_append:
  "mprv_write xw a (xs @ ys) m =
     (case mprv_write xw a xs m of None \<Rightarrow> None | Some m \<Rightarrow> mprv_write xw (a + of_nat (length xs)) ys m)"
  by (induction xs arbitrary: a m) (auto split: option.splits simp: algebra_simps)

lemma mprv_write_other:
  "mprv_write xw a bs m = Some m' \<Longrightarrow> (\<forall>i<length bs. xw (a + of_nat i) \<noteq> Some x) \<Longrightarrow> m' x = m x"
proof (induction bs arbitrary: a m)
  case (Cons b bs)
  then obtain pa where pa: "xw a = Some pa" and w: "mprv_write xw (a + 1) bs (m(pa := b)) = Some m'"
    by (cases "xw a") auto
  have "pa \<noteq> x" using Cons.prems(2) [rule_format, of 0] pa by simp
  moreover have "\<forall>i<length bs. xw (a + 1 + of_nat i) \<noteq> Some x"
  proof (intro allI impI)
    fix i assume "i < length bs"
    then show "xw (a + 1 + of_nat i) \<noteq> Some x" using Cons.prems(2) [rule_format, of "Suc i"] by (simp add: add.assoc)
  qed
  ultimately show ?case using Cons.IH [OF w] by simp
qed simp

text \<open>\<open>wrote r m bs\<close>: all of \<open>bs\<close> was stored, or the copy failed within the buffer.\<close>

definition wrote :: "translation \<Rightarrow> u64 \<Rightarrow> u8 list \<Rightarrow> mem \<Rightarrow> int \<times> mem \<Rightarrow> bool" where
  "wrote xw dst bs m r =
     (case mprv_write xw dst bs m of
        Some m' \<Rightarrow> r = (0, m')
      | None \<Rightarrow> fst r = - 1 \<and> (\<forall>x. (\<forall>i<length bs. xw (dst + of_nat i) \<noteq> Some x) \<longrightarrow> snd r x = m x))"

lemma store_mprv_wrote: "wrote xw dst bs m (store_mprv xw dst bs m)"
  by (auto simp: wrote_def store_mprv_def split: option.splits)

lemma wrote_append:
  assumes r: "wrote xw dst xs m r" and q: "fst r = 0 \<Longrightarrow> wrote xw (dst + of_nat (length xs)) ys (snd r) q"
  shows "wrote xw dst (xs @ ys) m (if fst r \<noteq> 0 then r else q)"
proof (cases "mprv_write xw dst xs m")
  case None
  then show ?thesis using r by (auto simp: wrote_def mprv_write_append)
next
  case (Some m1)
  then have r': "r = (0, m1)" using r by (simp add: wrote_def)
  have f: "m1 x = m x \<and> (\<forall>i<length ys. xw (dst + of_nat (length xs) + of_nat i) \<noteq> Some x)"
    if "\<forall>i<length (xs @ ys). xw (dst + of_nat i) \<noteq> Some x" for x
    using that mprv_write_other [OF Some, of x]
    by (auto simp: add.assoc simp flip: of_nat_add)
  show ?thesis using q f Some unfolding r'
    by (simp add: wrote_def mprv_write_append split: option.splits)
qed

lemma store_words_wrote:
  "(\<forall>w\<in>set ws. length w = 8) \<Longrightarrow> wrote xw dst (concat ws) m (store_words xw dst ws m)"
proof (induction ws arbitrary: dst m)
  case Nil
  then show ?case by (simp add: wrote_def)
next
  case (Cons w ws)
  obtain res m1 where st: "store_mprv xw dst w m = (res, m1)" by fastforce
  have "fst (store_mprv xw dst w m) = 0 \<or> fst (store_mprv xw dst w m) = - 1"
    by (simp add: store_mprv_def split: option.splits)
  with wrote_append [OF store_mprv_wrote [of xw dst w m], of "concat ws" "store_words xw (dst + 8) ws m1"]
    Cons.IH [of "dst + 8" m1] Cons.prems
  show ?case by (auto simp: st REGBYTES_def)
qed

lemma concat_mem_read:
  "concat (map (\<lambda>i. mem_read m (a + of_nat (c * i)) c) [0..<k]) = mem_read m a (c * k)"
proof (induction k)
  case (Suc k)
  have "c * Suc k = c * k + c" by simp
  with Suc show ?case by (simp only: mem_read_add upt_Suc_append map_append concat_append) simp
qed simp

lemma copy_wrote:
  "wrote xw dst (mem_read m src 64) m (copy_block_from_sm xw dst src m)"
  "wrote xw dst (mem_read m src 8) m (copy_word_from_sm xw dst src m)"
  "wrote xw dst (mem_read m src 1) m (copy1_from_sm xw dst src m)"
  using store_words_wrote [of "map (\<lambda>i. mem_read m (src + of_nat (8 * i)) 8) [0..<8]" xw dst m]
  by (simp_all add: copy_block_from_sm_def copy_word_from_sm_def copy1_from_sm_def REGBYTES_def
      store_mprv_wrote concat_mem_read del: of_nat_mult upt_rec_numeral)

definition copied_out :: "translation \<Rightarrow> u64 \<Rightarrow> u64 \<Rightarrow> nat \<Rightarrow> nat \<Rightarrow> mem \<Rightarrow> int \<times> u64 \<times> u64 \<times> nat \<times> mem \<Rightarrow> bool" where
  "copied_out xw dst src len k m r \<longleftrightarrow>
     wrote xw dst (mem_read m src k) m (fst r, snd (snd (snd (snd r)))) \<and>
     (fst r = 0 \<longrightarrow> fst (snd r) = dst + of_nat k \<and> fst (snd (snd r)) = src + of_nat k \<and>
        fst (snd (snd (snd r))) = len - k)"

lemma wrote_mem_read:
  assumes w: "wrote xw dst bs m (0, m1)" and na: "no_alias xw dst (length bs) src n" and n: "n < 2 ^ 64"
  shows "mem_read m1 src n = mem_read m src n"
proof (rule mem_read_cong)
  fix i assume i: "i < n"
  have "mprv_write xw dst bs m = Some m1" using w by (auto simp: wrote_def split: option.splits)
  moreover have "\<forall>j<length bs. xw (dst + of_nat j) \<noteq> Some (src + of_nat i)"
    using na i n by (auto simp: no_alias_def unsigned_of_nat take_bit_nat_eq_self dest: spec)
  ultimately show "m1 (src + of_nat i) = m (src + of_nat i)" by (rule mprv_write_other)
qed

lemma copied_out_seq:
  assumes r: "copied_out xw dst src len k m (res, d, s, n, m1)"
    and q: "res = 0 \<Longrightarrow> copied_out xw d s n j m1 q"
    and kj: "k + j \<le> len" and na: "no_alias xw dst len src len" and len: "len < 2 ^ 64"
  shows "copied_out xw dst src len (k + j) m (if res \<noteq> 0 then (res, d, s, n, m1) else q)"
proof (cases "res = 0")
  case False
  have "wrote xw dst (mem_read m src k @ mem_read m (src + of_nat k) j) m
          (if fst (res, m1) \<noteq> 0 then (res, m1) else undefined)"
    using r False by (intro wrote_append) (simp_all add: copied_out_def)
  then show ?thesis using False by (simp add: copied_out_def mem_read_add)
next
  case True
  have e: "d = dst + of_nat k" "s = src + of_nat k" "n = len - k"
    and w: "wrote xw dst (mem_read m src k) m (0, m1)"
    using r True by (auto simp: copied_out_def)
  obtain i where i: "len = k + i" using kj by (metis add_leE le_Suc_ex)
  have rd0: "mem_read m1 src len = mem_read m src len"
    using na len kj by (intro wrote_mem_read [OF w]) (auto intro: no_alias_mono)
  obtain i' where i': "i = j + i'" using kj i le_Suc_ex by auto
  have rd: "mem_read m1 s j = mem_read m s j"
    using arg_cong [OF rd0, of "\<lambda>l. take j (drop k l)"]
    by (simp add: e i i' mem_read_add)
  have "wrote xw dst (mem_read m src k @ mem_read m s j) m
          (if fst (0 :: int, m1) \<noteq> 0 then (0, m1) else (fst q, snd (snd (snd (snd q)))))"
    using q [OF True] w by (intro wrote_append) (simp_all add: copied_out_def e rd [unfolded e])
  then show ?thesis using q [OF True] True by (auto simp: copied_out_def mem_read_add e add.assoc)
qed

lemma copy_loop_from_sm:
  assumes cp: "\<And>dst src m. wrote xw dst (mem_read m src c) m (cp dst src m)" and c: "0 < c"
    and na: "no_alias xw dst len src len" and len: "len < 2 ^ 64"
  shows "copied_out xw dst src len (len - len mod c) m (copy_loop cp c dst src len m)"
  using na len
proof (induction len arbitrary: dst src m rule: less_induct)
  case (less len)
  show ?case
  proof (cases "len < c")
    case True
    then show ?thesis by (simp add: copied_out_def copy_loop.simps wrote_def)
  next
    case False
    define l where "l = len - c"
    have l: "len = c + l" "l < len" using False c by (auto simp: l_def)
    define j where "j = l - l mod c"
    have k: "len - len mod c = c + j" unfolding l(1) j_def by simp
    have jl: "j \<le> l" by (simp add: j_def)
    obtain res m1 where s: "cp dst src m = (res, m1)" by fastforce
    have w: "copied_out xw dst src len c m (res, if res = 0 then dst + of_nat c else dst,
        if res = 0 then src + of_nat c else src, if res = 0 then l else len, m1)"
      using cp [of dst m src] by (simp add: copied_out_def s l_def)
    have ih: "copied_out xw (dst + of_nat c) (src + of_nat c) l j m1
        (copy_loop cp c (dst + of_nat c) (src + of_nat c) l m1)"
      unfolding j_def using less.prems l by (intro less.IH no_alias_tail) simp_all
    have "copy_loop cp c dst src len m = (if res \<noteq> 0 then (res, dst, src, len, m1)
        else copy_loop cp c (dst + of_nat c) (src + of_nat c) l m1)"
      using False c by (subst copy_loop.simps) (simp add: s l_def)
    then show ?thesis
      using copied_out_seq [OF w, of j "copy_loop cp c (dst + of_nat c) (src + of_nat c) l m1"] ih less.prems l jl
      unfolding k by (cases "res = 0") simp_all
  qed
qed

lemma next_loop_copied_out:
  assumes cp: "\<And>dst src m. wrote xw dst (mem_read m src c) m (cp dst src m)"
    and c: "0 < c" and r: "copied_out xw dst src len k m r" and k: "k \<le> len"
    and na: "no_alias xw dst len src len" and len: "len < 2 ^ 64"
  shows "copied_out xw dst src len (k + ((len - k) - (len - k) mod c)) m (next_loop cp c r)"
proof -
  obtain res d s n m1 where r': "r = (res, d, s, n, m1)" by (cases r)
  obtain i where i: "len = k + i" using k le_Suc_ex by blast
  have "copied_out xw d s n ((len - k) - (len - k) mod c) m1 (copy_loop cp c d s n m1)" if "res = 0"
  proof -
    have e: "d = dst + of_nat k" "s = src + of_nat k" "n = len - k"
      using r that by (auto simp: r' copied_out_def)
    show ?thesis unfolding e using na len i
      by (intro copy_loop_from_sm [OF cp c]) (auto intro!: no_alias_tail)
  qed
  from copied_out_seq [OF r [unfolded r'] this _ na len] show ?thesis
    using i by (auto simp: r' next_loop_def)
qed

lemma copied_out_start: "copied_out xw dst src len 0 m (0, dst, src, len, m)"
  by (simp add: copied_out_def wrote_def)

lemma copy_from_sm_loops:
  "copy_from_sm xw dst src len m =
     (let r = next_loop (copy1_from_sm xw) 1
        (if src mod 8 = 0 \<and> dst mod 8 = 0
         then next_loop (copy_word_from_sm xw) 8
                (next_loop (copy_block_from_sm xw) 64 (0, dst, src, len, m))
         else (0, dst, src, len, m))
      in (fst r, snd (snd (snd (snd r)))))"
  by (auto simp: copy_from_sm_def next_loop_def REGBYTES_def MPRV_BLOCK_def Let_def split: prod.splits)

lemma copy_from_sm_wrote:
  assumes na: "no_alias xw dst len src len" and len: "len < 2 ^ 64"
  shows "wrote xw dst (mem_read m src len) m (copy_from_sm xw dst src len m)"
proof -
  let ?s = "(0, dst, src, len, m)"
  have 1: "copied_out xw dst src len (len - len mod 64) m (next_loop (copy_block_from_sm xw) 64 ?s)"
    using next_loop_copied_out [OF copy_wrote(1) _ copied_out_start _ na len, of m] by simp
  define j where "j = len - len mod 64"
  define k where "k = j + ((len - j) - (len - j) mod 8)"
  have j: "j \<le> len" by (simp add: j_def)
  then have k: "k \<le> len" unfolding k_def using diff_le_self [of "len - j" "(len - j) mod 8"] by linarith
  have 2: "copied_out xw dst src len k m (next_loop (copy_word_from_sm xw) 8 (next_loop (copy_block_from_sm xw) 64 ?s))"
    unfolding k_def by (rule next_loop_copied_out [OF copy_wrote(2) _ 1 [folded j_def] j na len]) simp
  define k0 where "k0 = (if src mod 8 = 0 \<and> dst mod 8 = 0 then k else 0)"
  have k0: "k0 \<le> len" using k by (simp add: k0_def)
  define r0 where "r0 = (if src mod 8 = 0 \<and> dst mod 8 = 0
    then next_loop (copy_word_from_sm xw) 8 (next_loop (copy_block_from_sm xw) 64 ?s) else ?s)"
  have 3: "copied_out xw dst src len k0 m r0" using 2 by (simp add: r0_def k0_def copied_out_start)
  have "copied_out xw dst src len len m (next_loop (copy1_from_sm xw) 1 r0)"
    using next_loop_copied_out [OF copy_wrote(3) _ 3 k0 na len] k0 by simp
  then show ?thesis unfolding copy_from_sm_loops r0_def [symmetric] by (simp add: copied_out_def Let_def)
qed

section \<open>What a copy leaves alone\<close>

text \<open>
  Whatever the translation is and whether the copy succeeds or not: a copy into the monitor
  changes bytes of the destination buffer only, and a copy out of it changes only bytes that the
  caller may write.
\<close>

lemma copy_loop_frame_to:
  assumes cp: "\<And>dst src m. \<not> unat (x - dst) < c \<Longrightarrow> snd (cp dst src m) x = m x"
    and "len < 2 ^ 64" and "\<not> unat (x - dst) < len"
    and "copy_loop cp c dst src len m = (res, dst', src', len', m')"
  shows "m' x = m x \<and> len' \<le> len \<and> \<not> unat (x - dst') < len'"
  using assms(2-)
proof (induction len arbitrary: dst src m rule: less_induct)
  case (less len)
  show ?case
  proof (cases "len < c \<or> c = 0")
    case True
    then show ?thesis using less.prems by (simp add: copy_loop.simps)
  next
    case False
    obtain r m1 where s: "cp dst src m = (r, m1)" by fastforce
    have m1: "m1 x = m x" using cp [of dst src m] less.prems(2) False by (simp add: s)
    have out: "\<not> unat (x - (dst + of_nat c)) < len - c"
      using offset_shift [of x dst c "len - c"] less.prems(1,2) False by auto
    show ?thesis
    proof (cases "r = 0")
      case True
      then have "copy_loop cp c (dst + of_nat c) (src + of_nat c) (len - c) m1 = (res, dst', src', len', m')"
        using less.prems(3) False s by (subst (asm) copy_loop.simps) simp
      from less.IH [OF _ _ out this] show ?thesis
        using less.prems(1) False m1 le_trans [OF _ diff_le_self, of len' len c] by simp
    next
      case r: False
      then show ?thesis using less.prems False s m1 by (subst (asm) copy_loop.simps) auto
    qed
  qed
qed

lemma copy_loop_frame_from:
  assumes cp: "\<And>dst src m. snd (cp dst src m) x = m x" and "copy_loop cp c dst src len m = (res, dst', src', len', m')"
  shows "m' x = m x"
  using assms(2)
proof (induction len arbitrary: dst src m rule: less_induct)
  case (less len)
  obtain r m1 where s: "cp dst src m = (r, m1)" by fastforce
  have m1: "m1 x = m x" using cp [of dst src m] by (simp add: s)
  show ?case
  proof (cases "len < c \<or> c = 0 \<or> r \<noteq> 0")
    case True
    then show ?thesis using less.prems s m1 by (subst (asm) copy_loop.simps) (auto split: if_splits)
  next
    case False
    then have "copy_loop cp c (dst + of_nat c) (src + of_nat c) (len - c) m1 = (res, dst', src', len', m')"
      using less.prems s by (subst (asm) copy_loop.simps) simp
    from less.IH [OF _ this] show ?thesis using False m1 by simp
  qed
qed

lemma copy_step_to:
  assumes "\<not> unat (x - dst) < n"
  shows "n = MPRV_BLOCK \<Longrightarrow> snd (copy_block_to_sm xr dst src m) x = m x"
    and "n = REGBYTES \<Longrightarrow> snd (copy_word_to_sm xr dst src m) x = m x"
    and "n = 1 \<Longrightarrow> snd (copy1_to_sm xr dst src m) x = m x"
  using assms
  by (auto simp: copy_block_to_sm_def copy_word_to_sm_def copy1_to_sm_def cfg_defs mem_write_other
      dest!: mprv_read_length split: option.splits)

lemma copy_to_sm_frame:
  assumes out: "\<not> unat (x - dst) < len" and len: "len < 2 ^ 64"
  shows "snd (copy_to_sm xr dst src len m) x = m x"
proof -
  obtain r1 d1 s1 l1 m1 where 1: "copy_loop (copy_block_to_sm xr) MPRV_BLOCK dst src len m = (r1, d1, s1, l1, m1)" by (metis prod_cases5)
  note F1 = copy_loop_frame_to [OF copy_step_to(1) [OF _ refl] len out 1]
  obtain r2 d2 s2 l2 m2 where 2: "copy_loop (copy_word_to_sm xr) REGBYTES d1 s1 l1 m1 = (r2, d2, s2, l2, m2)" by (metis prod_cases5)
  have F2: "m2 x = m1 x \<and> l2 \<le> l1 \<and> \<not> unat (x - d2) < l2"
    using F1 len by (intro copy_loop_frame_to [OF copy_step_to(2) [OF _ refl] _ _ 2]) simp_all
  have tail: "snd (case copy_loop (copy1_to_sm xr) 1 d s l m' of (res, dst, src, len, m) \<Rightarrow> (res, m)) x = m' x"
    if "\<not> unat (x - d) < l" "l \<le> len" for d s l m'
  proof -
    obtain r' d' s' l' m'' where e: "copy_loop (copy1_to_sm xr) 1 d s l m' = (r', d', s', l', m'')" by (metis prod_cases5)
    have "m'' x = m' x" using that len by (intro copy_loop_frame_to [OF copy_step_to(3) [OF _ refl] _ _ e, THEN conjunct1]) simp_all
    then show ?thesis by (simp only: e prod.case snd_conv)
  qed
  show ?thesis
    using F1 F2 tail [of d2 l2 s2 m2] tail [of dst len src m] out
    by (auto simp: copy_to_sm_def 1 2 Let_def simp del: One_nat_def)
qed

lemma store_mprv_frame: "(\<And>a. xw a \<noteq> Some x) \<Longrightarrow> snd (store_mprv xw dst bs m) x = m x"
  using mprv_write_other [of xw dst bs m _ x] by (auto simp: store_mprv_def split: option.splits)

lemma store_words_frame: "(\<And>a. xw a \<noteq> Some x) \<Longrightarrow> snd (store_words xw dst ws m) x = m x"
proof (induction ws arbitrary: dst m)
  case (Cons w ws)
  then show ?case using store_mprv_frame [of xw x dst w m] by (auto split: prod.splits)
qed simp

lemma copy_from_sm_frame:
  assumes out: "\<And>a. xw a \<noteq> Some x"
  shows "snd (copy_from_sm xw dst src len m) x = m x" and "snd (copy_word_from_sm xw dst src m) x = m x"
proof -
  have st: "snd (copy_block_from_sm xw d s m) x = m x" "snd (copy_word_from_sm xw d s m) x = m x"
      "snd (copy1_from_sm xw d s m) x = m x" for d s m
    using store_words_frame [OF out] store_mprv_frame [OF out]
    by (simp_all add: copy_block_from_sm_def copy_word_from_sm_def copy1_from_sm_def)
  show "snd (copy_word_from_sm xw dst src m) x = m x" by (rule st)
  obtain r1 d1 s1 l1 m1 where 1: "copy_loop (copy_block_from_sm xw) MPRV_BLOCK dst src len m = (r1, d1, s1, l1, m1)" by (metis prod_cases5)
  obtain r2 d2 s2 l2 m2 where 2: "copy_loop (copy_word_from_sm xw) REGBYTES d1 s1 l1 m1 = (r2, d2, s2, l2, m2)" by (metis prod_cases5)
  have tail: "snd (case copy_loop (copy1_from_sm xw) 1 d s l m' of (res, dst, src, len, m) \<Rightarrow> (res, m)) x = m' x" for d s l m'
  proof -
    obtain r' d' s' l' m'' where e: "copy_loop (copy1_from_sm xw) 1 d s l m' = (r', d', s', l', m'')" by (metis prod_cases5)
    show ?thesis using copy_loop_frame_from [OF _ e, of x] st(3) by (simp only: e prod.case snd_conv)
  qed
  have "m1 x = m x" using copy_loop_frame_from [OF _ 1, of x] st(1) by simp
  moreover have "m2 x = m1 x" using copy_loop_frame_from [OF _ 2, of x] st(2) by simp
  ultimately show "snd (copy_from_sm xw dst src len m) x = m x"
    using tail [of d2 s2 l2 m2] tail [of dst src len m]
    by (auto simp: copy_from_sm_def 1 2 Let_def simp del: One_nat_def)
qed

section \<open>Properties of the copies\<close>

text \<open>
  C27. \<open>copy_to_sm\<close> copies a buffer of the caller, byte by byte through the caller's address
  translation, whatever mixture of 64-byte blocks, words and bytes it uses: if every byte is
  readable it returns 0 and the destination holds the bytes; otherwise it returns -1, and nothing
  outside the destination buffer has changed.
\<close>

theorem copy_to_sm_copies:
  assumes "no_alias xr src len dst len" and "len < 2 ^ 64"
  shows "case mprv_read xr m src len of
           Some bs \<Rightarrow> copy_to_sm xr dst src len m = (0, mem_write dst bs m)
         | None \<Rightarrow> fst (copy_to_sm xr dst src len m) = - 1 \<and>
             (\<forall>x. \<not> unat (x - dst) < len \<longrightarrow> snd (copy_to_sm xr dst src len m) x = m x)"
  by (rule copy_to_sm_bytes [OF assms])

theorem copy_to_sm_copies_witness:
  "copy_to_sm Some 0x2000 0x1000 2 (\<lambda>a. 9) = (0, mem_write 0x2000 [9, 9] (\<lambda>a. 9)) \<and>
   fst (copy_to_sm (\<lambda>a. if a = 0x1001 then None else Some a) 0x2000 0x1000 2 (\<lambda>a. 0)) = - 1"
proof -
  have na: "no_alias Some 0x1000 2 0x2000 2" "no_alias (\<lambda>a. if a = 0x1001 then None else Some a) 0x1000 2 0x2000 2"
    by (simp_all add: no_alias_def less_2_cases_iff)
  have r: "mprv_read Some (\<lambda>a. 9) 0x1000 2 = Some [9, 9]"
      "mprv_read (\<lambda>a. if a = 0x1001 then None else Some a) (\<lambda>a. 0) 0x1000 2 = None"
    unfolding numeral_2_eq_2 by simp_all
  show ?thesis
    using copy_to_sm_copies [OF na(1), of "\<lambda>a. 9"] copy_to_sm_copies [OF na(2), of "\<lambda>a. 0"] r by (simp del: split_paired_All)
qed

text \<open>
  C28. \<open>copy_from_sm\<close> stores a buffer of the monitor to the caller: if every byte is writable it
  returns 0 and exactly these bytes were stored; otherwise it returns -1, and only bytes the caller's
  buffer translates to have changed.
\<close>

theorem copy_from_sm_copies:
  assumes "no_alias xw dst len src len" and "len < 2 ^ 64"
  shows "case mprv_write xw dst (mem_read m src len) m of
           Some m' \<Rightarrow> copy_from_sm xw dst src len m = (0, m')
         | None \<Rightarrow> fst (copy_from_sm xw dst src len m) = - 1 \<and>
             (\<forall>x. (\<forall>i<len. xw (dst + of_nat i) \<noteq> Some x) \<longrightarrow> snd (copy_from_sm xw dst src len m) x = m x)"
  using copy_from_sm_wrote [OF assms, of m] by (simp add: wrote_def cong: option.case_cong)

theorem copy_from_sm_copies_witness:
  "fst (copy_from_sm Some 0x2000 0x1000 2 (\<lambda>a. 5)) = 0 \<and> fst (copy_from_sm (\<lambda>a. None) 0x2000 0x1000 2 (\<lambda>a. 5)) = - 1"
proof -
  have na: "no_alias Some 0x2000 2 0x1000 2" "no_alias (\<lambda>a. None) 0x2000 2 0x1000 2"
    by (simp_all add: no_alias_def less_2_cases_iff)
  have m: "mem_read (\<lambda>a. 5) 0x1000 2 = [5, 5]" by (simp add: numeral_2_eq_2 mem_read_Suc)
  have w: "\<exists>m'. mprv_write Some 0x2000 [5, 5] (\<lambda>a. 5) = Some m'" "mprv_write (\<lambda>a. None) 0x2000 [5, 5] (\<lambda>a. 5) = None"
    by simp_all
  show ?thesis
    using copy_from_sm_copies [OF na(1), of "\<lambda>a. 5"] copy_from_sm_copies [OF na(2), of "\<lambda>a. 5"] w unfolding m by auto
qed

end
