(* ===== verification/Sha3.thy ===== *)
theory Sha3
  imports Prelude
begin

text \<open>
  SHA-3 as the monitor computes it (\<open>sm/src/sha3/sha3.c\<close>, \<open>sha3.h\<close>), on a little-endian
  target. The union of 200 bytes and 25 words is the list of the 25 words; \<open>st_byte\<close> and
  \<open>st_xor_byte\<close> are the byte view. The second part relates the code to the sponge construction
  of FIPS 202: blocks of the padded message are absorbed one by one.
\<close>

section \<open>The permutation\<close>

definition KECCAKF_ROUNDS :: nat where "KECCAKF_ROUNDS = 24"

definition ROTL64 :: "u64 \<Rightarrow> nat \<Rightarrow> u64" where
  "ROTL64 x y = push_bit y x OR drop_bit (64 - y) x"

definition keccakf_rndc :: "u64 list" where
  "keccakf_rndc =
     [0x0000000000000001, 0x0000000000008082, 0x800000000000808a,
      0x8000000080008000, 0x000000000000808b, 0x0000000080000001,
      0x8000000080008081, 0x8000000000008009, 0x000000000000008a,
      0x0000000000000088, 0x0000000080008009, 0x000000008000000a,
      0x000000008000808b, 0x800000000000008b, 0x8000000000008089,
      0x8000000000008003, 0x8000000000008002, 0x8000000000000080,
      0x000000000000800a, 0x800000008000000a, 0x8000000080008081,
      0x8000000000008080, 0x0000000080000001, 0x8000000080008008]"

definition keccakf_rotc :: "nat list" where
  "keccakf_rotc =
     [1, 3, 6, 10, 15, 21, 28, 36, 45, 55, 2, 14,
      27, 41, 56, 8, 25, 43, 62, 18, 39, 61, 20, 44]"

definition keccakf_piln :: "nat list" where
  "keccakf_piln =
     [10, 7, 11, 17, 18, 3, 5, 16, 8, 21, 24, 4,
      15, 23, 19, 13, 12, 2, 20, 14, 22, 9, 6, 1]"

text \<open>The four parts of a round, each loop of the source a fold over its index range.\<close>

definition keccak_theta :: "u64 list \<Rightarrow> u64 list" where
  "keccak_theta st =
     (let bc = map (\<lambda>i. st ! i XOR st ! (i + 5) XOR st ! (i + 10) XOR st ! (i + 15) XOR st ! (i + 20))
                 [0..<5]
      in foldl (\<lambda>st i.
           let t = bc ! ((i + 4) mod 5) XOR ROTL64 (bc ! ((i + 1) mod 5)) 1
           in foldl (\<lambda>st j. st[j + i := st ! (j + i) XOR t]) st [0, 5, 10, 15, 20])
         st [0..<5])"

definition keccak_rho_pi :: "u64 list \<Rightarrow> u64 list" where
  "keccak_rho_pi st =
     fst (foldl (\<lambda>(st, t) i.
            let j = keccakf_piln ! i; bc0 = st ! j
            in (st[j := ROTL64 t (keccakf_rotc ! i)], bc0))
          (st, st ! 1) [0..<24])"

definition keccak_chi :: "u64 list \<Rightarrow> u64 list" where
  "keccak_chi st =
     foldl (\<lambda>st j.
        let bc = map (\<lambda>i. st ! (j + i)) [0..<5]
        in foldl (\<lambda>st i. st[j + i := st ! (j + i) XOR (NOT (bc ! ((i + 1) mod 5)) AND bc ! ((i + 2) mod 5))])
             st [0..<5])
       st [0, 5, 10, 15, 20]"

definition keccak_round :: "u64 list \<Rightarrow> nat \<Rightarrow> u64 list" where
  "keccak_round st r =
     (let st = keccak_theta st; st = keccak_rho_pi st; st = keccak_chi st
      in st[0 := st ! 0 XOR keccakf_rndc ! r])"

definition sha3_keccakf :: "u64 list \<Rightarrow> u64 list" where
  "sha3_keccakf st = foldl keccak_round st [0..<KECCAKF_ROUNDS]"

section \<open>The hash\<close>

record sha3_ctx_t =
  st_q :: "u64 list"
  ctx_pt :: nat
  ctx_rsiz :: nat
  ctx_mdlen :: nat

definition st_byte :: "u64 list \<Rightarrow> nat \<Rightarrow> u8" where
  "st_byte st i = ucast (drop_bit (8 * (i mod 8)) (st ! (i div 8)))"

definition st_xor_byte :: "u64 list \<Rightarrow> nat \<Rightarrow> u8 \<Rightarrow> u64 list" where
  "st_xor_byte st j v =
     st[j div 8 := st ! (j div 8) XOR push_bit (8 * (j mod 8)) (ucast v)]"

definition sha3_init :: "nat \<Rightarrow> sha3_ctx_t" where
  "sha3_init mdlen =
     \<lparr>st_q = replicate 25 0, ctx_pt = 0, ctx_rsiz = 200 - 2 * mdlen, ctx_mdlen = mdlen\<rparr>"

fun sha3_absorb :: "nat \<Rightarrow> u8 list \<Rightarrow> u64 list \<Rightarrow> nat \<Rightarrow> u64 list \<times> nat" where
  "sha3_absorb rsiz [] st j = (st, j)"
| "sha3_absorb rsiz (d # ds) st j =
     (let st = st_xor_byte st j d; j = j + 1
      in if j \<ge> rsiz then sha3_absorb rsiz ds (sha3_keccakf st) 0
         else sha3_absorb rsiz ds st j)"

definition sha3_update :: "sha3_ctx_t \<Rightarrow> u8 list \<Rightarrow> sha3_ctx_t" where
  "sha3_update c bs =
     (let (st, j) = sha3_absorb (ctx_rsiz c) bs (st_q c) (ctx_pt c)
      in c\<lparr>st_q := st, ctx_pt := j\<rparr>)"

definition sha3_final :: "sha3_ctx_t \<Rightarrow> u8 list \<times> sha3_ctx_t" where
  "sha3_final c =
     (let st = st_xor_byte (st_q c) (ctx_pt c) 0x06;
          st = st_xor_byte st (ctx_rsiz c - 1) 0x80;
          st = sha3_keccakf st
      in (map (st_byte st) [0..<ctx_mdlen c], c\<lparr>st_q := st\<rparr>))"

definition sha3 :: "u8 list \<Rightarrow> nat \<Rightarrow> u8 list" where
  "sha3 inp mdlen = fst (sha3_final (sha3_update (sha3_init mdlen) inp))"

section \<open>Invariant and incremental hashing\<close>

definition sha3_wf :: "sha3_ctx_t \<Rightarrow> bool" where
  "sha3_wf c \<longleftrightarrow> length (st_q c) = 25 \<and> ctx_pt c < ctx_rsiz c \<and> ctx_rsiz c + 2 * ctx_mdlen c = 200"

lemma length_foldl_update:
  "(\<And>st i. length (f st i) = length st) \<Longrightarrow> length (foldl f st xs) = length st"
  by (induction xs arbitrary: st) auto

lemma length_keccak_theta: "length (keccak_theta st) = length st"
  unfolding keccak_theta_def Let_def by (intro length_foldl_update) simp

lemma length_keccak_chi: "length (keccak_chi st) = length st"
  unfolding keccak_chi_def Let_def by (intro length_foldl_update) simp

lemma length_keccak_rho_pi_aux:
  "length (fst (foldl (\<lambda>(st, t) i. (st[p i := g t i], st ! p i)) (st, t) xs)) = length st"
  by (induction xs arbitrary: st t) simp_all

lemma length_keccak_rho_pi: "length (keccak_rho_pi st) = length st"
  unfolding keccak_rho_pi_def Let_def by (rule length_keccak_rho_pi_aux)

lemma length_keccak_round [simp]: "length (keccak_round st r) = length st"
  by (simp add: keccak_round_def Let_def length_keccak_theta length_keccak_chi length_keccak_rho_pi)

lemma length_sha3_keccakf [simp]: "length (sha3_keccakf st) = length st"
  by (simp add: sha3_keccakf_def length_foldl_update)

lemma length_st_xor_byte [simp]: "length (st_xor_byte st j v) = length st"
  by (simp add: st_xor_byte_def)

lemma sha3_init_wf: "mdlen < 100 \<Longrightarrow> sha3_wf (sha3_init mdlen)"
  by (simp add: sha3_wf_def sha3_init_def)

lemma sha3_absorb_wf:
  "length st = 25 \<Longrightarrow> j < rsiz \<Longrightarrow>
   length (fst (sha3_absorb rsiz bs st j)) = 25 \<and> snd (sha3_absorb rsiz bs st j) < rsiz"
  by (induction rsiz bs st j rule: sha3_absorb.induct) (auto simp: Let_def)

lemma sha3_update_wf: "sha3_wf c \<Longrightarrow> sha3_wf (sha3_update c bs)"
  using sha3_absorb_wf [of "st_q c" "ctx_pt c" "ctx_rsiz c" bs]
  by (auto simp: sha3_wf_def sha3_update_def Let_def split: prod.splits)

lemma sha3_absorb_append:
  "sha3_absorb rsiz (xs @ ys) st j =
   (let (st, j) = sha3_absorb rsiz xs st j in sha3_absorb rsiz ys st j)"
  by (induction rsiz xs st j rule: sha3_absorb.induct) (auto simp: Let_def)

lemma sha3_update_append: "sha3_update (sha3_update c xs) ys = sha3_update c (xs @ ys)"
  by (auto simp: sha3_update_def sha3_absorb_append Let_def split: prod.splits)

lemma sha3_update_Nil: "sha3_update c [] = c"
  by (simp add: sha3_update_def)

interpretation sha3: incremental_hash "sha3_init n" sha3_update "\<lambda>c. fst (sha3_final c)" "\<lambda>msg. sha3 msg n" for n
  by unfold_locales (simp_all add: sha3_update_append sha3_update_Nil sha3_def)

section \<open>The sponge construction\<close>

text \<open>Absorbing a whole block, padding, and the hash of FIPS 202 for byte strings.\<close>

definition xor_block :: "u64 list \<Rightarrow> u8 list \<Rightarrow> u64 list" where
  "xor_block st blk = foldl (\<lambda>st (i, v). st_xor_byte st i v) st (enumerate 0 blk)"

definition sha3_pad :: "nat \<Rightarrow> u8 list \<Rightarrow> u8 list" where
  "sha3_pad r msg =
     (let k = r - length msg mod r in
      msg @ (if k = 1 then [0x86] else 0x06 # replicate (k - 2) 0 @ [0x80]))"

fun sponge_absorb :: "nat \<Rightarrow> nat \<Rightarrow> u8 list \<Rightarrow> u64 list \<Rightarrow> u64 list" where
  "sponge_absorb r 0 bs st = st"
| "sponge_absorb r (Suc n) bs st = sponge_absorb r n (drop r bs) (sha3_keccakf (xor_block st (take r bs)))"

definition sha3_sponge :: "u8 list \<Rightarrow> nat \<Rightarrow> u8 list" where
  "sha3_sponge msg mdlen =
     (let r = 200 - 2 * mdlen; p = sha3_pad r msg
      in map (st_byte (sponge_absorb r (length p div r) p (replicate 25 0))) [0..<mdlen])"

lemma xor_block_append:
  "foldl (\<lambda>st (i, v). st_xor_byte st i v) st (enumerate n (xs @ ys)) =
   foldl (\<lambda>st (i, v). st_xor_byte st i v)
     (foldl (\<lambda>st (i, v). st_xor_byte st i v) st (enumerate n xs)) (enumerate (n + length xs) ys)"
  by (simp add: enumerate_append_eq)

lemma sha3_absorb_partial:
  "j + length bs < rsiz \<Longrightarrow>
   sha3_absorb rsiz bs st j = (foldl (\<lambda>st (i, v). st_xor_byte st i v) st (enumerate j bs), j + length bs)"
  by (induction rsiz bs st j rule: sha3_absorb.induct) (auto simp: Let_def)

lemma sha3_absorb_block:
  assumes "length bs = r" and "0 < r"
  shows "sha3_absorb r (bs @ rest) st 0 = sha3_absorb r rest (sha3_keccakf (xor_block st bs)) 0"
proof -
  obtain ys y where bs: "bs = ys @ [y]" using assms by (cases bs rule: rev_cases) auto
  have "length ys < r" using assms bs by simp
  then have "sha3_absorb r ys st 0 =
      (foldl (\<lambda>st (i, v). st_xor_byte st i v) st (enumerate 0 ys), length ys)"
    using sha3_absorb_partial [of 0 ys r st] by simp
  moreover have "xor_block st bs =
      st_xor_byte (foldl (\<lambda>st (i, v). st_xor_byte st i v) st (enumerate 0 ys)) (length ys) y"
    by (simp add: xor_block_def bs enumerate_append_eq)
  ultimately show ?thesis using assms bs by (simp add: sha3_absorb_append)
qed

lemma sha3_absorb_blocks:
  assumes "0 < r" and "length bs = n * r"
  shows "sha3_absorb r (bs @ rest) st 0 = sha3_absorb r rest (sponge_absorb r n bs st) 0"
  using assms(2)
proof (induction n arbitrary: bs st)
  case 0
  then show ?case by simp
next
  case (Suc n)
  have "sha3_absorb r (take r bs @ (drop r bs @ rest)) st 0 =
      sha3_absorb r (drop r bs @ rest) (sha3_keccakf (xor_block st (take r bs))) 0"
    using Suc.prems assms(1) by (intro sha3_absorb_block) simp_all
  moreover have "take r bs @ (drop r bs @ rest) = bs @ rest" by (simp flip: append_assoc)
  ultimately have "sha3_absorb r (bs @ rest) st 0 =
      sha3_absorb r (drop r bs @ rest) (sha3_keccakf (xor_block st (take r bs))) 0" by simp
  then show ?case using Suc.IH [of "drop r bs"] Suc.prems by simp
qed

lemma sponge_absorb_append:
  assumes "length xs = m * r"
  shows "sponge_absorb r (m + n) (xs @ ys) st = sponge_absorb r n ys (sponge_absorb r m xs st)"
  using assms
proof (induction m arbitrary: xs st)
  case (Suc m)
  then have "r \<le> length xs" by simp
  then show ?case using Suc by simp
qed simp

lemma st_xor_byte_0 [simp]: "st_xor_byte st j 0 = st"
  by (simp add: st_xor_byte_def)

lemma st_xor_byte_xor:
  "j < 8 * length st \<Longrightarrow> st_xor_byte (st_xor_byte st j a) j b = st_xor_byte st j (a XOR b)"
  by (simp add: st_xor_byte_def unsigned_xor_eq push_bit_xor xor.assoc)

lemma foldl_xor_zeros:
  "foldl (\<lambda>st (i, v). st_xor_byte st i v) st (enumerate n (replicate m 0)) = st"
  by (induction m arbitrary: n) simp_all

lemma length_foldl_xor [simp]:
  "length (foldl (\<lambda>st (i, v). st_xor_byte st i v) st xs) = length st"
  by (induction xs arbitrary: st) auto

lemma xor_block_pad:
  assumes k: "k = length m2" "k < r" and r: "2 \<le> r" "r \<le> 200" and st: "length st = 25"
  shows "xor_block st (m2 @ (if r - k = 1 then [0x86] else 0x06 # replicate (r - k - 2) 0 @ [0x80])) =
    st_xor_byte (st_xor_byte (foldl (\<lambda>st (i, v). st_xor_byte st i v) st (enumerate 0 m2)) k 0x06) (r - 1) 0x80"
proof (cases "r - k = 1")
  case True
  then have "r - 1 = k" using k by simp
  then show ?thesis using True k r st
    by (simp add: xor_block_def enumerate_append_eq st_xor_byte_xor)
next
  case False
  have "r - Suc 0 = Suc (length m2 + (r - k - 2))" using False k by simp
  then show ?thesis using False k
    by (simp add: xor_block_def enumerate_append_eq foldl_xor_zeros)
qed

lemma sha3_eq_sponge:
  assumes "0 < mdlen" and "mdlen < 100"
  shows "sha3 msg mdlen = sha3_sponge msg mdlen"
proof -
  let ?F = "foldl (\<lambda>st (i, v). st_xor_byte st i v)"
  define r where "r = 200 - 2 * mdlen"
  define q where "q = length msg div r"
  define m1 where "m1 = take (q * r) msg"
  define m2 where "m2 = drop (q * r) msg"
  define P where "P = (if r - length m2 = 1 then [0x86 :: u8] else 0x06 # replicate (r - length m2 - 2) 0 @ [0x80])"
  have r: "2 \<le> r" "r \<le> 200" using assms by (simp_all add: r_def)
  have split: "msg = m1 @ m2" by (simp add: m1_def m2_def)
  have "q * r \<le> length msg" by (simp add: q_def)
  then have l1: "length m1 = q * r" by (simp add: m1_def)
  have l2: "length m2 = length msg mod r" by (simp add: m2_def q_def minus_div_mult_eq_mod)
  then have k: "length m2 < r" using r by simp
  define S where "S = sponge_absorb r q m1 (replicate 25 0)"
  have lS: "length S = 25"
  proof -
    have "length (sponge_absorb r n bs st) = length st" for n bs st
      by (induction n arbitrary: bs st) (simp_all add: xor_block_def)
    then show ?thesis by (simp add: S_def)
  qed
  have "sha3_absorb r msg (replicate 25 0) 0 = sha3_absorb r m2 S 0"
    unfolding split S_def using r l1 by (intro sha3_absorb_blocks) simp_all
  also have "\<dots> = (?F S (enumerate 0 m2), length m2)"
    using sha3_absorb_partial [of 0 m2 r S] k by simp
  finally have ab: "sha3_absorb r msg (replicate 25 0) 0 = (?F S (enumerate 0 m2), length m2)" .
  have pad: "sha3_pad r msg = m1 @ (m2 @ P)"
    by (simp add: sha3_pad_def Let_def P_def l2 split [symmetric] flip: append_assoc)
  have lP: "length (m2 @ P) = r" using k by (auto simp: P_def)
  then have "length (sha3_pad r msg) div r = q + 1" using r l1 by (simp add: pad)
  then have "sponge_absorb r (length (sha3_pad r msg) div r) (sha3_pad r msg) (replicate 25 0) =
      sha3_keccakf (xor_block S (m2 @ P))"
    using lP by (simp only: pad sponge_absorb_append [OF l1] S_def) simp
  also have "xor_block S (m2 @ P) =
      st_xor_byte (st_xor_byte (?F S (enumerate 0 m2)) (length m2) 0x06) (r - 1) 0x80"
    unfolding P_def by (rule xor_block_pad [OF refl k r lS])
  finally show ?thesis
    by (simp add: sha3_def sha3_sponge_def Let_def sha3_final_def sha3_update_def sha3_init_def ab
        r_def [symmetric])
qed

section \<open>The step mappings of FIPS 202\<close>

text \<open>
  The state as the lanes \<open>A[x, y]\<close>, the rotation offsets of FIPS 202 modulo 64, and the
  step mappings in these coordinates.
\<close>

definition lane :: "u64 list \<Rightarrow> nat \<Rightarrow> nat \<Rightarrow> u64" where
  "lane st x y = st ! (5 * y + x)"

definition rho_table :: "nat list" where
  "rho_table =
     [0, 1, 62, 28, 27, 36, 44, 6, 55, 20, 3, 10, 43, 25, 39, 41, 45, 15, 21, 8, 18, 2, 61, 56, 14]"

definition theta_spec :: "u64 list \<Rightarrow> nat \<Rightarrow> nat \<Rightarrow> u64" where
  "theta_spec st x y =
     (let C = (\<lambda>x. lane st x 0 XOR lane st x 1 XOR lane st x 2 XOR lane st x 3 XOR lane st x 4)
      in lane st x y XOR (C ((x + 4) mod 5) XOR ROTL64 (C ((x + 1) mod 5)) 1))"

definition rho_pi_spec :: "u64 list \<Rightarrow> nat \<Rightarrow> nat \<Rightarrow> u64" where
  "rho_pi_spec st x y =
     (let x' = (x + 3 * y) mod 5; y' = x in ROTL64 (lane st x' y') (rho_table ! (5 * y' + x')))"

definition chi_spec :: "u64 list \<Rightarrow> nat \<Rightarrow> nat \<Rightarrow> u64" where
  "chi_spec st x y = lane st x y XOR (NOT (lane st ((x + 1) mod 5) y) AND lane st ((x + 2) mod 5) y)"

lemma less_5_cases: "(x::nat) < 5 \<longleftrightarrow> x = 0 \<or> x = 1 \<or> x = 2 \<or> x = 3 \<or> x = 4"
  by auto

lemma upt_keccak:
  "[0..<5] = [0, 1, 2, 3, 4 :: nat]"
  "[0..<24] = [0, 1, 2, 3, 4, 5, 6, 7, 8, 9, 10, 11, 12, 13, 14, 15, 16, 17, 18, 19, 20, 21, 22, 23 :: nat]"
  by (simp_all add: upt_rec)

lemma ROTL64_0: "ROTL64 x 0 = x"
  unfolding ROTL64_def by (rule bit_word_eqI) (auto simp: bit_simps dest: bit_imp_le_length)

lemma theta_column:
  assumes "length st = 25" and "k < 25" and "i < 5"
  shows "foldl (\<lambda>st j. st[j + i := st ! (j + i) XOR t]) st [0, 5, 10, 15, 20] ! k =
    (if k mod 5 = i then st ! k XOR t else st ! k)"
proof -
  have "k mod 5 = i \<longleftrightarrow> k = i \<or> k = 5 + i \<or> k = 10 + i \<or> k = 15 + i \<or> k = 20 + i"
  proof -
    define q r where "q = k div 5" and "r = k mod 5"
    have k: "k = 5 * q + r" by (simp add: q_def r_def)
    have r: "r < 5" and q: "q < 5" using assms(2) by (simp_all add: q_def r_def)
    have "r = i \<longleftrightarrow> k = i \<or> k = 5 + i \<or> k = 10 + i \<or> k = 15 + i \<or> k = 20 + i"
      using q [unfolded less_5_cases] r assms(3) unfolding k by (elim disjE) auto
    then show ?thesis by (simp add: r_def)
  qed
  then show ?thesis using assms by (simp add: nth_list_update)
qed

lemma theta_columns:
  assumes "distinct is'" and "\<forall>i \<in> set is'. i < 5" and "length st = 25" and "k < 25"
  shows "foldl (\<lambda>st i. foldl (\<lambda>st j. st[j + i := st ! (j + i) XOR T i]) st [0, 5, 10, 15, 20]) st is' ! k =
    (if k mod 5 \<in> set is' then st ! k XOR T (k mod 5) else st ! k)"
  using assms
proof (induction is' arbitrary: st)
  case (Cons i ks)
  have "length (foldl (\<lambda>st j. st[j + i := st ! (j + i) XOR T i]) st [0, 5, 10, 15, 20]) = 25"
    using Cons.prems by simp
  with Cons.IH [OF _ _ this] Cons.prems theta_column [of st k i "T i"] show ?case
    by (simp del: foldl_Cons add: foldl_Cons [of _ _ i ks])
qed simp

lemma theta_lane:
  assumes "length st = 25" and "x < 5" and "y < 5"
  shows "lane (keccak_theta st) x y = theta_spec st x y"
proof -
  let ?bc = "map (\<lambda>i. st ! i XOR st ! (i + 5) XOR st ! (i + 10) XOR st ! (i + 15) XOR st ! (i + 20)) [0..<5]"
  have bc: "?bc ! i = lane st i 0 XOR lane st i 1 XOR lane st i 2 XOR lane st i 3 XOR lane st i 4"
    if "i < 5" for i using that by (simp add: lane_def add.commute)
  have k: "5 * y + x < 25" "(5 * y + x) mod 5 = x" using assms by simp_all
  show ?thesis
    using theta_columns [of "[0..<5]" st "5 * y + x"
        "\<lambda>i. ?bc ! ((i + 4) mod 5) XOR ROTL64 (?bc ! ((i + 1) mod 5)) 1"] assms k
    by (simp only: keccak_theta_def Let_def lane_def [of "foldl _ _ _"] theta_spec_def bc)
      (simp add: bc lane_def)
qed

lemma foldl_row:
  assumes "length st = 25" and "j \<in> {0, 5, 10, 15, 20}" and "k < 25"
  shows "foldl (\<lambda>st i. st[j + i := st ! (j + i) XOR T i]) st [0..<5] ! k =
    (if j \<le> k \<and> k < j + 5 then st ! k XOR T (k - j) else st ! k)"
proof -
  have "j \<le> k \<and> k < j + 5 \<longleftrightarrow> k = j \<or> k = j + 1 \<or> k = j + 2 \<or> k = j + 3 \<or> k = j + 4"
    by linarith
  then show ?thesis using assms unfolding upt_keccak by (auto simp: nth_list_update)
qed

lemma rho_pi_steps:
  assumes "length st = 25" and "n \<le> 24"
  defines "F \<equiv> (\<lambda>(st, t) i. (st[keccakf_piln ! i := ROTL64 t (keccakf_rotc ! i)], st ! (keccakf_piln ! i)))"
    and "src \<equiv> (\<lambda>i. if i = 0 then 1 else keccakf_piln ! (i - 1))"
  shows "length (fst (foldl F (st, st ! 1) [0..<n])) = 25 \<and>
    snd (foldl F (st, st ! 1) [0..<n]) = st ! src n \<and>
    (\<forall>i<n. fst (foldl F (st, st ! 1) [0..<n]) ! (keccakf_piln ! i) = ROTL64 (st ! src i) (keccakf_rotc ! i)) \<and>
    (\<forall>k. k \<notin> set (take n keccakf_piln) \<longrightarrow> fst (foldl F (st, st ! 1) [0..<n]) ! k = st ! k)"
  using assms(2)
proof (induction n)
  case 0
  then show ?case using assms(1) by (simp add: src_def)
next
  case (Suc n)
  obtain s t where st: "foldl F (st, st ! 1) [0..<n] = (s, t)" by force
  with Suc have IH: "length s = 25" "t = st ! src n"
    "\<And>i. i < n \<Longrightarrow> s ! (keccakf_piln ! i) = ROTL64 (st ! src i) (keccakf_rotc ! i)"
    "\<And>k. k \<notin> set (take n keccakf_piln) \<Longrightarrow> s ! k = st ! k" by auto
  have d: "distinct keccakf_piln" and l: "length keccakf_piln = 24" and b: "\<forall>j \<in> set keccakf_piln. j < 25"
    by (simp_all add: keccakf_piln_def)
  have n: "n < length keccakf_piln" using Suc.prems l by simp
  have bn: "keccakf_piln ! n < 25" using b n by simp
  have tk: "take (Suc n) keccakf_piln = take n keccakf_piln @ [keccakf_piln ! n]"
    using n by (simp add: take_Suc_conv_app_nth)
  have fresh: "keccakf_piln ! n \<notin> set (take n keccakf_piln)"
    using d n by (auto simp: in_set_conv_nth nth_eq_iff_index_eq)
  have ne: "keccakf_piln ! i \<noteq> keccakf_piln ! n" if "i < n" for i
    using d n that by (simp add: nth_eq_iff_index_eq)
  have step: "foldl F (st, st ! 1) [0..<Suc n] =
      (s[keccakf_piln ! n := ROTL64 t (keccakf_rotc ! n)], s ! (keccakf_piln ! n))"
    by (simp only: upt_Suc_append le0 foldl_append st foldl.simps) (simp add: F_def)
  show ?case
    unfolding step fst_conv snd_conv tk
  proof (intro conjI allI impI)
    fix i assume i: "i < Suc n"
    show "s[keccakf_piln ! n := ROTL64 t (keccakf_rotc ! n)] ! (keccakf_piln ! i) =
      ROTL64 (st ! src i) (keccakf_rotc ! i)"
      using i IH(1,2) IH(3) [of i] ne [of i] bn by (cases "i = n") auto
  qed (use IH(1) IH(4) [OF fresh] IH(4) in \<open>auto simp: src_def\<close>)
qed

lemma length_piln: "length keccakf_piln = 24"
  by (simp add: keccakf_piln_def)

lemma keccak_tables:
  assumes "i < 24"
  shows "(if i = 0 then 1 else keccakf_piln ! (i - 1)) =
      (let x = keccakf_piln ! i mod 5; y = keccakf_piln ! i div 5 in 5 * x + (x + 3 * y) mod 5) \<and>
    keccakf_rotc ! i = rho_table ! (if i = 0 then 1 else keccakf_piln ! (i - 1))"
proof -
  have "list_all (\<lambda>i. (if i = 0 then 1 else keccakf_piln ! (i - 1)) =
      (let x = keccakf_piln ! i mod 5; y = keccakf_piln ! i div 5 in 5 * x + (x + 3 * y) mod 5) \<and>
      keccakf_rotc ! i = rho_table ! (if i = 0 then 1 else keccakf_piln ! (i - 1))) [0..<24]"
    by code_simp
  then show ?thesis
    unfolding list_all_iff by (rule bspec) (use assms in simp)
qed

lemma rho_pi_lane:
  assumes st: "length st = 25" and xy: "x < 5" "y < 5"
  shows "lane (keccak_rho_pi st) x y = rho_pi_spec st x y"
proof -
  note steps = rho_pi_steps [OF st order.refl]
  show ?thesis
  proof (cases "x = 0 \<and> y = 0")
    case True
    have "0 \<notin> set (take 24 keccakf_piln)" by (simp add: keccakf_piln_def)
    moreover have "rho_table ! 0 = 0" by (simp add: rho_table_def)
    ultimately show ?thesis
      using steps True by (simp add: keccak_rho_pi_def Let_def lane_def rho_pi_spec_def ROTL64_0)
  next
    case False
    have "5 * y + x \<in> set keccakf_piln"
      using False xy unfolding less_5_cases by (elim disjE) (simp_all add: keccakf_piln_def)
    then obtain i where i: "i < 24" "keccakf_piln ! i = 5 * y + x"
      unfolding in_set_conv_nth by (auto simp: length_piln)
    then have "keccakf_piln ! i mod 5 = x" "keccakf_piln ! i div 5 = y" using xy by simp_all
    with keccak_tables [OF i(1)] have
      "(if i = 0 then 1 else keccakf_piln ! (i - 1)) = 5 * x + (x + 3 * y) mod 5"
      "keccakf_rotc ! i = rho_table ! (5 * x + (x + 3 * y) mod 5)"
      by (simp_all only: Let_def)
    moreover have "keccak_rho_pi st ! (keccakf_piln ! i) =
        ROTL64 (st ! (if i = 0 then 1 else keccakf_piln ! (i - 1))) (keccakf_rotc ! i)"
      using steps i(1) unfolding keccak_rho_pi_def Let_def by blast
    ultimately show ?thesis using i(2) by (simp only: lane_def rho_pi_spec_def Let_def)
  qed
qed

definition chi_row :: "nat \<Rightarrow> u64 list \<Rightarrow> u64 list" where
  "chi_row j st =
     (let bc = map (\<lambda>i. st ! (j + i)) [0..<5]
      in foldl (\<lambda>st i. st[j + i := st ! (j + i) XOR (NOT (bc ! ((i + 1) mod 5)) AND bc ! ((i + 2) mod 5))])
           st [0..<5])"

lemma chi_row_nth:
  assumes "length st = 25" and "j \<in> {0, 5, 10, 15, 20}" and "k < 25"
  shows "chi_row j st ! k =
    (if j \<le> k \<and> k < j + 5
     then st ! k XOR (NOT (st ! (j + (k - j + 1) mod 5)) AND st ! (j + (k - j + 2) mod 5)) else st ! k)"
  using foldl_row [OF assms, of "\<lambda>i. NOT (map (\<lambda>i. st ! (j + i)) [0..<5] ! ((i + 1) mod 5)) AND
      map (\<lambda>i. st ! (j + i)) [0..<5] ! ((i + 2) mod 5)"]
  unfolding chi_row_def Let_def by simp

lemma length_chi_row: "length (chi_row j st) = length st"
  unfolding chi_row_def Let_def by (rule length_foldl_update) simp

lemma keccak_chi_rows: "keccak_chi st = chi_row 20 (chi_row 15 (chi_row 10 (chi_row 5 (chi_row 0 st))))"
  by (simp add: keccak_chi_def chi_row_def)

lemma chi_lane:
  assumes "length st = 25" and "x < 5" and "y < 5"
  shows "lane (keccak_chi st) x y = chi_spec st x y"
proof -
  have m: "(x + 1) mod 5 < 5" "(x + 2) mod 5 < 5" by simp_all
  have "y = 0 \<or> y = 1 \<or> y = 2 \<or> y = 3 \<or> y = 4" using assms(3) by auto
  then show ?thesis
    using assms m unfolding keccak_chi_rows lane_def chi_spec_def
    by (elim disjE) (simp_all add: chi_row_nth length_chi_row)
qed

lemma round_lane:
  assumes "length st = 25" and "x < 5" and "y < 5"
  defines "s1 \<equiv> keccak_theta st"
  defines "s2 \<equiv> keccak_rho_pi s1"
  shows "lane s1 x y = theta_spec st x y" and "lane s2 x y = rho_pi_spec s1 x y"
    and "lane (keccak_round st r) x y =
      (if x = 0 \<and> y = 0 then chi_spec s2 x y XOR keccakf_rndc ! r else chi_spec s2 x y)"
proof -
  have l1: "length s1 = 25" using assms(1) by (simp add: s1_def length_keccak_theta)
  then have l2: "length s2 = 25" by (simp add: s2_def length_keccak_rho_pi)
  show "lane s1 x y = theta_spec st x y" unfolding s1_def by (rule theta_lane [OF assms(1-3)])
  show "lane s2 x y = rho_pi_spec s1 x y" unfolding s2_def by (rule rho_pi_lane [OF l1 assms(2,3)])
  show "lane (keccak_round st r) x y =
      (if x = 0 \<and> y = 0 then chi_spec s2 x y XOR keccakf_rndc ! r else chi_spec s2 x y)"
    using chi_lane [OF l2 assms(2,3)] l2 assms(2)
    by (auto simp: keccak_round_def Let_def lane_def nth_list_update length_keccak_chi
        s1_def [symmetric] s2_def [symmetric])
qed

section \<open>Properties of the hash\<close>

text \<open>
  C23. Hashing in pieces computes the sponge of FIPS 202. However a message is split over calls of
  \<open>sha3_update\<close>, \<open>sha3_final\<close> returns the first bytes of the sponge over the whole message, padded
  with the domain bits of SHA-3 and the bits 10*1.
\<close>

theorem sha3_computes_sponge:
  assumes "0 < mdlen" and "mdlen < 100"
  shows "fst (sha3_final (foldl sha3_update (sha3_init mdlen) parts)) = sha3_sponge (concat parts) mdlen"
  by (simp add: sha3.hash_pieces sha3_eq_sponge [OF assms])

theorem sha3_computes_sponge_witness:
  "fst (sha3_final (sha3_update (sha3_update (sha3_init 64) [1]) [2, 3])) = sha3_sponge [1, 2, 3] 64"
  using sha3_computes_sponge [of 64 "[[1], [2, 3]]"] by simp

text \<open>
  C24. A round of the permutation is the composition of the step mappings of FIPS 202. In lane
  coordinates, the loops over \<open>bc\<close> and the tables \<open>keccakf_piln\<close> and \<open>keccakf_rotc\<close> compute theta,
  then rho and pi, then chi, and iota on the lane (0, 0).
\<close>

theorem keccak_round_is_fips202:
  assumes "length st = 25" and "x < 5" and "y < 5"
  shows "lane (keccak_theta st) x y = theta_spec st x y \<and>
    lane (keccak_rho_pi (keccak_theta st)) x y = rho_pi_spec (keccak_theta st) x y \<and>
    lane (keccak_round st r) x y =
      (let v = chi_spec (keccak_rho_pi (keccak_theta st)) x y in if x = 0 \<and> y = 0 then v XOR keccakf_rndc ! r else v)"
  using round_lane [OF assms] by (simp add: Let_def)

theorem keccak_round_is_fips202_witness:
  "lane (keccak_round (replicate 25 1) 3) 0 0 = chi_spec (keccak_rho_pi (keccak_theta (replicate 25 1))) 0 0 XOR keccakf_rndc ! 3"
  using keccak_round_is_fips202 [of "replicate 25 1" 0 0 3] by simp

end
