(* ===== verification/Kdf.thy ===== *)
theory Kdf
  imports Sha3
begin

text \<open>
  HMAC with SHA3-512 (\<open>sm/src/hmac_sha3/hmac_sha3.c\<close>) and the key derivation built on it
  (\<open>sm/src/hkdf_sha3_512/hkdf_sha3_512.c\<close>). A buffer and its length are one list; the lengths
  are \<open>int\<close> in the source and non-negative. \<open>None\<close> is a loop that does not end.
\<close>

section \<open>HMAC\<close>

definition SHA3_512_BLOCK_LEN :: nat where [cfg_defs]: "SHA3_512_BLOCK_LEN = 72"
definition SHA3_512_HASH_LEN :: nat where [cfg_defs]: "SHA3_512_HASH_LEN = 64"

record hmac_sha3_ctx_t =
  hm_sha3_ctx :: sha3_ctx_t
  hm_key :: "u8 list"

definition prepare_key :: "u8 list \<Rightarrow> u8 list" where
  "prepare_key key =
     (let key' = (if length key > SHA3_512_BLOCK_LEN
                  then fst (sha3_final (sha3_update (sha3_init SHA3_512_HASH_LEN) key))
                  else key);
          key_len = (if length key > SHA3_512_BLOCK_LEN then SHA3_512_HASH_LEN else length key)
      in key' @ replicate (SHA3_512_BLOCK_LEN - key_len) 0)"

definition hmac_sha3_init :: "u8 list \<Rightarrow> hmac_sha3_ctx_t" where
  "hmac_sha3_init key =
     (let k = prepare_key key;
          temp_key = map (\<lambda>b. b XOR 0x36) k
      in \<lparr>hm_sha3_ctx = sha3_update (sha3_init SHA3_512_HASH_LEN) temp_key, hm_key = k\<rparr>)"

definition hmac_sha3_update :: "hmac_sha3_ctx_t \<Rightarrow> u8 list \<Rightarrow> hmac_sha3_ctx_t" where
  "hmac_sha3_update ctx msg =
     (if length msg > 0 then ctx\<lparr>hm_sha3_ctx := sha3_update (hm_sha3_ctx ctx) msg\<rparr> else ctx)"

definition hmac_sha3_final :: "hmac_sha3_ctx_t \<Rightarrow> u8 list" where
  "hmac_sha3_final ctx =
     (let inner_hash = fst (sha3_final (hm_sha3_ctx ctx));
          temp_key = map (\<lambda>b. b XOR 0x5C) (hm_key ctx);
          c = sha3_init SHA3_512_HASH_LEN;
          c = sha3_update c temp_key;
          c = sha3_update c inner_hash
      in fst (sha3_final c))"

definition hmac_sha3 :: "u8 list \<Rightarrow> u8 list \<Rightarrow> u8 list" where
  "hmac_sha3 key msg = hmac_sha3_final (hmac_sha3_update (hmac_sha3_init key) msg)"

section \<open>HKDF\<close>

definition div_ceil :: "nat \<Rightarrow> nat \<Rightarrow> nat" where
  "div_ceil op1 op2 = (if op1 mod op2 = 0 then op1 div op2 else op1 div op2 + 1)"

definition hkdf_extract :: "u8 list option \<Rightarrow> u8 list \<Rightarrow> u8 list" where
  "hkdf_extract salt ikm =
     (let salt = (case salt of None \<Rightarrow> replicate SHA3_512_HASH_LEN 0
                  | Some s \<Rightarrow> if length s = 0 then replicate SHA3_512_HASH_LEN 0 else s)
      in hmac_sha3 salt ikm)"

text \<open>
  The loop of \<open>hkdf_expand\<close>: its counter is an \<open>unsigned char\<close>, compared with the \<open>int\<close> \<open>n\<close>.
  \<open>t\<close> is the block of the previous iteration and \<open>okm\<close> the output buffer.
\<close>

partial_function (option) hkdf_loop ::
  "u8 list \<Rightarrow> u8 list \<Rightarrow> nat \<Rightarrow> nat \<Rightarrow> u8 \<Rightarrow> u8 list \<Rightarrow> u8 list \<Rightarrow> u8 list option" where
  "hkdf_loop prk info n okm_len i t okm =
     (if unat i \<le> n then
        let ctx = hmac_sha3_init prk;
            ctx = (if unat i > 1 then hmac_sha3_update ctx t else ctx);
            ctx = hmac_sha3_update ctx info;
            ctx = hmac_sha3_update ctx [i];
            t = hmac_sha3_final ctx;
            k = (if unat i < n then SHA3_512_HASH_LEN else okm_len - (unat i - 1) * SHA3_512_HASH_LEN);
            off = (unat i - 1) * SHA3_512_HASH_LEN;
            okm = take off okm @ take k t @ drop (off + k) okm
        in hkdf_loop prk info n okm_len (i + 1) t okm
      else Some okm)"

text \<open>Return value and output; \<open>okm\<close> is the buffer before the call, of length \<open>okm_len\<close>.\<close>

definition hkdf_expand :: "u8 list \<Rightarrow> u8 list \<Rightarrow> u8 list \<Rightarrow> (int \<times> u8 list) option" where
  "hkdf_expand prk info okm =
     (let okm_len = length okm; n = div_ceil okm_len SHA3_512_HASH_LEN in
      if length prk < SHA3_512_HASH_LEN then Some (- 1, okm)
      else if okm_len > 255 * SHA3_512_HASH_LEN then Some (- 1, okm)
      else map_option (Pair 0) (hkdf_loop prk info n okm_len 1 [] okm))"

definition hkdf_sha3_512 :: "u8 list option \<Rightarrow> u8 list \<Rightarrow> u8 list \<Rightarrow> u8 list \<Rightarrow> (int \<times> u8 list) option" where
  "hkdf_sha3_512 salt ikm info okm =
     (if length okm > 255 * SHA3_512_HASH_LEN then Some (- 1, okm)
      else hkdf_expand (hkdf_extract salt ikm) info okm)"

section \<open>HMAC is the RFC 2104 construction\<close>

lemma sha3_final_length [simp]: "length (fst (sha3_final c)) = ctx_mdlen c"
  by (simp add: sha3_final_def Let_def)

lemma sha3_update_mdlen [simp]: "ctx_mdlen (sha3_update c bs) = ctx_mdlen c"
  by (simp add: sha3_update_def Let_def split: prod.splits)

lemma sha3_init_mdlen [simp]: "ctx_mdlen (sha3_init n) = n"
  by (simp add: sha3_init_def)

lemma length_prepare_key: "length (prepare_key key) = 72"
  by (simp add: prepare_key_def Let_def cfg_defs)

lemma length_hmac_sha3_final: "length (hmac_sha3_final ctx) = 64"
  by (simp add: hmac_sha3_final_def Let_def cfg_defs)

lemma hmac_sha3_update_append:
  "hmac_sha3_update (hmac_sha3_update ctx xs) ys = hmac_sha3_update ctx (xs @ ys)"
  by (simp add: hmac_sha3_update_def sha3_update_append)

lemma hmac_sha3_eq:
  "hmac_sha3 key msg =
     (let k = prepare_key key
      in sha3 (map (\<lambda>b. b XOR 0x5C) k @ sha3 (map (\<lambda>b. b XOR 0x36) k @ msg) 64) 64)"
  by (cases msg)
    (simp_all add: hmac_sha3_def hmac_sha3_final_def hmac_sha3_update_def hmac_sha3_init_def sha3_def
      sha3_update_append Let_def cfg_defs)

section \<open>HKDF is the RFC 5869 construction\<close>

text \<open>The blocks \<open>T(1), T(2), ...\<close> of RFC 5869 and their concatenation.\<close>

fun hkdf_T :: "u8 list \<Rightarrow> u8 list \<Rightarrow> nat \<Rightarrow> u8 list" where
  "hkdf_T prk info 0 = []"
| "hkdf_T prk info (Suc i) = hmac_sha3 prk (hkdf_T prk info i @ info @ [of_nat (Suc i)])"

definition hkdf_okm :: "u8 list \<Rightarrow> u8 list \<Rightarrow> nat \<Rightarrow> u8 list" where
  "hkdf_okm prk info n = concat (map (hkdf_T prk info) [1..<Suc n])"

lemma length_hmac_sha3: "length (hmac_sha3 key msg) = 64"
  by (simp add: hmac_sha3_def length_hmac_sha3_final)

lemma length_hkdf_T: "0 < i \<Longrightarrow> length (hkdf_T prk info i) = 64"
  by (cases i) (simp_all add: length_hmac_sha3)

lemma length_hkdf_okm: "length (hkdf_okm prk info n) = 64 * n"
  by (induction n) (simp_all add: hkdf_okm_def length_hmac_sha3)

lemma hkdf_okm_Suc: "hkdf_okm prk info (Suc n) = hkdf_okm prk info n @ hkdf_T prk info (Suc n)"
  by (simp add: hkdf_okm_def)

lemma hkdf_step:
  "hmac_sha3_final (hmac_sha3_update (hmac_sha3_update
      (if 1 < Suc i then hmac_sha3_update (hmac_sha3_init prk) (hkdf_T prk info i) else hmac_sha3_init prk)
      info) [of_nat (Suc i)]) = hkdf_T prk info (Suc i)"
  by (cases i) (simp_all add: hmac_sha3_update_append hmac_sha3_def)

lemma div_ceil_bounds:
  assumes "n = div_ceil L 64"
  shows "L \<le> 64 * n" and "0 < n \<Longrightarrow> 64 * (n - 1) < L"
proof -
  show "L \<le> 64 * n" using assms by (auto simp: div_ceil_def split: if_splits)
  show "64 * (n - 1) < L" if "0 < n"
  proof (cases "L mod 64 = 0")
    case True
    then show ?thesis using assms that mult_div_mod_eq [of 64 L] by (simp add: div_ceil_def)
  next
    case False
    then show ?thesis using assms mult_div_mod_eq [of 64 L] by (simp add: div_ceil_def, linarith)
  qed
qed

lemma hkdf_loop_eq:
  assumes n: "n = div_ceil L 64" "n < 255" and m: "m \<le> n"
    and okm: "length okm = L" "take (64 * m) okm = take L (hkdf_okm prk info m)"
  shows "hkdf_loop prk info n L (of_nat (Suc m)) (hkdf_T prk info m) okm =
    Some (take L (hkdf_okm prk info n))"
  using m okm
proof (induction "n - m" arbitrary: m okm)
  case 0
  then have "m = n" by simp
  have "unat (of_nat (Suc n) :: u8) = Suc n"
    using n(2) by (subst unat_of_nat) simp
  moreover have "L \<le> 64 * n" using div_ceil_bounds(1) [OF n(1)] .
  ultimately show ?case
    using 0 \<open>m = n\<close> by (subst hkdf_loop.simps) simp
next
  case (Suc d)
  then have mn: "m < n" by simp
  have u: "unat (of_nat (Suc m) :: u8) = Suc m"
    using mn n(2) by (subst unat_of_nat) simp
  let ?T = "hkdf_T prk info (Suc m)"
  let ?k = "if Suc m < n then 64 else L - m * 64"
  let ?okm = "take (m * 64) okm @ take ?k ?T @ drop (m * 64 + ?k) okm"
  have L: "L \<le> 64 * n" "64 * (n - 1) < L"
    using div_ceil_bounds [OF n(1)] mn by simp_all
  have k: "?k \<le> 64" "m * 64 + ?k = min L (64 * Suc m)"
    using L mn by (auto simp: min_def)
  have step: "hkdf_loop prk info n L (of_nat (Suc m)) (hkdf_T prk info m) okm =
      hkdf_loop prk info n L (of_nat (Suc (Suc m))) ?T ?okm"
  proof -
    define i where "i = (of_nat (Suc m) :: u8)"
    have i: "unat i = Suc m" "i + 1 = of_nat (Suc (Suc m))" using u by (simp_all add: i_def)
    have "hmac_sha3_final (hmac_sha3_update (hmac_sha3_update
        (if 1 < Suc m then hmac_sha3_update (hmac_sha3_init prk) (hkdf_T prk info m)
         else hmac_sha3_init prk) info) [i]) = ?T"
      unfolding i_def by (rule hkdf_step)
    then show ?thesis
      unfolding i_def [symmetric] using mn
      by (subst hkdf_loop.simps) (simp only: i Let_def cfg_defs diff_Suc_1 Suc_le_eq if_True)
  qed
  have "length ?okm = L"
    using Suc.prems(2) mn L by (cases "Suc m < n") (auto simp: length_hmac_sha3 min_def)
  moreover have "take (64 * Suc m) ?okm = take L (hkdf_okm prk info (Suc m))"
  proof -
    have mL: "64 * m < L" using L mn by simp
    then have A: "take (m * 64) okm = hkdf_okm prk info m"
      using Suc.prems(3) by (simp add: length_hkdf_okm mult.commute)
    have T: "length ?T = 64" by (simp add: length_hmac_sha3)
    have "drop (m * 64 + ?k) okm = drop (min L (64 * Suc m)) okm" by (simp only: k(2))
    then have 1: "take (64 * Suc m) ?okm = hkdf_okm prk info m @ take ?k ?T"
      using A T k Suc.prems(2) mL by (cases "Suc m < n") (simp_all add: length_hkdf_okm del: hkdf_T.simps)
    have 2: "take ?k ?T = take (L - 64 * m) ?T"
      using L mn T by (auto simp del: hkdf_T.simps simp: mult.commute)
    have "hkdf_okm prk info m @ take ?k ?T = take L (hkdf_okm prk info (Suc m))"
      unfolding 2 hkdf_okm_Suc using mL by (simp add: length_hkdf_okm del: hkdf_T.simps)
    with 1 show ?thesis by (rule trans)
  qed
  moreover have "d = n - Suc m" "Suc m \<le> n" using Suc.hyps(2) mn by simp_all
  ultimately show ?case
    unfolding step by (intro Suc.hyps(1))
qed

lemma hkdf_expand_eq:
  assumes "64 \<le> length prk" and "length okm \<le> 254 * 64"
  shows "hkdf_expand prk info okm =
    Some (0, take (length okm) (hkdf_okm prk info (div_ceil (length okm) 64)))"
proof -
  have "div_ceil (length okm) 64 < 255" 
  proof (cases "length okm mod 64 = 0")
    case True
    then show ?thesis using assms(2) by (simp add: div_ceil_def)
  next
    case False
    then show ?thesis using assms(2) mult_div_mod_eq [of 64 "length okm"] by (simp add: div_ceil_def, linarith)
  qed
  then show ?thesis
    using hkdf_loop_eq [of "div_ceil (length okm) 64" "length okm" 0 okm prk info] assms
    by (simp add: hkdf_expand_def Let_def cfg_defs hkdf_okm_def)
qed

lemma hkdf_loop_diverges: "hkdf_loop prk info 255 L i t okm = None"
proof -
  have "n = 255 \<longrightarrow> False" if "hkdf_loop prk info n L i t okm = Some r" for prk info n L i t okm r
    using that
  proof (rule hkdf_loop.raw_induct [rotated])
    fix f :: "u8 list \<Rightarrow> u8 list \<Rightarrow> nat \<Rightarrow> nat \<Rightarrow> u8 \<Rightarrow> u8 list \<Rightarrow> u8 list \<Rightarrow> u8 list option"
      and prk info :: "u8 list" and n L :: nat and i :: u8 and t okm y :: "u8 list"
    assume IH: "\<And>prk info n L i t okm y. f prk info n L i t okm = Some y \<Longrightarrow> n = 255 \<longrightarrow> False"
      and eq: "(if unat i \<le> n then
        let ctx = hmac_sha3_init prk;
            ctx = (if unat i > 1 then hmac_sha3_update ctx t else ctx);
            ctx = hmac_sha3_update ctx info;
            ctx = hmac_sha3_update ctx [i];
            t = hmac_sha3_final ctx;
            k = (if unat i < n then SHA3_512_HASH_LEN else L - (unat i - 1) * SHA3_512_HASH_LEN);
            off = (unat i - 1) * SHA3_512_HASH_LEN;
            okm = take off okm @ take k t @ drop (off + k) okm
        in f prk info n L (i + 1) t okm
      else Some okm) = Some y"
    show "n = 255 \<longrightarrow> False"
    proof
      assume n: "n = 255"
      have "unat i < 2 ^ LENGTH(8)" by (rule unsigned_less)
      then have "unat i \<le> n" using n by simp
      with eq have "\<exists>t' okm'. f prk info n L (i + 1) t' okm' = Some y"
        by (simp only: if_True Let_def) blast
      with IH n show False by blast
    qed
  qed
  then show ?thesis by (metis option.exhaust)
qed

section \<open>Properties of the key derivation\<close>

definition hmac_rfc2104 :: "u8 list \<Rightarrow> u8 list \<Rightarrow> u8 list" where
  "hmac_rfc2104 key msg =
     (let k0 = (if length key > 72 then sha3 key 64 else key);
          k = k0 @ replicate (72 - length k0) 0
      in sha3 (map (\<lambda>b. b XOR 0x5C) k @ sha3 (map (\<lambda>b. b XOR 0x36) k @ msg) 64) 64)"

interpretation hmac: incremental_hash "hmac_sha3_init key" hmac_sha3_update hmac_sha3_final "hmac_sha3 key" for key
proof
  show "hmac_sha3_update c [] = c" for c by (simp add: hmac_sha3_update_def sha3_update_Nil)
qed (simp_all add: hmac_sha3_update_append hmac_sha3_def)

lemma hmac_is_rfc2104: "hmac_sha3 key msg = hmac_rfc2104 key msg"
  by (simp add: hmac_sha3_eq hmac_rfc2104_def prepare_key_def sha3_def Let_def cfg_defs)

text \<open>
  C25. The message authentication code is HMAC of RFC 2104 over SHA3-512, also when the message
  comes in several updates; a key longer than the block of 72 bytes is hashed first.
\<close>

theorem hmac_sha3_is_rfc2104:
  "hmac_sha3_final (foldl hmac_sha3_update (hmac_sha3_init key) parts) = hmac_rfc2104 key (concat parts)"
  by (simp add: hmac.hash_pieces hmac_is_rfc2104)

lemma hkdf_expand_diverges:
  assumes "64 \<le> length prk" and "254 * 64 < length okm" and "length okm \<le> 255 * 64"
  shows "hkdf_expand prk info okm = None"
proof -
  have "div_ceil (length okm) 64 = 255"
  proof -
    define q r where "q = length okm div 64" and "r = length okm mod 64"
    have "64 * q + r = length okm" "r < 64" by (simp_all add: q_def r_def)
    then have "q + (if r = 0 then 0 else 1) = 255" using assms(2,3) by (cases "r = 0") simp_all
    then show ?thesis by (auto simp: div_ceil_def q_def r_def split: if_splits)
  qed
  then show ?thesis using assms by (simp add: hkdf_expand_def Let_def cfg_defs hkdf_loop_diverges)
qed

lemma hkdf_sha3_512_eq:
  assumes "length okm \<le> 254 * 64"
  shows "hkdf_sha3_512 salt ikm info okm =
    Some (0, take (length okm) (hkdf_okm (hkdf_extract salt ikm) info (div_ceil (length okm) 64)))"
  using hkdf_expand_eq [of "hkdf_extract salt ikm" okm info] length_hmac_sha3 assms
  by (auto simp: hkdf_sha3_512_def hkdf_extract_def Let_def cfg_defs)


end
