(* ===== verification/SM_State.thy ===== *)
theory SM_State
  imports Thread Mprv Kdf
begin

text \<open>
  The state of the security monitor and what every other part of it uses: the enclave metadata
  of \<open>sm/src/enclave.h\<close>, the globals of \<open>enclave.c\<close>, \<open>sm.c\<close>, \<open>pmp.c\<close> and \<open>cpu.c\<close>, the wrappers
  of \<open>crypto.c\<close>, and the functions of \<open>sm.c\<close> that \<open>enclave.c\<close> calls. The globals are fields of a
  record, apart from the bytes of memory \<open>mem\<close>: a store to memory does not change them.
\<close>

section \<open>Enclave metadata\<close>

definition MDSIZE :: nat where [cfg_defs]: "MDSIZE = 64"
definition SIGNATURE_SIZE :: nat where [cfg_defs]: "SIGNATURE_SIZE = 64"
definition PRIVATE_KEY_SIZE :: nat where [cfg_defs]: "PRIVATE_KEY_SIZE = 64"
definition PUBLIC_KEY_SIZE :: nat where [cfg_defs]: "PUBLIC_KEY_SIZE = 32"
definition ATTEST_DATA_MAXLEN :: nat where [cfg_defs]: "ATTEST_DATA_MAXLEN = 1024"
definition MAX_ENCL_THREADS :: u32 where [cfg_defs]: "MAX_ENCL_THREADS = 1"
definition SEALING_KEY_SIZE :: nat where [cfg_defs]: "SEALING_KEY_SIZE = 128"

datatype enclave_state = INVALID | DESTROYING | ALLOCATED | FRESH | STOPPED | RUNNING

text \<open>The states are compared as the integers of the C enumeration.\<close>

fun state_code :: "enclave_state \<Rightarrow> int" where
  "state_code INVALID = - 1"
| "state_code DESTROYING = 0"
| "state_code ALLOCATED = 1"
| "state_code FRESH = 2"
| "state_code STOPPED = 3"
| "state_code RUNNING = 4"

lemma state_code_inject: "state_code a = state_code b \<longleftrightarrow> a = b"
  by (cases a; cases b) simp_all

instantiation enclave_state :: linorder
begin

definition less_eq_enclave_state :: "enclave_state \<Rightarrow> enclave_state \<Rightarrow> bool" where
  "less_eq_enclave_state a b \<longleftrightarrow> state_code a \<le> state_code b"

definition less_enclave_state :: "enclave_state \<Rightarrow> enclave_state \<Rightarrow> bool" where
  "less_enclave_state a b \<longleftrightarrow> state_code a < state_code b"

instance
  by standard (auto simp: less_eq_enclave_state_def less_enclave_state_def state_code_inject)

end

datatype enclave_region_type = REGION_INVALID | REGION_EPM | REGION_UTM | REGION_OTHER

record enclave_region =
  pmp_rid :: int
  er_type :: enclave_region_type

text \<open>
  \<open>struct enclave\<close>. \<open>threads\<close> has one element (\<open>MAX_ENCL_THREADS\<close>), and the platform's data
  \<open>ped\<close> is empty on the generic platform.
\<close>

record enclave =
  e_eid :: enclave_id
  encl_satp :: u64
  e_state :: enclave_state
  e_regions :: "enclave_region list"
  e_hash :: "u8 list"
  e_sign :: "u8 list"
  e_params :: runtime_params_t
  n_thread :: u32
  e_thread :: thread_state

section \<open>The monitor\<close>

record sm_state =
  pmp :: pmp_state
  enclaves :: "enclave list"
  cpus :: "nat \<Rightarrow> cpu_state"
  harts :: "nat \<Rightarrow> hart"
  memory :: mem
  sm_init_done :: bool
  sm_region_id :: int
  os_region_id :: int
  sm_hash :: "u8 list"
  sm_signature :: "u8 list"
  sm_public_key :: "u8 list"
  sm_private_key :: "u8 list"
  dev_public_key :: "u8 list"
  rng_w :: u64

text \<open>
  The circumstances of a call: the hart it runs on, the harts that OpenSBI forwards PMP updates
  to, the address translation of the caller, the address of the local structure that the
  handler passes by reference, the cycle counter, and the signature function
  \<open>ed25519_sign message public_key private_key\<close>.
\<close>

record sm_env =
  mhartid :: nat
  ipi_harts :: "nat list"
  xread :: translation
  xwrite :: translation
  frame :: u64
  rdcycle :: u64
  ed25519_sign :: "u8 list \<Rightarrow> u8 list \<Rightarrow> u8 list \<Rightarrow> u8 list"

definition upd_encl :: "enclave_id \<Rightarrow> (enclave \<Rightarrow> enclave) \<Rightarrow> sm_state \<Rightarrow> sm_state" where
  "upd_encl eid f s = s\<lparr>enclaves := (enclaves s)[unat eid := f (enclaves s ! unat eid)]\<rparr>"

definition upd_hart :: "nat \<Rightarrow> (hart \<Rightarrow> hart) \<Rightarrow> sm_state \<Rightarrow> sm_state" where
  "upd_hart h f s = s\<lparr>harts := (harts s)(h := f (harts s h))\<rparr>"

text \<open>\<open>pmp_set_keystone\<close> on the current hart, and the updates on every hart.\<close>

definition local_pmp_set :: "sm_env \<Rightarrow> int \<Rightarrow> u8 \<Rightarrow> sm_state \<Rightarrow> (u64 \<times> sm_state) option" where
  "local_pmp_set env rid perm s =
     map_option (\<lambda>(ret, c). (ret, upd_hart (mhartid env) (\<lambda>h. h\<lparr>h_pmp := c\<rparr>) s))
       (pmp_set_keystone rid perm (pmp s) (h_pmp (harts s (mhartid env))))"

definition put_pmps :: "(nat \<Rightarrow> pmp_csrs) \<Rightarrow> sm_state \<Rightarrow> sm_state" where
  "put_pmps cs s = s\<lparr>harts := (\<lambda>h. (harts s h)\<lparr>h_pmp := cs h\<rparr>)\<rparr>"

definition global_pmp_set :: "sm_env \<Rightarrow> int \<Rightarrow> u8 \<Rightarrow> sm_state \<Rightarrow> (u64 \<times> sm_state) option" where
  "global_pmp_set env rid perm s =
     map_option (\<lambda>(ret, cs). (ret, put_pmps cs s))
       (pmp_set_global (ipi_harts env) rid perm (pmp s) (\<lambda>h. h_pmp (harts s h)))"

definition global_pmp_unset :: "sm_env \<Rightarrow> int \<Rightarrow> sm_state \<Rightarrow> (u64 \<times> sm_state) option" where
  "global_pmp_unset env rid s =
     map_option (\<lambda>(ret, cs). (ret, put_pmps cs s))
       (pmp_unset_global (ipi_harts env) rid (pmp s) (\<lambda>h. h_pmp (harts s h)))"

definition free_region :: "int \<Rightarrow> sm_state \<Rightarrow> sm_state" where
  "free_region rid s = s\<lparr>pmp := snd (pmp_region_free_atomic rid (pmp s))\<rparr>"

section \<open>Crypto wrappers\<close>

definition hash_init :: sha3_ctx_t where
  "hash_init = sha3_init MDSIZE"

definition hash_extend :: "sha3_ctx_t \<Rightarrow> u8 list \<Rightarrow> sha3_ctx_t" where
  "hash_extend ctx bs = sha3_update ctx bs"

definition hash_extend_page :: "sha3_ctx_t \<Rightarrow> mem \<Rightarrow> u64 \<Rightarrow> sha3_ctx_t" where
  "hash_extend_page ctx m ptr = sha3_update ctx (mem_read m ptr (unat RISCV_PGSIZE))"

definition hash_finalize :: "sha3_ctx_t \<Rightarrow> u8 list" where
  "hash_finalize ctx = fst (sha3_final ctx)"

definition sign :: "sm_env \<Rightarrow> u8 list \<Rightarrow> u8 list \<Rightarrow> u8 list \<Rightarrow> u8 list" where
  "sign env data public_key private_key = ed25519_sign env data public_key private_key"

definition kdf :: "u8 list option \<Rightarrow> u8 list \<Rightarrow> u8 list \<Rightarrow> u8 list \<Rightarrow> (int \<times> u8 list) option" where
  "kdf salt ikm info okm = hkdf_sha3_512 salt ikm info okm"

section \<open>Functions of \<open>sm.c\<close> used by the enclave operations\<close>

definition osm_pmp_set :: "sm_env \<Rightarrow> u8 \<Rightarrow> sm_state \<Rightarrow> (u64 \<times> sm_state) option" where
  "osm_pmp_set env perm s = local_pmp_set env (os_region_id s) perm s"

definition sm_sign :: "sm_env \<Rightarrow> u8 list \<Rightarrow> sm_state \<Rightarrow> u8 list" where
  "sm_sign env data s = sign env data (sm_public_key s) (sm_private_key s)"

definition sm_derive_sealing_key ::
  "u8 list \<Rightarrow> u8 list \<Rightarrow> u8 list \<Rightarrow> sm_state \<Rightarrow> (int \<times> u8 list) option" where
  "sm_derive_sealing_key key key_ident enclave_hash s =
     (let info = take MDSIZE enclave_hash @ key_ident
      in kdf None (sm_private_key s) info key)"

section \<open>Hooks of the generic platform\<close>

definition platform_init_enclave :: "enclave \<Rightarrow> enclave" where
  "platform_init_enclave e = e"

definition platform_destroy_enclave :: "enclave \<Rightarrow> enclave" where
  "platform_destroy_enclave e = e"

definition platform_create_enclave :: "enclave \<Rightarrow> u64 \<times> enclave" where
  "platform_create_enclave e = (SBI_ERR_SM_ENCLAVE_SUCCESS, e)"

definition platform_switch_to_enclave :: "enclave \<Rightarrow> enclave" where
  "platform_switch_to_enclave e = e"

definition platform_switch_from_enclave :: "enclave \<Rightarrow> enclave" where
  "platform_switch_from_enclave e = e"

lemmas platform_hooks =
  platform_init_enclave_def platform_destroy_enclave_def platform_create_enclave_def
  platform_switch_to_enclave_def platform_switch_from_enclave_def

lemma upd_encl_id [simp]: "upd_encl eid (\<lambda>e. e) s = s"
  by (simp add: upd_encl_def)

end
