(* ===== verification/Attest.thy ===== *)
theory Attest
  imports SM_State PMP_Hardware
begin

text \<open>
  The measurement of an enclave (\<open>sm/src/attest.c\<close>): the hash of the three section sizes and of
  the pages of the loader, the runtime and the application.
\<close>

section \<open>Definitions\<close>

text \<open>A loop \<open>for (page = a; page < e; page += RISCV_PGSIZE)\<close>; its address may wrap around.\<close>

partial_function (option) hash_pages :: "mem \<Rightarrow> u64 \<Rightarrow> u64 \<Rightarrow> sha3_ctx_t \<Rightarrow> sha3_ctx_t option" where
  "hash_pages m page e ctx =
     (if page < e then hash_pages m (page + RISCV_PGSIZE) e (hash_extend_page ctx m page)
      else Some ctx)"

definition validate_and_hash_epm :: "mem \<Rightarrow> runtime_params_t \<Rightarrow> sha3_ctx_t \<Rightarrow> (int \<times> sha3_ctx_t) option" where
  "validate_and_hash_epm m params ctx =
     (let loader = dram_base params;
          runtime = runtime_base params;
          eapp = user_base params;
          free = free_base params;
          ctx = hash_extend ctx
                  (word_bytes (runtime - loader) @ word_bytes (eapp - runtime) @ word_bytes (free - eapp))
      in do {
        ctx \<leftarrow> hash_pages m loader runtime ctx;
        ctx \<leftarrow> hash_pages m runtime eapp ctx;
        ctx \<leftarrow> hash_pages m eapp free ctx;
        Some (0, ctx) })"

definition validate_and_hash_enclave :: "mem \<Rightarrow> enclave \<Rightarrow> (u64 \<times> enclave) option" where
  "validate_and_hash_enclave m encl = do {
     (valid, ctx) \<leftarrow> validate_and_hash_epm m (e_params encl) hash_init;
     if valid = - 1 then Some (SBI_ERR_SM_ENCLAVE_ILLEGAL_PTE, encl)
     else Some (SBI_ERR_SM_ENCLAVE_SUCCESS, encl\<lparr>e_hash := hash_finalize ctx\<rparr>) }"

section \<open>What is measured\<close>

text \<open>
  The loop hashes whole pages from \<open>a\<close> on until it reaches \<open>e\<close>, and it ends if the last page
  before \<open>e\<close> does not wrap around.
\<close>

lemma hash_pages_mult:
  assumes "unat e \<le> 2 ^ 64 - 4096" and "unat a + 4096 * n < unat e + 4096" and "unat e \<le> unat a + 4096 * n"
  shows "hash_pages m a e ctx = Some (sha3_update ctx (mem_read m a (4096 * n)))"
  using assms(2,3)
proof (induction n arbitrary: a ctx)
  case 0
  then have "\<not> a < e" by (simp add: word_less_nat_alt)
  then show ?case by (subst hash_pages.simps) (simp add: sha3_update_Nil)
next
  case (Suc n)
  have lt: "a < e" using Suc.prems by (simp add: word_less_nat_alt)
  have "unat a < unat e" using lt by (simp add: word_less_nat_alt)
  then have na: "unat (a + 4096) = unat a + 4096"
    using assms(1) by (subst unat_add_small) simp_all
  have ih: "hash_pages m (a + 4096) e c = Some (sha3_update c (mem_read m (a + 4096) (4096 * n)))" for c
    using Suc.prems by (intro Suc.IH) (simp_all add: na)
  have rd: "mem_read m a (4096 * Suc n) = mem_read m a 4096 @ mem_read m (a + 4096) (4096 * n)"
    using mem_read_add [of m a 4096 "4096 * n"] by (simp add: add.commute)
  have "hash_pages m a e ctx = hash_pages m (a + 4096) e (sha3_update ctx (mem_read m a 4096))"
    using lt by (subst hash_pages.simps) (simp add: hash_extend_page_def RISCV_PGSIZE_def)
  then show ?case unfolding ih rd sha3_update_append .
qed

definition page_bytes :: "mem \<Rightarrow> u64 \<Rightarrow> u64 \<Rightarrow> u8 list" where
  "page_bytes m a e = mem_read m a (4096 * div_ceil (unat e - unat a) 4096)"

lemma hash_pages_eq:
  assumes "a \<le> e" and "unat e \<le> 2 ^ 64 - 4096"
  shows "hash_pages m a e ctx = Some (sha3_update ctx (page_bytes m a e))"
proof -
  have le: "unat a \<le> unat e" using assms(1) by (simp add: word_le_nat_alt)
  have "x \<le> 4096 * div_ceil x 4096 \<and> 4096 * div_ceil x 4096 < x + 4096" for x :: nat
    using mult_div_mod_eq [of 4096 x] mod_less_divisor [of 4096 x] unfolding div_ceil_def by (simp, linarith)
  from this [of "unat e - unat a"] le show ?thesis unfolding page_bytes_def using assms(2)
    by (intro hash_pages_mult) linarith+
qed

text \<open>The measurement, for sections in order below the last page of the address space.\<close>

definition params_ordered :: "runtime_params_t \<Rightarrow> bool" where
  "params_ordered p \<longleftrightarrow>
     dram_base p \<le> runtime_base p \<and> runtime_base p \<le> user_base p \<and> user_base p \<le> free_base p \<and>
     unat (free_base p) \<le> 2 ^ 64 - 4096"

definition measured :: "mem \<Rightarrow> runtime_params_t \<Rightarrow> u8 list" where
  "measured m p =
     word_bytes (runtime_base p - dram_base p) @ word_bytes (user_base p - runtime_base p) @
     word_bytes (free_base p - user_base p) @
     page_bytes m (dram_base p) (runtime_base p) @ page_bytes m (runtime_base p) (user_base p) @
     page_bytes m (user_base p) (free_base p)"

lemma validate_and_hash_enclave_eq:
  assumes "params_ordered (e_params e)"
  shows "validate_and_hash_enclave m e =
    Some (SBI_ERR_SM_ENCLAVE_SUCCESS, e\<lparr>e_hash := sha3 (measured m (e_params e)) MDSIZE\<rparr>)"
proof -
  let ?p = "e_params e"
  have o: "dram_base ?p \<le> runtime_base ?p" "runtime_base ?p \<le> user_base ?p" "user_base ?p \<le> free_base ?p"
    and b: "unat (free_base ?p) \<le> 2 ^ 64 - 4096"
    using assms by (simp_all add: params_ordered_def)
  have b2: "unat (user_base ?p) \<le> 2 ^ 64 - 4096" using o(3) b unfolding word_le_nat_alt by (rule le_trans)
  have b1: "unat (runtime_base ?p) \<le> 2 ^ 64 - 4096" using o(2) b2 unfolding word_le_nat_alt by (rule le_trans)
  show ?thesis
    unfolding validate_and_hash_enclave_def validate_and_hash_epm_def Let_def
    by (simp add: hash_pages_eq [OF o(1) b1] hash_pages_eq [OF o(2) b2] hash_pages_eq [OF o(3) b]
        hash_init_def hash_extend_def hash_finalize_def sha3_update_append sha3_def measured_def)
qed

text \<open>With page-aligned sections the pages are exactly the bytes from the loader to the free memory.\<close>

lemma div_ceil_exact: "n mod 4096 = 0 \<Longrightarrow> 4096 * div_ceil n 4096 = n"
  using mult_div_mod_eq [of 4096 n] unfolding div_ceil_def by simp

lemma measured_aligned:
  assumes o: "params_ordered p" and al: "page_aligned (dram_base p)" "page_aligned (runtime_base p)"
    "page_aligned (user_base p)" "page_aligned (free_base p)"
  shows "measured m p =
     word_bytes (runtime_base p - dram_base p) @ word_bytes (user_base p - runtime_base p) @
     word_bytes (free_base p - user_base p) @ mem_read m (dram_base p) (unat (free_base p) - unat (dram_base p))"
proof -
  have le: "unat (dram_base p) \<le> unat (runtime_base p)" "unat (runtime_base p) \<le> unat (user_base p)"
    "unat (user_base p) \<le> unat (free_base p)"
    using o by (simp_all add: params_ordered_def word_le_nat_alt)
  have pb: "page_bytes m a e = mem_read m a (unat e - unat a)" if "page_aligned a" "page_aligned e" for a e
    using that unfolding page_bytes_def page_aligned_iff
    by (subst div_ceil_exact) (auto simp: mod_eq_0_iff_dvd intro: dvd_diff_nat)
  have sum: "mem_read m a (unat b - unat a) @ mem_read m b (unat c - unat b) = mem_read m a (unat c - unat a)"
    if "unat a \<le> unat b" "unat b \<le> unat c" for a b c :: u64
  proof -
    have b: "b = a + of_nat (unat b - unat a)" using that(1) by (simp add: of_nat_diff)
    have "unat c - unat a = (unat b - unat a) + (unat c - unat b)" using that by simp
    then show ?thesis using mem_read_add [of m a "unat b - unat a" "unat c - unat b"] b by metis
  qed
  show ?thesis unfolding measured_def
    using le by (simp add: pb al sum)
qed

section \<open>Properties of the measurement\<close>

text \<open>
  C22. The measurement of an enclave is the SHA-3 hash of its section sizes followed by the pages of
  its sections; with page-aligned sections these are exactly the bytes from the loader to the free
  memory. It always succeeds: the error branch is never taken. (A section that does not end on a
  page boundary is hashed to the end of its last page.)
\<close>

theorem measurement_of_enclave:
  assumes o: "params_ordered (e_params e)"
  shows "validate_and_hash_enclave m e =
      Some (SBI_ERR_SM_ENCLAVE_SUCCESS, e\<lparr>e_hash := sha3 (measured m (e_params e)) MDSIZE\<rparr>) \<and>
    (page_aligned (dram_base (e_params e)) \<and> page_aligned (runtime_base (e_params e)) \<and>
     page_aligned (user_base (e_params e)) \<and> page_aligned (free_base (e_params e)) \<longrightarrow>
     measured m (e_params e) =
       word_bytes (runtime_base (e_params e) - dram_base (e_params e)) @
       word_bytes (user_base (e_params e) - runtime_base (e_params e)) @
       word_bytes (free_base (e_params e) - user_base (e_params e)) @
       mem_read m (dram_base (e_params e)) (unat (free_base (e_params e)) - unat (dram_base (e_params e))))"
  using validate_and_hash_enclave_eq [OF o] measured_aligned [OF o] by simp

theorem measurement_of_enclave_witness:
  "let p = \<lparr>dram_base = 0x90000000, dram_size = 0x4000, runtime_base = 0x90001000, user_base = 0x90002000,
              free_base = 0x90003000, untrusted_base = 0, untrusted_size = 0, free_requested = 0\<rparr>;
       e = \<lparr>e_eid = 0, encl_satp = 0, e_state = FRESH, e_regions = [], e_hash = [], e_sign = [], e_params = p,
              n_thread = 0, e_thread = thread_zero\<rparr>
   in validate_and_hash_enclave (\<lambda>_. 1) e =
        Some (0, e\<lparr>e_hash := sha3 (word_bytes 0x1000 @ word_bytes 0x1000 @ word_bytes 0x1000 @ mem_read (\<lambda>_. 1) 0x90000000 12288) 64\<rparr>)"
proof -
  define p where "p = \<lparr>dram_base = 0x90000000, dram_size = 0x4000, runtime_base = 0x90001000, user_base = 0x90002000,
              free_base = 0x90003000, untrusted_base = 0, untrusted_size = 0, free_requested = 0\<rparr>"
  define e where "e = \<lparr>e_eid = 0, encl_satp = 0, e_state = FRESH, e_regions = [], e_hash = [], e_sign = [], e_params = p,
              n_thread = 0, e_thread = thread_zero\<rparr>"
  have e: "e_params e = p" by (simp add: e_def)
  have f: "dram_base p = 0x90000000" "runtime_base p = 0x90001000" "user_base p = 0x90002000" "free_base p = 0x90003000"
    by (simp_all add: p_def)
  have o: "params_ordered (e_params e)" by (simp add: params_ordered_def e f)
  have al: "page_aligned (0x90000000 :: u64)" "page_aligned (0x90001000 :: u64)" "page_aligned (0x90002000 :: u64)" "page_aligned (0x90003000 :: u64)"
    by (simp_all add: page_aligned_iff)
  have "validate_and_hash_enclave (\<lambda>_. 1) e =
        Some (0, e\<lparr>e_hash := sha3 (word_bytes 0x1000 @ word_bytes 0x1000 @ word_bytes 0x1000 @ mem_read (\<lambda>_. 1) 0x90000000 12288) 64\<rparr>)"
    using measurement_of_enclave [OF o, of "\<lambda>_. 1"] by (simp add: e f al err_codes cfg_defs)
  then show ?thesis unfolding p_def [symmetric] e_def [symmetric] Let_def .
qed

end
