(* ===== verification/Enclave.thy ===== *)
theory Enclave
  imports Attest
begin

text \<open>
  The enclave operations (\<open>sm/src/enclave.c\<close>). An operation takes the circumstances of the call
  and the monitor's state and returns its result and the new state; \<open>None\<close> means that the hart
  hangs in a failed assertion or a loop. The lock \<open>encl_lock\<close> is free between operations, so
  taking and releasing it changes nothing here.
\<close>

section \<open>Context switches\<close>

text \<open>\<open>ENCLAVE_EXISTS\<close>; the identifiers are unsigned.\<close>

definition ENCLAVE_EXISTS :: "enclave_id \<Rightarrow> sm_state \<Rightarrow> bool" where
  "ENCLAVE_EXISTS eid s \<longleftrightarrow> unat eid < ENCL_MAX \<and> e_state (enclaves s ! unat eid) \<ge> DESTROYING"

text \<open>The loop over an enclave's regions that sets their permissions on the current hart.\<close>

fun set_regions_perm :: "sm_env \<Rightarrow> u8 \<Rightarrow> enclave_region list \<Rightarrow> sm_state \<Rightarrow> sm_state option" where
  "set_regions_perm env perm [] s = Some s"
| "set_regions_perm env perm (r # rs) s =
     (if er_type r \<noteq> REGION_INVALID
      then do { (ret, s) \<leftarrow> local_pmp_set env (pmp_rid r) perm s; set_regions_perm env perm rs s }
      else set_regions_perm env perm rs s)"

text \<open>The three swaps that exchange the saved context of an enclave's thread with the hart's.\<close>

definition swap_context ::
  "sm_env \<Rightarrow> sbi_trap_regs \<Rightarrow> enclave_id \<Rightarrow> bool \<Rightarrow> sm_state \<Rightarrow> sbi_trap_regs \<times> sm_state" where
  "swap_context env regs eid return_on_resume s =
     (let thread = e_thread (enclaves s ! unat eid);
          (thread, regs, c) = swap_prev_state thread regs return_on_resume (h_csrs (harts s (mhartid env)));
          (thread, regs) = swap_prev_mepc thread regs (mepc regs);
          (thread, regs) = swap_prev_mstatus thread regs (mstatus regs)
      in (regs, upd_hart (mhartid env) (\<lambda>h. h\<lparr>h_csrs := c\<rparr>)
                  (upd_encl eid (\<lambda>e. e\<lparr>e_thread := thread\<rparr>) s)))"

definition load_params :: "runtime_params_t \<Rightarrow> sbi_trap_regs \<Rightarrow> sbi_trap_regs" where
  "load_params params regs =
     regs\<lparr>mepc := dram_base params - 4,
          mstatus := push_bit MSTATUS_MPP_SHIFT 1,
          gprs := (gprs regs)[REG_A1 := dram_base params, REG_A2 := dram_size params,
            REG_A3 := runtime_base params, REG_A4 := user_base params, REG_A5 := free_base params,
            REG_A6 := untrusted_base params, REG_A7 := untrusted_size params]\<rparr>"

definition context_switch_to_enclave ::
  "sm_env \<Rightarrow> sbi_trap_regs \<Rightarrow> enclave_id \<Rightarrow> bool \<Rightarrow> sm_state \<Rightarrow> (sbi_trap_regs \<times> sm_state) option" where
  "context_switch_to_enclave env regs eid load_parameters s =
     (let hart = mhartid env;
          (regs, s) = swap_context env regs eid True s;
          s = upd_hart hart (\<lambda>h. h\<lparr>mideleg := 0\<rparr>) s;
          (regs, s) =
            (if load_parameters
             then (load_params (e_params (enclaves s ! unat eid)) regs,
                   upd_hart hart (\<lambda>h. h\<lparr>h_csrs := (h_csrs h)\<lparr>satp := 0\<rparr>\<rparr>) s)
             else (regs, s));
          s = upd_hart hart switch_vector_enclave s
      in do {
        (ret, s) \<leftarrow> osm_pmp_set env PMP_NO_PERM s;
        s \<leftarrow> set_regions_perm env PMP_ALL_PERM (e_regions (enclaves s ! unat eid)) s;
        let s = upd_encl eid platform_switch_to_enclave s;
        let s = s\<lparr>cpus := cpu_enter_enclave_context hart eid (cpus s)\<rparr>;
        Some (regs, s) })"

text \<open>Interrupts that arrived while the enclave ran are passed on to the supervisor.\<close>

definition forward_pending :: "u64 \<Rightarrow> u64 \<Rightarrow> u64 \<Rightarrow> u64 \<Rightarrow> u64" where
  "forward_pending pending mbit sbit v = (if pending AND mbit \<noteq> 0 then (v AND NOT mbit) OR sbit else v)"

definition context_switch_to_host ::
  "sm_env \<Rightarrow> sbi_trap_regs \<Rightarrow> enclave_id \<Rightarrow> bool \<Rightarrow> sm_state \<Rightarrow> (sbi_trap_regs \<times> sm_state) option" where
  "context_switch_to_host env regs eid return_on_resume s =
     (let hart = mhartid env in do {
        s \<leftarrow> set_regions_perm env PMP_NO_PERM (e_regions (enclaves s ! unat eid)) s;
        (ret, s) \<leftarrow> osm_pmp_set env PMP_ALL_PERM s;
        let s = upd_hart hart (\<lambda>h. h\<lparr>mideleg := MIP_SSIP OR MIP_STIP OR MIP_SEIP\<rparr>) s;
        let (regs, s) = swap_context env regs eid return_on_resume s;
        let s = upd_hart hart switch_vector_host s;
        let pending = mip (harts s hart);
        let s = upd_hart hart (\<lambda>h. h\<lparr>mip := forward_pending pending MIP_MTIP MIP_STIP (mip h)\<rparr>) s;
        let s = upd_hart hart (\<lambda>h. h\<lparr>mip := forward_pending pending MIP_MSIP MIP_SSIP (mip h)\<rparr>) s;
        let s = upd_hart hart (\<lambda>h. h\<lparr>mip := forward_pending pending MIP_MEIP MIP_SEIP (mip h)\<rparr>) s;
        let s = upd_encl eid platform_switch_from_enclave s;
        let s = s\<lparr>cpus := cpu_exit_enclave_context hart (cpus s)\<rparr>;
        Some (regs, s) })"

section \<open>Metadata\<close>

definition clear_regions :: "enclave_region list \<Rightarrow> enclave_region list" where
  "clear_regions rs = map (\<lambda>r. r\<lparr>er_type := REGION_INVALID\<rparr>) rs"

definition enclave_init_metadata :: "sm_state \<Rightarrow> sm_state" where
  "enclave_init_metadata s =
     s\<lparr>enclaves := map (\<lambda>e. platform_init_enclave
         (e\<lparr>e_state := INVALID, e_regions := clear_regions (e_regions e)\<rparr>)) (enclaves s)\<rparr>"

definition clean_enclave_memory :: "u64 \<Rightarrow> u64 \<Rightarrow> sm_state \<Rightarrow> sm_state" where
  "clean_enclave_memory utbase utsize s = s\<lparr>memory := mem_set utbase 0 utsize (memory s)\<rparr>"

definition encl_alloc_eid :: "sm_state \<Rightarrow> u64 \<times> enclave_id \<times> sm_state" where
  "encl_alloc_eid s =
     (case find (\<lambda>i. e_state (enclaves s ! i) = INVALID) [0..<ENCL_MAX] of
        Some i \<Rightarrow> (SBI_ERR_SM_ENCLAVE_SUCCESS, of_nat i,
                   upd_encl (of_nat i) (\<lambda>e. e\<lparr>e_state := ALLOCATED\<rparr>) s)
      | None \<Rightarrow> (SBI_ERR_SM_ENCLAVE_NO_FREE_RESOURCE, 0, s))"

definition encl_free_eid :: "enclave_id \<Rightarrow> sm_state \<Rightarrow> sm_state" where
  "encl_free_eid eid s = upd_encl eid (\<lambda>e. e\<lparr>e_state := INVALID\<rparr>) s"

definition get_enclave_region_index :: "enclave_id \<Rightarrow> enclave_region_type \<Rightarrow> sm_state \<Rightarrow> int" where
  "get_enclave_region_index eid typ s =
     (case find (\<lambda>i. er_type (e_regions (enclaves s ! unat eid) ! i) = typ) [0..<ENCLAVE_REGIONS_MAX] of
        Some i \<Rightarrow> int i | None \<Rightarrow> - 1)"

definition get_enclave_region_size :: "enclave_id \<Rightarrow> int \<Rightarrow> sm_state \<Rightarrow> u64" where
  "get_enclave_region_size eid memid s =
     (if 0 \<le> memid \<and> memid < int ENCLAVE_REGIONS_MAX
      then pmp_region_get_size (pmp s) (pmp_rid (e_regions (enclaves s ! unat eid) ! nat memid)) else 0)"

definition get_enclave_region_base :: "enclave_id \<Rightarrow> int \<Rightarrow> sm_state \<Rightarrow> u64" where
  "get_enclave_region_base eid memid s =
     (if 0 \<le> memid \<and> memid < int ENCLAVE_REGIONS_MAX
      then pmp_region_get_addr (pmp s) (pmp_rid (e_regions (enclaves s ! unat eid) ! nat memid)) else 0)"

section \<open>Copies\<close>

definition sizeof_create_args :: nat where "sizeof_create_args = 64"

definition copy_enclave_create_args :: "sm_env \<Rightarrow> u64 \<Rightarrow> u64 \<Rightarrow> sm_state \<Rightarrow> u64 \<times> sm_state" where
  "copy_enclave_create_args env src dest s =
     (case copy_to_sm (xread env) dest src sizeof_create_args (memory s) of
        (region_overlap, m) \<Rightarrow>
          (if region_overlap \<noteq> 0 then SBI_ERR_SM_ENCLAVE_REGION_OVERLAPS
           else SBI_ERR_SM_ENCLAVE_SUCCESS, s\<lparr>memory := m\<rparr>))"

definition copy_enclave_data :: "sm_env \<Rightarrow> u64 \<Rightarrow> u64 \<Rightarrow> nat \<Rightarrow> sm_state \<Rightarrow> u64 \<times> sm_state" where
  "copy_enclave_data env dest source sz s =
     (case copy_to_sm (xread env) dest source sz (memory s) of
        (illegal, m) \<Rightarrow>
          (if illegal \<noteq> 0 then SBI_ERR_SM_ENCLAVE_ILLEGAL_ARGUMENT
           else SBI_ERR_SM_ENCLAVE_SUCCESS, s\<lparr>memory := m\<rparr>))"

text \<open>
  The layout of \<open>struct report\<close>: the enclave's hash, the length of its data, the data and the
  signature; the monitor's hash, public key and signature; the device's public key.
\<close>

definition REPORT_DATA_LEN :: u64 where "REPORT_DATA_LEN = 64"
definition REPORT_DATA :: u64 where "REPORT_DATA = 72"
definition REPORT_SIGNATURE :: u64 where "REPORT_SIGNATURE = 1096"
definition REPORT_SM_HASH :: u64 where "REPORT_SM_HASH = 1160"
definition REPORT_SM_PUBLIC_KEY :: u64 where "REPORT_SM_PUBLIC_KEY = 1224"
definition REPORT_SM_SIGNATURE :: u64 where "REPORT_SM_SIGNATURE = 1256"
definition REPORT_DEV_PUBLIC_KEY :: u64 where "REPORT_DEV_PUBLIC_KEY = 1320"
definition sizeof_enclave_report :: nat where "sizeof_enclave_report = 1160"
definition sizeof_report :: nat where "sizeof_report = 1352"

definition copy_enclave_report :: "sm_env \<Rightarrow> u64 \<Rightarrow> u64 \<Rightarrow> sm_state \<Rightarrow> u64 \<times> sm_state" where
  "copy_enclave_report env dest source s =
     (case copy_from_sm (xwrite env) dest source sizeof_report (memory s) of
        (illegal, m) \<Rightarrow>
          (if illegal \<noteq> 0 then SBI_ERR_SM_ENCLAVE_ILLEGAL_ARGUMENT
           else SBI_ERR_SM_ENCLAVE_SUCCESS, s\<lparr>memory := m\<rparr>))"

definition is_create_args_valid :: "keystone_sbi_create_t \<Rightarrow> bool" where
  "is_create_args_valid args =
     (let epm_start = paddr (epm_region args);
          epm_end = paddr (epm_region args) + pr_size (epm_region args) in
      if pr_size (epm_region args) \<le> 0 then False
      else if paddr (epm_region args) \<ge> paddr (epm_region args) + pr_size (epm_region args) then False
      else if paddr (utm_region args) \<ge> paddr (utm_region args) + pr_size (utm_region args) then False
      else if runtime_paddr args < epm_start \<or> runtime_paddr args \<ge> epm_end then False
      else if user_paddr args < epm_start \<or> user_paddr args \<ge> epm_end then False
      else if free_paddr args < epm_start \<or> free_paddr args > epm_end then False
      else if runtime_paddr args > user_paddr args then False
      else if user_paddr args > free_paddr args then False
      else True)"

section \<open>Creation\<close>

definition SATP_MODE_SV39 :: u64 where [hw_consts]: "SATP_MODE_SV39 = 8"
definition HGATP_MODE_SHIFT :: nat where [hw_consts]: "HGATP_MODE_SHIFT = 60"

definition create_params :: "keystone_sbi_create_t \<Rightarrow> runtime_params_t" where
  "create_params args =
     \<lparr>dram_base = paddr (epm_region args), dram_size = pr_size (epm_region args),
      runtime_base = runtime_paddr args, user_base = user_paddr args, free_base = free_paddr args,
      untrusted_base = paddr (utm_region args), untrusted_size = pr_size (utm_region args),
      free_requested = ca_free_requested args\<rparr>"

text \<open>The metadata of the new enclave; \<open>c\<close> are the CSRs of the hart (\<open>clean_state\<close> reads one).\<close>

definition init_enclave_metadata ::
  "enclave_id \<Rightarrow> int \<Rightarrow> int \<Rightarrow> runtime_params_t \<Rightarrow> csrs \<Rightarrow> enclave \<Rightarrow> enclave" where
  "init_enclave_metadata eid region shared_region params c e =
     (let rs = (e_regions e)[0 := \<lparr>pmp_rid = region, er_type = REGION_EPM\<rparr>,
                             1 := \<lparr>pmp_rid = shared_region, er_type = REGION_UTM\<rparr>]
      in e\<lparr>e_eid := eid,
           e_regions := rs,
           encl_satp := drop_bit RISCV_PGSHIFT (dram_base params) OR push_bit HGATP_MODE_SHIFT SATP_MODE_SV39,
           n_thread := 0,
           e_params := params,
           e_thread := clean_state (e_thread e) c\<rparr>)"

text \<open>The labels at the end of \<open>create_enclave\<close>, each continuing with the next one.\<close>

definition create_free_encl_idx :: "enclave_id \<Rightarrow> sm_state \<Rightarrow> sm_state" where
  "create_free_encl_idx eid s = encl_free_eid eid s"

definition create_free_region :: "enclave_id \<Rightarrow> int \<Rightarrow> sm_state \<Rightarrow> sm_state" where
  "create_free_region eid region s = create_free_encl_idx eid (free_region region s)"

definition create_free_shared_region :: "enclave_id \<Rightarrow> int \<Rightarrow> int \<Rightarrow> sm_state \<Rightarrow> sm_state" where
  "create_free_shared_region eid region shared_region s =
     create_free_region eid region (free_region shared_region s)"

definition create_unset_region ::
  "sm_env \<Rightarrow> enclave_id \<Rightarrow> int \<Rightarrow> int \<Rightarrow> sm_state \<Rightarrow> sm_state option" where
  "create_unset_region env eid region shared_region s = do {
     (ret, s) \<leftarrow> global_pmp_unset env region s;
     Some (create_free_shared_region eid region shared_region s) }"

text \<open>From the initialisation of the metadata to the end.\<close>

definition create_finish ::
  "sm_env \<Rightarrow> enclave_id \<Rightarrow> int \<Rightarrow> int \<Rightarrow> keystone_sbi_create_t \<Rightarrow> u64 \<Rightarrow> sm_state \<Rightarrow>
   (u64 \<times> u64 \<times> sm_state) option" where
  "create_finish env eid region shared_region args eidptr s =
     (let s = clean_enclave_memory (paddr (utm_region args)) (pr_size (utm_region args)) s;
          c = h_csrs (harts s (mhartid env));
          s = upd_encl eid (init_enclave_metadata eid region shared_region (create_params args) c) s;
          (ret, e) = platform_create_enclave (enclaves s ! unat eid);
          s = upd_encl eid (\<lambda>_. e) s
      in if ret \<noteq> 0 then do {
           s \<leftarrow> create_unset_region env eid region shared_region s;
           Some (ret, eidptr, s) }
         else do {
           (ret, e) \<leftarrow> validate_and_hash_enclave (memory s) (enclaves s ! unat eid);
           let s = upd_encl eid (\<lambda>_. e) s;
           if ret \<noteq> 0 then do {
             let s = upd_encl eid platform_destroy_enclave s;
             s \<leftarrow> create_unset_region env eid region shared_region s;
             Some (ret, eidptr, s) }
           else Some (SBI_ERR_SM_ENCLAVE_SUCCESS, ucast eid, upd_encl eid (\<lambda>e. e\<lparr>e_state := FRESH\<rparr>) s) })"

text \<open>
  \<open>create_enclave\<close> returns its result, the word behind \<open>eidptr\<close> and the state. The variables
  \<open>region\<close> and \<open>shared_region\<close> are uninitialised until \<open>pmp_region_init_atomic\<close> succeeds and are
  not used before.
\<close>

definition create_enclave ::
  "sm_env \<Rightarrow> u64 \<Rightarrow> keystone_sbi_create_t \<Rightarrow> sm_state \<Rightarrow> (u64 \<times> u64 \<times> sm_state) option" where
  "create_enclave env eidptr args s =
     (if \<not> is_create_args_valid args then Some (SBI_ERR_SM_ENCLAVE_ILLEGAL_ARGUMENT, eidptr, s)
      else case encl_alloc_eid s of
        (ret, eid, s) \<Rightarrow>
          if ret \<noteq> SBI_ERR_SM_ENCLAVE_SUCCESS then Some (SBI_ERR_SM_ENCLAVE_NO_FREE_RESOURCE, eidptr, s)
          else do {
            (ret, region, p) \<leftarrow> pmp_region_init_atomic (paddr (epm_region args))
               (pr_size (epm_region args)) PMP_PRI_ANY 0 False (pmp s);
            let s = s\<lparr>pmp := p\<rparr>;
            if ret \<noteq> 0 then Some (SBI_ERR_SM_ENCLAVE_PMP_FAILURE, eidptr, create_free_encl_idx eid s)
            else do {
              (ret, shared_region, p) \<leftarrow> pmp_region_init_atomic (paddr (utm_region args))
                 (pr_size (utm_region args)) PMP_PRI_BOTTOM 0 False (pmp s);
              let s = s\<lparr>pmp := p\<rparr>;
              if ret \<noteq> 0 then Some (SBI_ERR_SM_ENCLAVE_PMP_FAILURE, eidptr, create_free_region eid region s)
              else do {
                (ret, s) \<leftarrow> global_pmp_set env region PMP_NO_PERM s;
                if ret \<noteq> 0
                then Some (SBI_ERR_SM_ENCLAVE_PMP_FAILURE, eidptr,
                           create_free_shared_region eid region shared_region s)
                else create_finish env eid region shared_region args eidptr s } } })"

section \<open>Destruction\<close>

text \<open>The part of \<open>destroy_enclave\<close> under the lock.\<close>

definition destroy_begin :: "enclave_id \<Rightarrow> sm_state \<Rightarrow> bool \<times> sm_state" where
  "destroy_begin eid s =
     (let destroyable = ENCLAVE_EXISTS eid s \<and> e_state (enclaves s ! unat eid) \<le> STOPPED
      in (destroyable, if destroyable then upd_encl eid (\<lambda>e. e\<lparr>e_state := DESTROYING\<rparr>) s else s))"

fun destroy_regions :: "sm_env \<Rightarrow> enclave_region list \<Rightarrow> sm_state \<Rightarrow> sm_state option" where
  "destroy_regions env [] s = Some s"
| "destroy_regions env (r # rs) s =
     (if er_type r = REGION_INVALID \<or> er_type r = REGION_UTM then destroy_regions env rs s
      else
        let rid = pmp_rid r;
            base = pmp_region_get_addr (pmp s) rid;
            sz = pmp_region_get_size (pmp s) rid;
            s = s\<lparr>memory := mem_set base 0 sz (memory s)\<rparr>
        in do {
          (ret, s) \<leftarrow> global_pmp_unset env rid s;
          let s = free_region rid s;
          destroy_regions env rs s })"

definition params_zero :: runtime_params_t where
  "params_zero = \<lparr>dram_base = 0, dram_size = 0, runtime_base = 0, user_base = 0, free_base = 0,
     untrusted_base = 0, untrusted_size = 0, free_requested = 0\<rparr>"

definition destroy_finish :: "sm_env \<Rightarrow> enclave_id \<Rightarrow> sm_state \<Rightarrow> (u64 \<times> sm_state) option" where
  "destroy_finish env eid s = do {
     let s = upd_encl eid platform_destroy_enclave s;
     s \<leftarrow> destroy_regions env (e_regions (enclaves s ! unat eid)) s;
     let rid = get_enclave_region_index eid REGION_UTM s;
     let s = (if rid \<noteq> - 1 then free_region (pmp_rid (e_regions (enclaves s ! unat eid) ! nat rid)) s else s);
     let s = upd_encl eid (\<lambda>e. e\<lparr>encl_satp := 0, n_thread := 0, e_params := params_zero,
                e_regions := clear_regions (e_regions e)\<rparr>) s;
     Some (SBI_ERR_SM_ENCLAVE_SUCCESS, encl_free_eid eid s) }"

definition destroy_enclave :: "sm_env \<Rightarrow> enclave_id \<Rightarrow> sm_state \<Rightarrow> (u64 \<times> sm_state) option" where
  "destroy_enclave env eid s =
     (case destroy_begin eid s of
        (destroyable, s) \<Rightarrow>
          if \<not> destroyable then Some (SBI_ERR_SM_ENCLAVE_NOT_DESTROYABLE, s)
          else destroy_finish env eid s)"

section \<open>Running\<close>

definition run_enclave ::
  "sm_env \<Rightarrow> sbi_trap_regs \<Rightarrow> enclave_id \<Rightarrow> sm_state \<Rightarrow> (u64 \<times> sbi_trap_regs \<times> sm_state) option" where
  "run_enclave env regs eid s =
     (let runable = ENCLAVE_EXISTS eid s \<and> e_state (enclaves s ! unat eid) = FRESH;
          s = (if runable then upd_encl eid (\<lambda>e. e\<lparr>e_state := RUNNING, n_thread := n_thread e + 1\<rparr>) s else s)
      in if \<not> runable then Some (SBI_ERR_SM_ENCLAVE_NOT_FRESH, regs, s)
         else map_option (Pair SBI_ERR_SM_ENCLAVE_SUCCESS) (context_switch_to_enclave env regs eid True s))"

text \<open>The part of \<open>exit_enclave\<close> and \<open>stop_enclave\<close> under the lock.\<close>

definition leave_enclave :: "enclave \<Rightarrow> enclave" where
  "leave_enclave e =
     (let e = e\<lparr>n_thread := n_thread e - 1\<rparr> in if n_thread e = 0 then e\<lparr>e_state := STOPPED\<rparr> else e)"

definition exit_enclave ::
  "sm_env \<Rightarrow> sbi_trap_regs \<Rightarrow> enclave_id \<Rightarrow> sm_state \<Rightarrow> (u64 \<times> sbi_trap_regs \<times> sm_state) option" where
  "exit_enclave env regs eid s =
     (let exitable = e_state (enclaves s ! unat eid) = RUNNING;
          s = (if exitable then upd_encl eid leave_enclave s else s)
      in if \<not> exitable then Some (SBI_ERR_SM_ENCLAVE_NOT_RUNNING, regs, s)
         else map_option (Pair SBI_ERR_SM_ENCLAVE_SUCCESS) (context_switch_to_host env regs eid False s))"

definition stop_enclave ::
  "sm_env \<Rightarrow> sbi_trap_regs \<Rightarrow> u64 \<Rightarrow> enclave_id \<Rightarrow> sm_state \<Rightarrow> (u64 \<times> sbi_trap_regs \<times> sm_state) option" where
  "stop_enclave env regs request eid s =
     (let stoppable = e_state (enclaves s ! unat eid) = RUNNING;
          s = (if stoppable then upd_encl eid leave_enclave s else s)
      in if \<not> stoppable then Some (SBI_ERR_SM_ENCLAVE_NOT_RUNNING, regs, s)
         else map_option (Pair
             (if request = STOP_TIMER_INTERRUPT then SBI_ERR_SM_ENCLAVE_INTERRUPTED
              else if request = STOP_EDGE_CALL_HOST then SBI_ERR_SM_ENCLAVE_EDGE_CALL_HOST
              else SBI_ERR_SM_ENCLAVE_UNKNOWN_ERROR))
           (context_switch_to_host env regs eid (request = STOP_EDGE_CALL_HOST) s))"

definition resume_enclave ::
  "sm_env \<Rightarrow> sbi_trap_regs \<Rightarrow> enclave_id \<Rightarrow> sm_state \<Rightarrow> (u64 \<times> sbi_trap_regs \<times> sm_state) option" where
  "resume_enclave env regs eid s =
     (let e = enclaves s ! unat eid;
          resumable = ENCLAVE_EXISTS eid s \<and> (e_state e = RUNNING \<or> e_state e = STOPPED)
            \<and> n_thread e < MAX_ENCL_THREADS
      in if \<not> resumable then Some (SBI_ERR_SM_ENCLAVE_NOT_RESUMABLE, regs, s)
         else
           let s = upd_encl eid (\<lambda>e. e\<lparr>n_thread := n_thread e + 1, e_state := RUNNING\<rparr>) s
           in map_option (Pair SBI_ERR_SM_ENCLAVE_SUCCESS) (context_switch_to_enclave env regs eid False s))"

section \<open>Attestation and sealing\<close>

text \<open>The fields of the report on the monitor's stack, at the address \<open>frame\<close>.\<close>

definition fill_report :: "sm_env \<Rightarrow> enclave_id \<Rightarrow> u64 \<Rightarrow> sm_state \<Rightarrow> sm_state" where
  "fill_report env eid sz s =
     (let r = frame env;
          m = memory s;
          m = mem_write (r + REPORT_DEV_PUBLIC_KEY) (take PUBLIC_KEY_SIZE (dev_public_key s)) m;
          m = mem_write (r + REPORT_SM_HASH) (take MDSIZE (sm_hash s)) m;
          m = mem_write (r + REPORT_SM_PUBLIC_KEY) (take PUBLIC_KEY_SIZE (sm_public_key s)) m;
          m = mem_write (r + REPORT_SM_SIGNATURE) (take SIGNATURE_SIZE (sm_signature s)) m;
          m = mem_write r (take MDSIZE (e_hash (enclaves s ! unat eid))) m;
          len = sizeof_enclave_report - SIGNATURE_SIZE - ATTEST_DATA_MAXLEN + unat sz;
          m = mem_write (r + REPORT_SIGNATURE) (sm_sign env (mem_read m r len) s) m
      in s\<lparr>memory := m\<rparr>)"

definition attest_enclave ::
  "sm_env \<Rightarrow> u64 \<Rightarrow> u64 \<Rightarrow> u64 \<Rightarrow> enclave_id \<Rightarrow> sm_state \<Rightarrow> u64 \<times> sm_state" where
  "attest_enclave env report_ptr data sz eid s =
     (if sz > of_nat ATTEST_DATA_MAXLEN then (SBI_ERR_SM_ENCLAVE_ILLEGAL_ARGUMENT, s)
      else
        let attestable = ENCLAVE_EXISTS eid s \<and> e_state (enclaves s ! unat eid) \<ge> FRESH
        in if \<not> attestable then (SBI_ERR_SM_ENCLAVE_NOT_INITIALIZED, s)
           else
             let (ret, s) = copy_enclave_data env (frame env + REPORT_DATA) data (unat sz) s;
                 s = s\<lparr>memory := store64 (frame env + REPORT_DATA_LEN) sz (memory s)\<rparr>
             in if ret \<noteq> 0 then (SBI_ERR_SM_ENCLAVE_NOT_ACCESSIBLE, s)
                else
                  let s = fill_report env eid sz s;
                      (ret, s) = copy_enclave_report env report_ptr (frame env) s
                  in if ret \<noteq> 0 then (SBI_ERR_SM_ENCLAVE_ILLEGAL_ARGUMENT, s)
                     else (SBI_ERR_SM_ENCLAVE_SUCCESS, s))"

text \<open>The key and its signature are read and written at the given addresses without a check.\<close>

definition get_sealing_key ::
  "sm_env \<Rightarrow> u64 \<Rightarrow> u64 \<Rightarrow> u64 \<Rightarrow> enclave_id \<Rightarrow> sm_state \<Rightarrow> (u64 \<times> sm_state) option" where
  "get_sealing_key env sealing_key key_ident key_ident_size eid s = do {
     (ret, key) \<leftarrow> sm_derive_sealing_key (mem_read (memory s) sealing_key SEALING_KEY_SIZE)
        (mem_read (memory s) key_ident (unat key_ident_size)) (e_hash (enclaves s ! unat eid)) s;
     let s = s\<lparr>memory := mem_write sealing_key key (memory s)\<rparr>;
     if ret \<noteq> 0 then Some (SBI_ERR_SM_ENCLAVE_UNKNOWN_ERROR, s)
     else Some (SBI_ERR_SM_ENCLAVE_SUCCESS,
       s\<lparr>memory := mem_write (sealing_key + of_nat SEALING_KEY_SIZE)
         (sm_sign env (mem_read (memory s) sealing_key SEALING_KEY_SIZE) s) (memory s)\<rparr>) }"

end
