(* ===== verification/SBI.thy ===== *)
theory SBI
  imports Enclave
begin

text \<open>
  The calls into the monitor: the plugins (\<open>sm/src/plugins\<close>), the SBI functions (\<open>sm-sbi.c\<close>),
  the handler registered with OpenSBI (\<open>sm-sbi-opensbi.c\<close>), the trap handler while an enclave
  runs (\<open>sbi_trap_hack.c\<close>), and the boot of the monitor (\<open>sm.c\<close>).
\<close>

section \<open>Plugins\<close>

definition PLUGIN_ID_MULTIMEM :: u64 where [err_codes]: "PLUGIN_ID_MULTIMEM = 1"
definition MULTIMEM_GET_OTHER_REGION_SIZE :: u64 where [err_codes]: "MULTIMEM_GET_OTHER_REGION_SIZE = 1"
definition MULTIMEM_GET_OTHER_REGION_ADDR :: u64 where [err_codes]: "MULTIMEM_GET_OTHER_REGION_ADDR = 2"

text \<open>The word is stored in the local \<open>out\<close> at the address \<open>frame\<close> and copied from there.\<close>

definition multimem_put_word :: "sm_env \<Rightarrow> u64 \<Rightarrow> u64 \<Rightarrow> sm_state \<Rightarrow> u64 \<times> sm_state" where
  "multimem_put_word env size_out out s =
     (case copy_word_from_sm (xwrite env) size_out (frame env) (store64 (frame env) out (memory s)) of
        (ret, m) \<Rightarrow> (of_int ret, s\<lparr>memory := m\<rparr>))"

definition multimem_get_other_region_size :: "sm_env \<Rightarrow> enclave_id \<Rightarrow> u64 \<Rightarrow> sm_state \<Rightarrow> u64 \<times> sm_state" where
  "multimem_get_other_region_size env eid size_out s =
     (let mem_id = get_enclave_region_index eid REGION_OTHER s in
      if mem_id = - 1 then (- 1, s)
      else multimem_put_word env size_out (get_enclave_region_size eid mem_id s) s)"

definition multimem_get_other_region_addr :: "sm_env \<Rightarrow> enclave_id \<Rightarrow> u64 \<Rightarrow> sm_state \<Rightarrow> u64 \<times> sm_state" where
  "multimem_get_other_region_addr env eid size_out s =
     (let mem_id = get_enclave_region_index eid REGION_OTHER s in
      if mem_id = - 1 then (- 1, s)
      else multimem_put_word env size_out (get_enclave_region_base eid mem_id s) s)"

definition do_sbi_multimem :: "sm_env \<Rightarrow> enclave_id \<Rightarrow> u64 \<Rightarrow> u64 \<Rightarrow> sm_state \<Rightarrow> u64 \<times> sm_state" where
  "do_sbi_multimem env eid call_id arg0 s =
     (if call_id = MULTIMEM_GET_OTHER_REGION_SIZE then multimem_get_other_region_size env eid arg0 s
      else if call_id = MULTIMEM_GET_OTHER_REGION_ADDR then multimem_get_other_region_addr env eid arg0 s
      else (0, s))"

definition call_plugin ::
  "sm_env \<Rightarrow> enclave_id \<Rightarrow> u64 \<Rightarrow> u64 \<Rightarrow> u64 \<Rightarrow> u64 \<Rightarrow> sm_state \<Rightarrow> u64 \<times> sm_state" where
  "call_plugin env eid plugin_id call_id arg0 arg1 s =
     (if plugin_id = PLUGIN_ID_MULTIMEM then do_sbi_multimem env eid call_id arg0 s
      else (SBI_ERR_SM_NOT_IMPLEMENTED, s))"

section \<open>SBI functions\<close>

definition sbi_sm_create_enclave :: "sm_env \<Rightarrow> u64 \<Rightarrow> u64 \<Rightarrow> sm_state \<Rightarrow> (u64 \<times> u64 \<times> sm_state) option" where
  "sbi_sm_create_enclave env eidptr create_args s =
     (let (ret, s) = copy_enclave_create_args env create_args (frame env) s in
      if ret \<noteq> 0 then Some (ret, eidptr, s)
      else create_enclave env eidptr (create_args_at (memory s) (frame env)) s)"

definition sbi_sm_destroy_enclave :: "sm_env \<Rightarrow> u64 \<Rightarrow> sm_state \<Rightarrow> (u64 \<times> sm_state) option" where
  "sbi_sm_destroy_enclave env eid s = destroy_enclave env (ucast eid) s"

text \<open>
  The functions that switch context leave through \<open>sbi_trap_exit\<close>, which returns to the context
  in \<open>regs\<close>. They store the result in a register of the frame and step over the \<open>ecall\<close>.
\<close>

definition set_reg :: "nat \<Rightarrow> u64 \<Rightarrow> sbi_trap_regs \<Rightarrow> sbi_trap_regs" where
  "set_reg i v regs = regs\<lparr>gprs := (gprs regs)[i := v]\<rparr>"

definition next_insn :: "sbi_trap_regs \<Rightarrow> sbi_trap_regs" where
  "next_insn regs = regs\<lparr>mepc := mepc regs + 4\<rparr>"

definition sbi_sm_run_enclave ::
  "sm_env \<Rightarrow> sbi_trap_regs \<Rightarrow> u64 \<Rightarrow> sm_state \<Rightarrow> (sbi_trap_regs \<times> sm_state) option" where
  "sbi_sm_run_enclave env regs eid s = do {
     (ret, regs, s) \<leftarrow> run_enclave env regs (ucast eid) s;
     Some (next_insn (set_reg REG_A0 ret regs), s) }"

definition sbi_sm_resume_enclave ::
  "sm_env \<Rightarrow> sbi_trap_regs \<Rightarrow> u64 \<Rightarrow> sm_state \<Rightarrow> (sbi_trap_regs \<times> sm_state) option" where
  "sbi_sm_resume_enclave env regs eid s = do {
     (ret, regs, s) \<leftarrow> resume_enclave env regs (ucast eid) s;
     let regs = (if gprs regs ! 0 = 0 then set_reg REG_A0 ret regs else regs);
     Some (next_insn regs, s) }"

definition sbi_sm_exit_enclave ::
  "sm_env \<Rightarrow> sbi_trap_regs \<Rightarrow> u64 \<Rightarrow> sm_state \<Rightarrow> (sbi_trap_regs \<times> sm_state) option" where
  "sbi_sm_exit_enclave env regs retval s = do {
     (ret, regs, s) \<leftarrow> exit_enclave env regs (cpu_get_enclave_id (mhartid env) (cpus s)) s;
     Some (next_insn (set_reg REG_A1 retval (set_reg REG_A0 ret regs)), s) }"

definition sbi_sm_stop_enclave ::
  "sm_env \<Rightarrow> sbi_trap_regs \<Rightarrow> u64 \<Rightarrow> sm_state \<Rightarrow> (sbi_trap_regs \<times> sm_state) option" where
  "sbi_sm_stop_enclave env regs request s = do {
     (ret, regs, s) \<leftarrow> stop_enclave env regs request (cpu_get_enclave_id (mhartid env) (cpus s)) s;
     Some (next_insn (set_reg REG_A0 ret regs), s) }"

definition sbi_sm_attest_enclave :: "sm_env \<Rightarrow> u64 \<Rightarrow> u64 \<Rightarrow> u64 \<Rightarrow> sm_state \<Rightarrow> u64 \<times> sm_state" where
  "sbi_sm_attest_enclave env report data sz s =
     attest_enclave env report data sz (cpu_get_enclave_id (mhartid env) (cpus s)) s"

definition sbi_sm_get_sealing_key :: "sm_env \<Rightarrow> u64 \<Rightarrow> u64 \<Rightarrow> u64 \<Rightarrow> sm_state \<Rightarrow> (u64 \<times> sm_state) option" where
  "sbi_sm_get_sealing_key env sealing_key key_ident key_ident_size s =
     get_sealing_key env sealing_key key_ident key_ident_size (cpu_get_enclave_id (mhartid env) (cpus s)) s"

definition sbi_sm_random :: "sm_env \<Rightarrow> sm_state \<Rightarrow> u64 \<times> sm_state" where
  "sbi_sm_random env s = (let (r, w) = platform_random (rdcycle env) (rng_w s) in (r, s\<lparr>rng_w := w\<rparr>))"

definition sbi_sm_call_plugin :: "sm_env \<Rightarrow> u64 \<Rightarrow> u64 \<Rightarrow> u64 \<Rightarrow> u64 \<Rightarrow> sm_state \<Rightarrow> u64 \<times> sm_state" where
  "sbi_sm_call_plugin env plugin_id call_id arg0 arg1 s =
     call_plugin env (cpu_get_enclave_id (mhartid env) (cpus s)) plugin_id call_id arg0 arg1 s"

section \<open>The handler\<close>

text \<open>
  The outcome of a call: the handler returns to OpenSBI, with the result as a C \<open>int\<close> and the
  word \<open>*out_val\<close>, or leaves to the context in the trap frame.
\<close>

datatype sbi_result = sbi_return int u64 | sbi_trap_exit sbi_trap_regs

definition int_ret :: "u64 \<Rightarrow> int" where
  "int_ret r = sint (ucast r :: u32)"

definition sbi_ecall_keystone_enclave_handler ::
  "sm_env \<Rightarrow> u64 \<Rightarrow> sbi_trap_regs \<Rightarrow> u64 \<Rightarrow> sm_state \<Rightarrow> (sbi_result \<times> sm_state) option" where
  "sbi_ecall_keystone_enclave_handler env funcid regs out_val s =
     (let a0 = gprs regs ! REG_A0; a1 = gprs regs ! REG_A1; a2 = gprs regs ! REG_A2; a3 = gprs regs ! REG_A3;
          in_enclave = cpu_is_enclave_context (mhartid env) (cpus s);
          ret = (\<lambda>r out. sbi_return (int_ret r) out);
          exits = map_option (\<lambda>(regs, s). (sbi_trap_exit regs, s))
      in
      if funcid \<le> FID_RANGE_DEPRECATED then Some (ret SBI_ERR_SM_DEPRECATED out_val, s)
      else if funcid \<le> FID_RANGE_HOST \<and> in_enclave
      then Some (ret SBI_ERR_SM_ENCLAVE_SBI_PROHIBITED out_val, s)
      else if FID_RANGE_HOST < funcid \<and> funcid \<le> FID_RANGE_ENCLAVE \<and> \<not> in_enclave
      then Some (ret SBI_ERR_SM_ENCLAVE_SBI_PROHIBITED out_val, s)
      else if funcid = SBI_SM_CREATE_ENCLAVE
      then map_option (\<lambda>(r, out, s). (ret r out, s)) (sbi_sm_create_enclave env out_val a0 s)
      else if funcid = SBI_SM_DESTROY_ENCLAVE
      then map_option (\<lambda>(r, s). (ret r out_val, s)) (sbi_sm_destroy_enclave env a0 s)
      else if funcid = SBI_SM_RUN_ENCLAVE then exits (sbi_sm_run_enclave env regs a0 s)
      else if funcid = SBI_SM_RESUME_ENCLAVE then exits (sbi_sm_resume_enclave env regs a0 s)
      else if funcid = SBI_SM_RANDOM
      then (case sbi_sm_random env s of (r, s) \<Rightarrow> Some (ret 0 r, s))
      else if funcid = SBI_SM_ATTEST_ENCLAVE
      then (case sbi_sm_attest_enclave env a0 a1 a2 s of (r, s) \<Rightarrow> Some (ret r out_val, s))
      else if funcid = SBI_SM_GET_SEALING_KEY
      then map_option (\<lambda>(r, s). (ret r out_val, s)) (sbi_sm_get_sealing_key env a0 a1 a2 s)
      else if funcid = SBI_SM_STOP_ENCLAVE then exits (sbi_sm_stop_enclave env regs a0 s)
      else if funcid = SBI_SM_EXIT_ENCLAVE then exits (sbi_sm_exit_enclave env regs a0 s)
      else if funcid = SBI_SM_CALL_PLUGIN
      then (case sbi_sm_call_plugin env a0 a1 a2 a3 s of (r, s) \<Rightarrow> Some (ret r out_val, s))
      else Some (ret SBI_ERR_SM_NOT_IMPLEMENTED out_val, s))"

section \<open>Traps while an enclave runs\<close>

definition IRQ_M_SOFT :: u64 where [hw_consts]: "IRQ_M_SOFT = 3"
definition IRQ_M_TIMER :: u64 where [hw_consts]: "IRQ_M_TIMER = 7"
definition SBI_ENOTSUPP :: int where [err_codes]: "SBI_ENOTSUPP = - 2"

text \<open>
  \<open>sbi_trap_handler_keystone_enclave\<close>. A timer or software interrupt stops the enclave; the
  handlers of OpenSBI for exceptions are the parameter \<open>exc\<close>, which gives their return code and
  the frame and state they leave. A failed handler ends the enclave with the code as its value.
\<close>

definition sbi_trap_error ::
  "sm_env \<Rightarrow> int \<Rightarrow> sbi_trap_regs \<Rightarrow> sm_state \<Rightarrow> (sbi_trap_regs \<times> sm_state) option" where
  "sbi_trap_error env rc regs s = sbi_sm_exit_enclave env regs (of_int rc) s"

definition sbi_trap_handler_keystone_enclave ::
  "(u64 \<Rightarrow> sbi_trap_regs \<Rightarrow> sm_state \<Rightarrow> int \<times> sbi_trap_regs \<times> sm_state) \<Rightarrow> sm_env \<Rightarrow> u64 \<Rightarrow>
   sbi_trap_regs \<Rightarrow> sm_state \<Rightarrow> (sbi_trap_regs \<times> sm_state) option" where
  "sbi_trap_handler_keystone_enclave exc env mcause regs s =
     (if bit mcause 63 then
        let mcause = mcause AND NOT (push_bit 63 1) in
        if mcause = IRQ_M_TIMER \<or> mcause = IRQ_M_SOFT
        then sbi_sm_stop_enclave env (regs\<lparr>mepc := mepc regs - 4\<rparr>) STOP_TIMER_INTERRUPT s
        else sbi_trap_error env SBI_ENOTSUPP regs s
      else
        case exc mcause regs s of
          (rc, regs, s) \<Rightarrow> if rc \<noteq> 0 then sbi_trap_error env rc regs s else Some (regs, s))"

section \<open>Boot\<close>

definition smm_init :: "pmp_state \<Rightarrow> (int \<times> pmp_state) option" where
  "smm_init p = do {
     (ret, region, p) \<leftarrow> pmp_region_init_atomic SMM_BASE SMM_SIZE PMP_PRI_TOP (- 1) False p;
     Some (if ret \<noteq> 0 then - 1 else region, p) }"

definition osm_init :: "pmp_state \<Rightarrow> (int \<times> pmp_state) option" where
  "osm_init p = do {
     (ret, region, p) \<leftarrow> pmp_region_init_atomic 0 (- 1) PMP_PRI_BOTTOM (- 1) True p;
     Some (if ret \<noteq> 0 then - 1 else region, p) }"

text \<open>What the boot ROM leaves: the monitor's hash, signature and keys, and the device's key.\<close>

record sanctum_rom =
  sanctum_sm_hash :: "u8 list"
  sanctum_sm_signature :: "u8 list"
  sanctum_sm_secret_key :: "u8 list"
  sanctum_sm_public_key :: "u8 list"
  sanctum_dev_public_key :: "u8 list"

definition sm_copy_key :: "sanctum_rom \<Rightarrow> sm_state \<Rightarrow> sm_state" where
  "sm_copy_key rom s =
     s\<lparr>sm_hash := take MDSIZE (sanctum_sm_hash rom),
       sm_signature := take SIGNATURE_SIZE (sanctum_sm_signature rom),
       sm_public_key := take PUBLIC_KEY_SIZE (sanctum_sm_public_key rom),
       sm_private_key := take PRIVATE_KEY_SIZE (sanctum_sm_secret_key rom),
       dev_public_key := take PUBLIC_KEY_SIZE (sanctum_dev_public_key rom)\<rparr>"

definition platform_init_global_once :: u64 where
  "platform_init_global_once = SBI_ERR_SM_ENCLAVE_SUCCESS"

definition platform_init_global :: u64 where
  "platform_init_global = SBI_ERR_SM_ENCLAVE_SUCCESS"

definition sm_cold_init :: "sanctum_rom \<Rightarrow> sm_state \<Rightarrow> sm_state option" where
  "sm_cold_init rom s = do {
     (sm_rid, p) \<leftarrow> smm_init (pmp s);
     if sm_rid < 0 then None else do {
       (os_rid, p) \<leftarrow> osm_init p;
       if os_rid < 0 then None
       else if platform_init_global_once \<noteq> SBI_ERR_SM_ENCLAVE_SUCCESS then None
       else
         let s = s\<lparr>pmp := p, sm_region_id := sm_rid, os_region_id := os_rid\<rparr>;
             s = sm_copy_key rom s;
             s = enclave_init_metadata s
         in Some (s\<lparr>sm_init_done := True\<rparr>) } }"

text \<open>
  \<open>sm_init\<close>, run by each hart. A hart that does not boot cold waits for \<open>sm_init_done\<close>: \<open>None\<close>
  is also the wait that never ends.
\<close>

definition sm_init :: "sanctum_rom \<Rightarrow> sm_env \<Rightarrow> bool \<Rightarrow> sm_state \<Rightarrow> sm_state option" where
  "sm_init rom env cold_boot s = do {
     s \<leftarrow> (if cold_boot then sm_cold_init rom s else Some s);
     if \<not> sm_init_done s then None
     else do {
       let s = upd_hart (mhartid env) (\<lambda>h. h\<lparr>h_pmp := pmp_init (h_pmp h)\<rparr>) s;
       (ret, s) \<leftarrow> local_pmp_set env (sm_region_id s) PMP_NO_PERM s;
       (ret, s) \<leftarrow> local_pmp_set env (os_region_id s) PMP_ALL_PERM s;
       if platform_init_global \<noteq> SBI_ERR_SM_ENCLAVE_SUCCESS then None else Some s } }"

end
