(* ===== verification/Isolation.thy ===== *)
theory Isolation
  imports PMP_Hardware SBI
begin

text \<open>
  The isolation invariant of the monitor. Between two calls, every live enclave owns one region
  for its private memory (EPM) and one for the memory shared with the host (UTM); the monitor and
  the operating system own one region each; all these regions are different entries of the PMP
  manager's table; and the PMP registers of every hart encode the permissions of the context that
  runs on it. \<open>H\<close> is the set of harts of the machine.
\<close>

section \<open>The invariant\<close>

definition live :: "sm_state \<Rightarrow> nat \<Rightarrow> bool" where
  "live s i \<longleftrightarrow> i < 16 \<and> e_state (enclaves s ! i) \<noteq> INVALID"

definition epm :: "sm_state \<Rightarrow> nat \<Rightarrow> nat" where
  "epm s i = nat (pmp_rid (e_regions (enclaves s ! i) ! 0))"

definition utm :: "sm_state \<Rightarrow> nat \<Rightarrow> nat" where
  "utm s i = nat (pmp_rid (e_regions (enclaves s ! i) ! 1))"

definition runs :: "sm_state \<Rightarrow> nat \<Rightarrow> nat \<Rightarrow> bool" where
  "runs s h i \<longleftrightarrow> is_enclave (cpus s h) \<and> unat (cpu_eid (cpus s h)) = i"

definition encl_regions_ok :: "pmp_state \<Rightarrow> enclave \<Rightarrow> bool" where
  "encl_regions_ok p e \<longleftrightarrow>
     (\<exists>k u. e_regions e = \<lparr>pmp_rid = int k, er_type = REGION_EPM\<rparr> # \<lparr>pmp_rid = int u, er_type = REGION_UTM\<rparr> #
              drop 2 (e_regions e) \<and>
        (\<forall>r\<in>set (drop 2 (e_regions e)). er_type r = REGION_INVALID) \<and>
        region_valid p k \<and> region_valid p u \<and>
        \<not> rg_allow_overlap (regions p ! k) \<and> \<not> rg_allow_overlap (regions p ! u) \<and>
        0 \<notin> region_regs (regions p ! k) \<and> 7 \<notin> region_regs (regions p ! k) \<and> region_regs (regions p ! u) = {7})"

definition encl_ok :: "pmp_state \<Rightarrow> enclave \<Rightarrow> bool" where
  "encl_ok p e \<longleftrightarrow> length (e_regions e) = 8 \<and>
     (if e_state e = INVALID then \<forall>r\<in>set (e_regions e). er_type r = REGION_INVALID
      else e_state e \<in> {FRESH, STOPPED, RUNNING} \<and> n_thread e = (if e_state e = RUNNING then 1 else 0) \<and>
        encl_regions_ok p e)"

text \<open>The regions of the monitor and of the operating system.\<close>

definition system_ok :: "sm_state \<Rightarrow> bool" where
  "system_ok s \<longleftrightarrow>
     (\<exists>a b. sm_region_id s = int a \<and> os_region_id s = int b \<and> a \<noteq> b \<and>
        region_valid (pmp s) a \<and> region_valid (pmp s) b \<and>
        rg_addr (regions (pmp s) ! a) = SMM_BASE \<and> rg_size (regions (pmp s) ! a) = SMM_SIZE \<and>
        \<not> rg_allow_overlap (regions (pmp s) ! a) \<and> region_regs (regions (pmp s) ! a) = {0} \<and>
        rg_addr (regions (pmp s) ! b) = 0 \<and> rg_size (regions (pmp s) ! b) = - 1 \<and>
        rg_addrmode (regions (pmp s) ! b) = PMP_A_NAPOT \<and> rg_allow_overlap (regions (pmp s) ! b) \<and>
        region_regs (regions (pmp s) ! b) = {7})"

text \<open>No region has two owners.\<close>

definition ids_ok :: "sm_state \<Rightarrow> bool" where
  "ids_ok s \<longleftrightarrow>
     (\<forall>i. live s i \<longrightarrow> int (epm s i) \<notin> {sm_region_id s, os_region_id s} \<and>
        int (utm s i) \<notin> {sm_region_id s, os_region_id s}) \<and>
     (\<forall>i j. live s i \<longrightarrow> live s j \<longrightarrow> epm s i \<noteq> utm s j \<and>
        (i \<noteq> j \<longrightarrow> epm s i \<noteq> epm s j \<and> utm s i \<noteq> utm s j))"

text \<open>A running enclave runs on exactly one hart.\<close>

definition cpus_ok :: "nat set \<Rightarrow> sm_state \<Rightarrow> bool" where
  "cpus_ok H s \<longleftrightarrow>
     (\<forall>h\<in>H. is_enclave (cpus s h) \<longrightarrow>
        unat (cpu_eid (cpus s h)) < 16 \<and> e_state (enclaves s ! unat (cpu_eid (cpus s h))) = RUNNING) \<and>
     (\<forall>h\<in>H. \<forall>g\<in>H. \<forall>i. runs s h i \<longrightarrow> runs s g i \<longrightarrow> h = g) \<and>
     (\<forall>i<16. e_state (enclaves s ! i) = RUNNING \<longrightarrow> (\<exists>h\<in>H. runs s h i))"

text \<open>
  The permissions a hart should have: nothing in the monitor; in an enclave's EPM everything or
  nothing, depending on whether it runs that enclave; and the rest of memory or only the enclave's
  shared buffer.
\<close>

definition view :: "sm_state \<Rightarrow> nat \<Rightarrow> nat \<Rightarrow> u8 option" where
  "view s h k =
     (if int k = sm_region_id s then Some PMP_NO_PERM
      else if int k = os_region_id s then if is_enclave (cpus s h) then None else Some PMP_ALL_PERM
      else if \<exists>i. live s i \<and> epm s i = k
      then Some (if \<exists>i. live s i \<and> epm s i = k \<and> runs s h i then PMP_ALL_PERM else PMP_NO_PERM)
      else if \<exists>i. live s i \<and> utm s i = k \<and> runs s h i then Some PMP_ALL_PERM
      else None)"

definition sm_inv :: "nat set \<Rightarrow> sm_state \<Rightarrow> bool" where
  "sm_inv H s \<longleftrightarrow>
     length (enclaves s) = 16 \<and> pmp_wf (pmp s) \<and> (\<forall>e\<in>set (enclaves s). encl_ok (pmp s) e) \<and>
     system_ok s \<and> ids_ok s \<and> cpus_ok H s \<and>
     (\<forall>h\<in>H. hart_pmp (pmp s) (h_pmp (harts s h)) (view s h))"

lemma sm_invD:
  assumes "sm_inv H s"
  shows "length (enclaves s) = 16" and "pmp_wf (pmp s)" and "i < 16 \<Longrightarrow> encl_ok (pmp s) (enclaves s ! i)"
    and "system_ok s" and "ids_ok s" and "cpus_ok H s"
    and "h \<in> H \<Longrightarrow> hart_pmp (pmp s) (h_pmp (harts s h)) (view s h)"
  using assms by (simp_all add: sm_inv_def)

text \<open>What the invariant says of one enclave.\<close>

lemma live_regions:
  assumes "sm_inv H s" and "live s i"
  shows "encl_regions_ok (pmp s) (enclaves s ! i)" and "length (e_regions (enclaves s ! i)) = 8"
    and "region_valid (pmp s) (epm s i)" and "region_valid (pmp s) (utm s i)"
    and "\<not> rg_allow_overlap (regions (pmp s) ! epm s i)" and "\<not> rg_allow_overlap (regions (pmp s) ! utm s i)"
    and "0 \<notin> region_regs (regions (pmp s) ! epm s i)" and "7 \<notin> region_regs (regions (pmp s) ! epm s i)"
    and "region_regs (regions (pmp s) ! utm s i) = {7}"
proof -
  have e: "encl_ok (pmp s) (enclaves s ! i)" using assms sm_invD(3) by (simp add: live_def)
  then show 1: "encl_regions_ok (pmp s) (enclaves s ! i)" and "length (e_regions (enclaves s ! i)) = 8"
    using assms(2) by (simp_all add: encl_ok_def live_def)
  from 1 obtain k u rs where r: "e_regions (enclaves s ! i) =
      \<lparr>pmp_rid = int k, er_type = REGION_EPM\<rparr> # \<lparr>pmp_rid = int u, er_type = REGION_UTM\<rparr> # rs"
    and p: "region_valid (pmp s) k" "region_valid (pmp s) u"
      "\<not> rg_allow_overlap (regions (pmp s) ! k)" "\<not> rg_allow_overlap (regions (pmp s) ! u)"
      "0 \<notin> region_regs (regions (pmp s) ! k)" "7 \<notin> region_regs (regions (pmp s) ! k)"
      "region_regs (regions (pmp s) ! u) = {7}"
    unfolding encl_regions_ok_def by blast
  have "epm s i = k" "utm s i = u" by (simp_all add: epm_def utm_def r)
  with p show "region_valid (pmp s) (epm s i)" "region_valid (pmp s) (utm s i)"
    "\<not> rg_allow_overlap (regions (pmp s) ! epm s i)" "\<not> rg_allow_overlap (regions (pmp s) ! utm s i)"
    "0 \<notin> region_regs (regions (pmp s) ! epm s i)" "7 \<notin> region_regs (regions (pmp s) ! epm s i)"
    "region_regs (regions (pmp s) ! utm s i) = {7}" by simp_all
qed

section \<open>What the permissions allow\<close>

lemma overlap_last_view:
  assumes inv: "sm_inv H s"
  shows "overlap_last (pmp s) (view s h)"
proof -
  obtain a b where sys: "sm_region_id s = int a" "os_region_id s = int b" "region_valid (pmp s) b"
      "\<not> rg_allow_overlap (regions (pmp s) ! a)" "rg_addrmode (regions (pmp s) ! b) = PMP_A_NAPOT"
      "region_regs (regions (pmp s) ! b) = {7}"
    using sm_invD(4) [OF inv] unfolding system_ok_def by blast
  obtain g where g: "rg_reg_idx (regions (pmp s) ! b) = int g"
    using region_idx_nat [OF sm_invD(2) [OF inv] sys(3)] by blast
  then have "rg_reg_idx (regions (pmp s) ! b) = 7" using sys(5,6) by (simp add: region_regs_def)
  moreover have "k = b" if "view s h k \<noteq> None" "rg_allow_overlap (regions (pmp s) ! k)" for k
    using that live_regions(5,6) [OF inv] sys(1,2,4) unfolding view_def by (auto split: if_splits)
  ultimately show ?thesis using sys(5) by (auto simp: overlap_last_def)
qed

lemma access_by_view:
  assumes inv: "sm_inv H s" and h: "h \<in> H" and v: "view s h k = Some perm"
    and nov: "\<not> rg_allow_overlap (regions (pmp s) ! k)" and a: "in_region (regions (pmp s) ! k) a"
    and q: "q AND PMP_ALL_PERM = q"
  shows "pmp_allows (h_pmp (harts s h)) a q \<longleftrightarrow> perm AND q = q"
  by (rule pmp_allows_programmed [OF sm_invD(2) [OF inv] sm_invD(7) [OF inv h] overlap_last_view [OF inv] v nov a q])

text \<open>Outside the enclave's own hart its private memory cannot be accessed at all.\<close>

lemma epm_no_access:
  assumes inv: "sm_inv H s" and h: "h \<in> H" and i: "live s i" and nr: "\<not> runs s h i"
    and a: "in_region (regions (pmp s) ! epm s i) a" and q: "q AND PMP_ALL_PERM = q" "q \<noteq> 0"
  shows "\<not> pmp_allows (h_pmp (harts s h)) a q"
proof -
  have ids: "int (epm s i) \<noteq> sm_region_id s" "int (epm s i) \<noteq> os_region_id s"
    "\<And>j. live s j \<Longrightarrow> epm s j = epm s i \<Longrightarrow> j = i"
    using sm_invD(5) [OF inv] i unfolding ids_ok_def by blast+
  then have v: "view s h (epm s i) = Some PMP_NO_PERM" using i nr unfolding view_def by auto
  show ?thesis using access_by_view [OF inv h v live_regions(5) [OF inv i] a q(1)] q(2)
    by (simp add: PMP_NO_PERM_def)
qed

lemma epm_own_access:
  assumes inv: "sm_inv H s" and h: "h \<in> H" and i: "live s i" and r: "runs s h i"
    and a: "in_region (regions (pmp s) ! epm s i) a" and q: "q AND PMP_ALL_PERM = q"
  shows "pmp_allows (h_pmp (harts s h)) a q"
proof -
  have "int (epm s i) \<noteq> sm_region_id s" "int (epm s i) \<noteq> os_region_id s"
    using sm_invD(5) [OF inv] i unfolding ids_ok_def by blast+
  then have v: "view s h (epm s i) = Some PMP_ALL_PERM" using i r unfolding view_def by auto
  show ?thesis using access_by_view [OF inv h v live_regions(5) [OF inv i] a q] q by (simp add: and.commute)
qed

lemma sm_no_access:
  assumes inv: "sm_inv H s" and h: "h \<in> H"
    and a: "unat SMM_BASE \<le> unat a" "unat a < unat SMM_BASE + unat SMM_SIZE" and q: "q AND PMP_ALL_PERM = q" "q \<noteq> 0"
  shows "\<not> pmp_allows (h_pmp (harts s h)) a q"
proof -
  obtain k where k: "sm_region_id s = int k" "\<not> rg_allow_overlap (regions (pmp s) ! k)"
      "rg_addr (regions (pmp s) ! k) = SMM_BASE" "rg_size (regions (pmp s) ! k) = SMM_SIZE"
    using sm_invD(4) [OF inv] unfolding system_ok_def by blast
  have v: "view s h k = Some PMP_NO_PERM" by (simp add: view_def k)
  have "in_region (regions (pmp s) ! k) a" using a by (simp add: in_region_def k SMM_BASE_def)
  from access_by_view [OF inv h v k(2) this q(1)] show ?thesis using q(2) by (simp add: PMP_NO_PERM_def)
qed

text \<open>An enclave reaches its own two regions and nothing else.\<close>

lemma enclave_access_only:
  assumes inv: "sm_inv H s" and h: "h \<in> H" and r: "runs s h i"
    and al: "pmp_allows (h_pmp (harts s h)) a q" and q: "q AND PMP_ALL_PERM = q" "q \<noteq> 0"
  shows "in_region (regions (pmp s) ! epm s i) a \<or> in_region (regions (pmp s) ! utm s i) a"
proof -
  obtain k perm where k: "view s h k = Some perm" "in_region (regions (pmp s) ! k) a" "perm AND q = q"
    using pmp_allows_only [OF sm_invD(2) [OF inv] sm_invD(7) [OF inv h] overlap_last_view [OF inv] al q(1)] by blast
  have "perm \<noteq> PMP_NO_PERM" using k(3) q(2) by (auto simp: PMP_NO_PERM_def)
  moreover have "is_enclave (cpus s h)" using r by (simp add: runs_def)
  moreover have "j = i" if "runs s h j" for j using that r by (simp add: runs_def)
  ultimately have "k = epm s i \<or> k = utm s i" using k(1) unfolding view_def by (auto split: if_splits)
  then show ?thesis using k(2) by auto
qed

section \<open>Changes that do not matter\<close>

text \<open>Two states that differ only in what the invariant does not mention.\<close>

definition same_core :: "sm_state \<Rightarrow> sm_state \<Rightarrow> bool" where
  "same_core s s' \<longleftrightarrow>
     pmp s' = pmp s \<and> sm_region_id s' = sm_region_id s \<and> os_region_id s' = os_region_id s \<and> cpus s' = cpus s \<and>
     (\<forall>h. h_pmp (harts s' h) = h_pmp (harts s h)) \<and> length (enclaves s') = length (enclaves s) \<and>
     (\<forall>i<length (enclaves s). e_state (enclaves s' ! i) = e_state (enclaves s ! i) \<and>
        e_regions (enclaves s' ! i) = e_regions (enclaves s ! i) \<and> n_thread (enclaves s' ! i) = n_thread (enclaves s ! i))"

lemma same_core_refl [simp]: "same_core s s"
  by (simp add: same_core_def)

lemma same_core_trans: "same_core s s' \<Longrightarrow> same_core s' s'' \<Longrightarrow> same_core s s''"
  by (simp add: same_core_def)

lemma same_core_memory [simp]: "same_core s (s\<lparr>memory := m\<rparr>)"
  by (simp add: same_core_def)

lemma same_core_rng [simp]: "same_core s (s\<lparr>rng_w := w\<rparr>)"
  by (simp add: same_core_def)

lemma encl_ok_cong:
  assumes "e_state e' = e_state e" and "e_regions e' = e_regions e" and "n_thread e' = n_thread e"
  shows "encl_ok p e' = encl_ok p e"
  using assms by (simp add: encl_ok_def encl_regions_ok_def)

lemma same_core_inv:
  assumes "sm_inv H s" and c: "same_core s s'"
  shows "sm_inv H s'"
proof -
  have len: "length (enclaves s) = 16" using sm_invD(1) [OF assms(1)] .
  have nth: "e_state (enclaves s' ! i) = e_state (enclaves s ! i)" "e_regions (enclaves s' ! i) = e_regions (enclaves s ! i)"
    "n_thread (enclaves s' ! i) = n_thread (enclaves s ! i)" if "i < 16" for i
    using c that by (simp_all add: same_core_def len)
  have lv: "live s' i = live s i" for i using nth(1) by (auto simp: live_def)
  have rg: "epm s' i = epm s i" "utm s' i = utm s i" if "live s i" for i
    using nth(2) that by (simp_all add: epm_def utm_def live_def)
  have rn: "runs s' h i = runs s h i" for h i using c by (simp add: runs_def same_core_def)
  have ids: "sm_region_id s' = sm_region_id s" "os_region_id s' = os_region_id s" "cpus s' = cpus s" "pmp s' = pmp s"
    "length (enclaves s') = 16" "\<And>h. h_pmp (harts s' h) = h_pmp (harts s h)"
    using c len by (simp_all add: same_core_def)
  have "encl_ok (pmp s) e" if e: "e \<in> set (enclaves s')" for e
  proof -
    obtain i where i: "i < 16" "e = enclaves s' ! i" using e ids(5) by (auto simp: in_set_conv_nth)
    have "encl_ok (pmp s) (enclaves s' ! i) = encl_ok (pmp s) (enclaves s ! i)"
      by (rule encl_ok_cong) (rule nth [OF i(1)])+
    then show ?thesis using sm_invD(3) [OF assms(1) i(1)] i(2) by simp
  qed
  moreover have "system_ok s'"
    using sm_invD(4) [OF assms(1)] unfolding system_ok_def ids .
  moreover have "ids_ok s'"
    using sm_invD(5) [OF assms(1)] unfolding ids_ok_def lv ids by (simp add: rg)
  moreover have "cpus_ok H s'"
    using sm_invD(6) [OF assms(1)] nth(1) unfolding cpus_ok_def rn ids by metis
  moreover have "view s' h = view s h" for h
    by (rule ext) (simp add: view_def lv rn ids rg cong: conj_cong)
  ultimately show ?thesis using assms(1) unfolding sm_inv_def ids by simp
qed

lemma nth_update_fun:
  assumes "i < length xs" and "\<And>e. g (f e) = g e"
  shows "g (xs[k := f (xs ! k)] ! i) = g (xs ! i)"
  using assms by (cases "i = k") simp_all

lemma same_core_upd_encl:
  assumes "\<And>e. e_state (f e) = e_state e" and "\<And>e. e_regions (f e) = e_regions e" and "\<And>e. n_thread (f e) = n_thread e"
  shows "same_core s (upd_encl eid f s)"
  by (simp add: same_core_def upd_encl_def nth_update_fun [where g = e_state and f = f] assms
      nth_update_fun [where g = e_regions and f = f] nth_update_fun [where g = n_thread and f = f])

lemma same_core_upd_hart:
  assumes "\<And>x. h_pmp (f x) = h_pmp x"
  shows "same_core s (upd_hart h f s)"
  using assms by (simp add: same_core_def upd_hart_def)

section \<open>Permissions of one hart\<close>

text \<open>Regions share at most the last register.\<close>

lemma shares_reg_iff:
  assumes "pmp_wf p" and "region_valid p x" and "region_valid p j" and "x \<noteq> j"
  shows "shares_reg p x j \<longleftrightarrow> 7 \<in> region_regs (regions p ! x) \<and> 7 \<in> region_regs (regions p ! j)"
proof -
  have "n = 7" if "n \<in> region_regs (regions p ! x)" "n \<in> region_regs (regions p ! j)" for n
    using pmp_wfD(4) [OF assms(1) _ _ assms(4) _ _ that] assms(2,3) by (simp add: region_valid_def)
  then show ?thesis by (auto simp: shares_reg_def)
qed

lemma perm_set_eq:
  assumes "pmp_wf p" and "region_valid p x" and "\<And>j. f j \<noteq> None \<Longrightarrow> region_valid p j"
  shows "perm_set p x perm f = (\<lambda>j. if j = x then Some perm
    else if 7 \<in> region_regs (regions p ! x) \<and> 7 \<in> region_regs (regions p ! j) then None else f j)"
proof
  fix j
  show "perm_set p x perm f j = (if j = x then Some perm
      else if 7 \<in> region_regs (regions p ! x) \<and> 7 \<in> region_regs (regions p ! j) then None else f j)"
  proof (cases "j = x \<or> f j = None")
    case True
    then show ?thesis by (auto simp: perm_set_def perm_unset_def)
  next
    case False
    then show ?thesis using shares_reg_iff [OF assms(1,2) assms(3) [of j]] by (auto simp: perm_set_def perm_unset_def)
  qed
qed

definition dom_valid :: "pmp_state \<Rightarrow> (nat \<Rightarrow> u8 option) \<Rightarrow> bool" where
  "dom_valid p f \<longleftrightarrow> (\<forall>j. f j \<noteq> None \<longrightarrow> region_valid p j)"

lemma dom_valid_set: "dom_valid p f \<Longrightarrow> region_valid p x \<Longrightarrow> dom_valid p (perm_set p x perm f)"
  by (simp add: dom_valid_def perm_set_def perm_unset_def)

lemma perm_set_low:
  assumes "pmp_wf p" and "region_valid p x" and "dom_valid p f" and "7 \<notin> region_regs (regions p ! x)"
  shows "perm_set p x perm f = f(x \<mapsto> perm)"
  using perm_set_eq [OF assms(1,2), of f perm] assms(3,4) by (auto simp: dom_valid_def)

lemma perm_set_high:
  assumes "pmp_wf p" and "region_valid p x" and "dom_valid p f" and "7 \<in> region_regs (regions p ! x)"
  shows "perm_set p x perm f = (\<lambda>j. if j = x then Some perm else if 7 \<in> region_regs (regions p ! j) then None else f j)"
  using perm_set_eq [OF assms(1,2), of f perm] assms(3,4) by (auto simp: dom_valid_def)

lemma local_pmp_set_valid:
  assumes wf: "pmp_wf (pmp s)" and v: "region_valid (pmp s) k"
  shows "\<exists>c. local_pmp_set env (int k) perm s =
      Some (SBI_ERR_SM_PMP_SUCCESS, upd_hart (mhartid env) (\<lambda>h. h\<lparr>h_pmp := c\<rparr>) s) \<and>
    (\<forall>f. hart_pmp (pmp s) (h_pmp (harts s (mhartid env))) f \<longrightarrow> hart_pmp (pmp s) c (perm_set (pmp s) k perm f))"
proof -
  obtain c where "pmp_set_keystone (int k) perm (pmp s) (h_pmp (harts s (mhartid env))) = Some (SBI_ERR_SM_PMP_SUCCESS, c)"
      "entries_set (pmp s) k perm (h_pmp (harts s (mhartid env))) c"
    using pmp_set_keystone_valid [OF wf] v unfolding region_valid_def by blast
  then show ?thesis using hart_pmp_set [OF wf _ v] by (intro exI [of _ c]) (auto simp: local_pmp_set_def)
qed

lemma set_regions_invalid: "\<forall>r\<in>set rs. er_type r = REGION_INVALID \<Longrightarrow> set_regions_perm env perm rs s = Some s"
  by (induction rs) auto

lemma upd_hart_twice [simp]: "upd_hart h f (upd_hart h g s) = upd_hart h (\<lambda>x. f (g x)) s"
  by (simp add: upd_hart_def)

lemma upd_hart_fields [simp]:
  "pmp (upd_hart h f s) = pmp s" "enclaves (upd_hart h f s) = enclaves s" "cpus (upd_hart h f s) = cpus s"
  "os_region_id (upd_hart h f s) = os_region_id s" "sm_region_id (upd_hart h f s) = sm_region_id s"
  "harts (upd_hart h f s) = (harts s)(h := f (harts s h))" "memory (upd_hart h f s) = memory s"
  by (simp_all add: upd_hart_def)

lemma set_regions_perm_valid:
  assumes wf: "pmp_wf (pmp s)" and e: "encl_regions_ok (pmp s) e"
  shows "\<exists>c. set_regions_perm env perm (e_regions e) s = Some (upd_hart (mhartid env) (\<lambda>h. h\<lparr>h_pmp := c\<rparr>) s) \<and>
    (\<forall>f. hart_pmp (pmp s) (h_pmp (harts s (mhartid env))) f \<longrightarrow>
       hart_pmp (pmp s) c (perm_set (pmp s) (nat (pmp_rid (e_regions e ! 1))) perm
         (perm_set (pmp s) (nat (pmp_rid (e_regions e ! 0))) perm f)))"
proof -
  obtain k u rs where r: "e_regions e = \<lparr>pmp_rid = int k, er_type = REGION_EPM\<rparr> # \<lparr>pmp_rid = int u, er_type = REGION_UTM\<rparr> # rs"
    and rs: "\<forall>r\<in>set rs. er_type r = REGION_INVALID" and v: "region_valid (pmp s) k" "region_valid (pmp s) u"
    using e unfolding encl_regions_ok_def by (metis drop_Suc_Cons drop0 numeral_2_eq_2)
  obtain c where c: "local_pmp_set env (int k) perm s =
      Some (SBI_ERR_SM_PMP_SUCCESS, upd_hart (mhartid env) (\<lambda>h. h\<lparr>h_pmp := c\<rparr>) s)"
    "\<And>f. hart_pmp (pmp s) (h_pmp (harts s (mhartid env))) f \<Longrightarrow> hart_pmp (pmp s) c (perm_set (pmp s) k perm f)"
    using local_pmp_set_valid [OF wf v(1)] by blast
  let ?s = "upd_hart (mhartid env) (\<lambda>h. h\<lparr>h_pmp := c\<rparr>) s"
  obtain d where d: "local_pmp_set env (int u) perm ?s =
      Some (SBI_ERR_SM_PMP_SUCCESS, upd_hart (mhartid env) (\<lambda>h. h\<lparr>h_pmp := d\<rparr>) ?s)"
    "\<And>f. hart_pmp (pmp s) c f \<Longrightarrow> hart_pmp (pmp s) d (perm_set (pmp s) u perm f)"
    using local_pmp_set_valid [of ?s u env perm] wf v(2) by auto
  have "set_regions_perm env perm (e_regions e) s = Some (upd_hart (mhartid env) (\<lambda>h. h\<lparr>h_pmp := d\<rparr>) s)"
    using c(1) d(1) set_regions_invalid [OF rs] by (simp add: r)
  then show ?thesis using c(2) d(2) by (intro exI [of _ d]) (simp add: r)
qed

section \<open>Context switches\<close>

text \<open>Only the PMP registers of hart \<open>h\<close> may differ.\<close>

definition only_hart :: "nat \<Rightarrow> sm_state \<Rightarrow> sm_state \<Rightarrow> bool" where
  "only_hart h s s' \<longleftrightarrow>
     pmp s' = pmp s \<and> sm_region_id s' = sm_region_id s \<and> os_region_id s' = os_region_id s \<and> cpus s' = cpus s \<and>
     (\<forall>g. g \<noteq> h \<longrightarrow> h_pmp (harts s' g) = h_pmp (harts s g)) \<and> length (enclaves s') = length (enclaves s) \<and>
     (\<forall>i<length (enclaves s). e_state (enclaves s' ! i) = e_state (enclaves s ! i) \<and>
        e_regions (enclaves s' ! i) = e_regions (enclaves s ! i) \<and> n_thread (enclaves s' ! i) = n_thread (enclaves s ! i))"

lemma only_hart_core: "same_core s s' \<Longrightarrow> only_hart h s s'"
  by (simp add: same_core_def only_hart_def)

lemma only_hart_trans: "only_hart h s s' \<Longrightarrow> only_hart h s' s'' \<Longrightarrow> only_hart h s s''"
  by (simp add: only_hart_def)

lemma only_hart_upd: "only_hart h s (upd_hart h f s)"
  by (simp add: only_hart_def)

lemma swap_context_core:
  assumes "swap_context env regs eid ror s = (regs', s')"
  shows "same_core s s'"
proof -
  obtain t r c where "s' = upd_hart (mhartid env) (\<lambda>h. h\<lparr>h_csrs := c\<rparr>) (upd_encl eid (\<lambda>e. e\<lparr>e_thread := t\<rparr>) s)"
    using assms by (auto simp: swap_context_def Let_def split: prod.splits)
  then show ?thesis
    by (auto intro!: same_core_trans [OF same_core_upd_encl same_core_upd_hart])
qed

lemma encl_regions_cong: "e_regions e' = e_regions e \<Longrightarrow> encl_regions_ok p e' = encl_regions_ok p e"
  by (simp add: encl_regions_ok_def)

lemma upd_encl_hook [simp]:
  "upd_encl eid platform_switch_to_enclave s = s" "upd_encl eid platform_switch_from_enclave s = s"
  "upd_encl eid platform_destroy_enclave s = s"
  by (simp_all add: upd_encl_def platform_hooks)

text \<open>The permissions after the switch, as updates of the abstract permission map.\<close>

definition enter_perms :: "pmp_state \<Rightarrow> nat \<Rightarrow> nat \<Rightarrow> nat \<Rightarrow> (nat \<Rightarrow> u8 option) \<Rightarrow> nat \<Rightarrow> u8 option" where
  "enter_perms p b k u f =
     perm_set p u PMP_ALL_PERM (perm_set p k PMP_ALL_PERM (perm_set p b PMP_NO_PERM f))"

definition exit_perms :: "pmp_state \<Rightarrow> nat \<Rightarrow> nat \<Rightarrow> nat \<Rightarrow> (nat \<Rightarrow> u8 option) \<Rightarrow> nat \<Rightarrow> u8 option" where
  "exit_perms p b k u f =
     perm_set p b PMP_ALL_PERM (perm_set p u PMP_NO_PERM (perm_set p k PMP_NO_PERM f))"

lemma switch_to_enclave:
  assumes wf: "pmp_wf (pmp s)" and os: "os_region_id s = int b" "region_valid (pmp s) b"
    and i: "unat eid < length (enclaves s)" and e: "encl_regions_ok (pmp s) (enclaves s ! unat eid)"
  shows "\<exists>regs' s2. context_switch_to_enclave env regs eid lp s =
      Some (regs', s2\<lparr>cpus := cpu_enter_enclave_context (mhartid env) eid (cpus s)\<rparr>) \<and> only_hart (mhartid env) s s2 \<and>
    (\<forall>f. hart_pmp (pmp s) (h_pmp (harts s (mhartid env))) f \<longrightarrow>
       hart_pmp (pmp s) (h_pmp (harts s2 (mhartid env))) (enter_perms (pmp s) b (epm s (unat eid)) (utm s (unat eid)) f))"
proof -
  let ?h = "mhartid env"
  obtain r1 s1 where s1: "swap_context env regs eid True s = (r1, s1)" by fastforce
  have c1: "same_core s s1" using swap_context_core [OF s1] .
  define f where "f = (\<lambda>x. switch_vector_enclave (if lp then x\<lparr>mideleg := 0, h_csrs := (h_csrs x)\<lparr>satp := 0\<rparr>\<rparr> else x\<lparr>mideleg := 0\<rparr>))"
  define r2 where "r2 = (if lp then load_params (e_params (enclaves s1 ! unat eid)) r1 else r1)"
  define s2 where "s2 = upd_hart ?h f s1"
  have c2: "same_core s1 s2" unfolding s2_def
    by (rule same_core_upd_hart) (simp add: f_def switch_vector_enclave_def)
  have c: "same_core s s2" using same_core_trans [OF c1 c2] .
  have p: "pmp s2 = pmp s" "os_region_id s2 = os_region_id s" "cpus s2 = cpus s" "h_pmp (harts s2 ?h) = h_pmp (harts s ?h)"
    "e_regions (enclaves s2 ! unat eid) = e_regions (enclaves s ! unat eid)"
    using c i by (simp_all add: same_core_def)
  obtain c3 where c3: "local_pmp_set env (int b) PMP_NO_PERM s2 =
      Some (SBI_ERR_SM_PMP_SUCCESS, upd_hart ?h (\<lambda>x. x\<lparr>h_pmp := c3\<rparr>) s2)"
    "\<And>f. hart_pmp (pmp s) (h_pmp (harts s ?h)) f \<Longrightarrow> hart_pmp (pmp s) c3 (perm_set (pmp s) b PMP_NO_PERM f)"
    using local_pmp_set_valid [of s2 b env PMP_NO_PERM] wf os(2) p by auto
  define s3 where "s3 = upd_hart ?h (\<lambda>x. x\<lparr>h_pmp := c3\<rparr>) s2"
  have p3: "pmp s3 = pmp s" "h_pmp (harts s3 ?h) = c3" "enclaves s3 = enclaves s2" "cpus s3 = cpus s2" by (simp_all add: s3_def p)
  have e3: "encl_regions_ok (pmp s3) (enclaves s3 ! unat eid)" using e p by (simp add: p3 encl_regions_ok_def)
  obtain c4 where c4: "set_regions_perm env PMP_ALL_PERM (e_regions (enclaves s3 ! unat eid)) s3 =
      Some (upd_hart ?h (\<lambda>x. x\<lparr>h_pmp := c4\<rparr>) s3)"
    "\<And>f. hart_pmp (pmp s) c3 f \<Longrightarrow> hart_pmp (pmp s) c4 (perm_set (pmp s) (utm s (unat eid)) PMP_ALL_PERM
       (perm_set (pmp s) (epm s (unat eid)) PMP_ALL_PERM f))"
    using set_regions_perm_valid [of s3 "enclaves s3 ! unat eid" env PMP_ALL_PERM] wf e3 p3 p(5)
    by (auto simp: utm_def epm_def)
  define s4 where "s4 = upd_hart ?h (\<lambda>x. x\<lparr>h_pmp := c4\<rparr>) s3"
  have "context_switch_to_enclave env regs eid lp s =
      Some (r2, s4\<lparr>cpus := cpu_enter_enclave_context ?h eid (cpus s)\<rparr>)"
    using c3(1) c4(1) s1 p os(1) p3 unfolding s4_def s3_def s2_def r2_def f_def
    by (cases lp) (simp_all add: context_switch_to_enclave_def Let_def osm_pmp_set_def)
  moreover have "only_hart ?h s s4"
    unfolding s4_def s3_def by (rule only_hart_trans [OF only_hart_trans [OF only_hart_core [OF c] only_hart_upd] only_hart_upd])
  moreover have "h_pmp (harts s4 ?h) = c4" by (simp add: s4_def)
  ultimately show ?thesis using c3(2) c4(2) by (intro exI [of _ r2] exI [of _ s4]) (simp add: enter_perms_def)
qed

lemma switch_to_host:
  assumes wf: "pmp_wf (pmp s)" and os: "os_region_id s = int b" "region_valid (pmp s) b"
    and i: "unat eid < length (enclaves s)" and e: "encl_regions_ok (pmp s) (enclaves s ! unat eid)"
  shows "\<exists>regs' s2. context_switch_to_host env regs eid ror s =
      Some (regs', s2\<lparr>cpus := cpu_exit_enclave_context (mhartid env) (cpus s)\<rparr>) \<and> only_hart (mhartid env) s s2 \<and>
    (\<forall>f. hart_pmp (pmp s) (h_pmp (harts s (mhartid env))) f \<longrightarrow>
       hart_pmp (pmp s) (h_pmp (harts s2 (mhartid env))) (exit_perms (pmp s) b (epm s (unat eid)) (utm s (unat eid)) f))"
proof -
  let ?h = "mhartid env"
  obtain c1 where c1: "set_regions_perm env PMP_NO_PERM (e_regions (enclaves s ! unat eid)) s =
      Some (upd_hart ?h (\<lambda>x. x\<lparr>h_pmp := c1\<rparr>) s)"
    "\<And>f. hart_pmp (pmp s) (h_pmp (harts s ?h)) f \<Longrightarrow> hart_pmp (pmp s) c1 (perm_set (pmp s) (utm s (unat eid)) PMP_NO_PERM
       (perm_set (pmp s) (epm s (unat eid)) PMP_NO_PERM f))"
    using set_regions_perm_valid [OF wf e, of env PMP_NO_PERM] by (auto simp: utm_def epm_def)
  define s1 where "s1 = upd_hart ?h (\<lambda>x. x\<lparr>h_pmp := c1\<rparr>) s"
  have p1: "pmp s1 = pmp s" "os_region_id s1 = int b" "h_pmp (harts s1 ?h) = c1" by (simp_all add: s1_def os(1))
  obtain c2 where c2: "local_pmp_set env (int b) PMP_ALL_PERM s1 =
      Some (SBI_ERR_SM_PMP_SUCCESS, upd_hart ?h (\<lambda>x. x\<lparr>h_pmp := c2\<rparr>) s1)"
    "\<And>f. hart_pmp (pmp s) c1 f \<Longrightarrow> hart_pmp (pmp s) c2 (perm_set (pmp s) b PMP_ALL_PERM f)"
    using local_pmp_set_valid [of s1 b env PMP_ALL_PERM] wf os(2) p1 by auto
  define s2 where "s2 = upd_hart ?h (\<lambda>x. x\<lparr>h_pmp := c2\<rparr>) s1"
  define s3 where "s3 = upd_hart ?h (\<lambda>x. x\<lparr>mideleg := MIP_SSIP OR MIP_STIP OR MIP_SEIP\<rparr>) s2"
  obtain r4 s4 where s4: "swap_context env regs eid ror s3 = (r4, s4)" by fastforce
  define s5 where "s5 = upd_hart ?h switch_vector_host s4"
  define pend where "pend = mip (harts s5 ?h)"
  define s6 where "s6 = upd_hart ?h (\<lambda>x. x\<lparr>mip := forward_pending pend MIP_MEIP MIP_SEIP (mip x)\<rparr>)
     (upd_hart ?h (\<lambda>x. x\<lparr>mip := forward_pending pend MIP_MSIP MIP_SSIP (mip x)\<rparr>)
     (upd_hart ?h (\<lambda>x. x\<lparr>mip := forward_pending pend MIP_MTIP MIP_STIP (mip x)\<rparr>) s5))"
  have "same_core s2 s3" unfolding s3_def by (rule same_core_upd_hart) simp
  moreover have "same_core s3 s4" using swap_context_core [OF s4] .
  moreover have "same_core s4 s5" unfolding s5_def by (rule same_core_upd_hart) (simp add: switch_vector_host_def)
  moreover have "same_core s5 s6" unfolding s6_def upd_hart_twice by (rule same_core_upd_hart) simp
  ultimately have c26: "same_core s2 s6" by (blast intro: same_core_trans)
  have oh: "only_hart ?h s s2"
    unfolding s2_def s1_def by (rule only_hart_trans [OF only_hart_upd only_hart_upd])
  have oh6: "only_hart ?h s s6" using only_hart_trans [OF oh only_hart_core [OF c26]] .
  have "context_switch_to_host env regs eid ror s =
      Some (r4, s6\<lparr>cpus := cpu_exit_enclave_context ?h (cpus s6)\<rparr>)"
    using c1(1) c2(1) s4 p1(2)
    by (simp add: context_switch_to_host_def Let_def osm_pmp_set_def s6_def s5_def s3_def s2_def s1_def pend_def
        del: upd_hart_twice)
  moreover have "cpus s6 = cpus s" using oh6 by (simp add: only_hart_def)
  moreover have "h_pmp (harts s6 ?h) = c2" using c26 by (simp add: same_core_def s2_def)
  ultimately show ?thesis using oh6 c1(2) c2(2) by (intro exI [of _ r4] exI [of _ s6]) (simp add: exit_perms_def)
qed

section \<open>The permissions after a switch are those of the new context\<close>

lemma view_cong:
  assumes "\<And>i. live s' i = live s i" and "\<And>i. live s i \<Longrightarrow> epm s' i = epm s i" and "\<And>i. live s i \<Longrightarrow> utm s' i = utm s i"
    and "sm_region_id s' = sm_region_id s" and "os_region_id s' = os_region_id s" and "cpus s' h = cpus s h"
  shows "view s' h = view s h"
  by (rule ext) (simp add: view_def runs_def assms cong: conj_cong)

lemma view_sm [simp]: "view s h a = Some PMP_NO_PERM" if "sm_region_id s = int a"
  using that by (simp add: view_def)

lemma view_os: "view s h b = (if is_enclave (cpus s h) then None else Some PMP_ALL_PERM)"
  if "os_region_id s = int b" "sm_region_id s \<noteq> int b"
  using that by (auto simp: view_def)

lemma view_epm:
  assumes "ids_ok s" and "live s i"
  shows "view s h (epm s i) = Some (if runs s h i then PMP_ALL_PERM else PMP_NO_PERM)"
proof -
  have "int (epm s i) \<noteq> sm_region_id s" "int (epm s i) \<noteq> os_region_id s" "\<And>j. live s j \<Longrightarrow> epm s j = epm s i \<Longrightarrow> j = i"
    using assms unfolding ids_ok_def by blast+
  then show ?thesis using assms(2) by (auto simp: view_def)
qed

lemma view_utm:
  assumes "ids_ok s" and "live s i"
  shows "view s h (utm s i) = (if runs s h i then Some PMP_ALL_PERM else None)"
proof -
  have "int (utm s i) \<noteq> sm_region_id s" "int (utm s i) \<noteq> os_region_id s" "\<And>j. live s j \<Longrightarrow> utm s j = utm s i \<Longrightarrow> j = i"
    "\<And>j. live s j \<Longrightarrow> epm s j \<noteq> utm s i"
    using assms unfolding ids_ok_def by blast+
  then show ?thesis using assms(2) by (auto simp: view_def)
qed

lemma view_none:
  assumes "sm_region_id s \<noteq> int k" and "os_region_id s \<noteq> int k" and "\<And>i. live s i \<Longrightarrow> epm s i \<noteq> k" and "\<And>i. live s i \<Longrightarrow> utm s i \<noteq> k"
  shows "view s h k = None"
  using assms by (auto simp: view_def)

text \<open>Every region number is one of these five.\<close>

lemma region_cases:
  obtains (sm) "sm_region_id s = int k" | (os) "os_region_id s = int k" | (epm) i where "live s i" "k = epm s i"
    | (utm) i where "live s i" "k = utm s i"
    | (other) "sm_region_id s \<noteq> int k" "os_region_id s \<noteq> int k" "\<And>i. live s i \<Longrightarrow> epm s i \<noteq> k" "\<And>i. live s i \<Longrightarrow> utm s i \<noteq> k"
  by metis

lemma view_valid:
  assumes "sm_inv H s" and "h \<in> H" and "view s h k \<noteq> None"
  shows "region_valid (pmp s) k"
  using hart_pmpD(1) [OF sm_invD(7) [OF assms(1,2)]] assms(3) by auto

text \<open>The same enclaves and regions, whatever runs on the harts.\<close>

definition same_regions :: "sm_state \<Rightarrow> sm_state \<Rightarrow> bool" where
  "same_regions s s' \<longleftrightarrow> pmp s' = pmp s \<and> sm_region_id s' = sm_region_id s \<and> os_region_id s' = os_region_id s \<and>
     (\<forall>i. live s' i = live s i) \<and> (\<forall>i. live s i \<longrightarrow> epm s' i = epm s i \<and> utm s' i = utm s i)"

lemma same_regions_ids: "same_regions s s' \<Longrightarrow> ids_ok s' = ids_ok s"
  by (simp add: same_regions_def ids_ok_def)

lemma system_okE:
  assumes "system_ok s"
  obtains a b where "sm_region_id s = int a" "os_region_id s = int b" "a \<noteq> b" "region_valid (pmp s) a" "region_valid (pmp s) b"
    "region_regs (regions (pmp s) ! a) = {0}" "region_regs (regions (pmp s) ! b) = {7}"
  using assms unfolding system_ok_def by blast

lemma enter_view:
  assumes inv: "sm_inv H s" and h: "h \<in> H" "\<not> is_enclave (cpus s h)" and i: "live s i" and b: "os_region_id s = int b"
    and same: "same_regions s s'" and r: "runs s' h i"
  shows "enter_perms (pmp s) b (epm s i) (utm s i) (view s h) = view s' h"
proof
  fix j
  let ?R = "\<lambda>k. region_regs (regions (pmp s) ! k)"
  obtain a b' where sys: "sm_region_id s = int a" "os_region_id s = int b'" "a \<noteq> b'" "region_valid (pmp s) b'"
      "?R a = {0}" "?R b' = {7}" by (rule system_okE [OF sm_invD(4) [OF inv]])
  have b': "b' = b" using sys b by simp
  note wf = sm_invD(2) [OF inv] and ids = sm_invD(5) [OF inv]
  note L = live_regions [OF inv]
  have ids': "ids_ok s'" using same ids same_regions_ids by blast
  have sr: "sm_region_id s' = int a" "os_region_id s' = int b" "\<And>x. live s' x = live s x"
    "\<And>x. live s x \<Longrightarrow> epm s' x = epm s x" "\<And>x. live s x \<Longrightarrow> utm s' x = utm s x"
    using same sys b' by (auto simp: same_regions_def)
  have rj: "runs s' h x \<longleftrightarrow> x = i" for x using r by (auto simp: runs_def)
  have nr: "\<not> runs s h x" for x using h(2) by (simp add: runs_def)
  have ie: "is_enclave (cpus s' h)" using r by (simp add: runs_def)
  have dv: "dom_valid (pmp s) (view s h)" using view_valid [OF inv h(1)] by (simp add: dom_valid_def)
  have bv: "region_valid (pmp s) b" "7 \<in> ?R b" "7 \<in> ?R (utm s i)" using sys b' L(9) [OF i] by auto
  note dv1 = dom_valid_set [OF dv bv(1), of PMP_NO_PERM]
  note dv2 = dom_valid_set [OF dv1 L(3) [OF i], of PMP_ALL_PERM]
  have F: "enter_perms (pmp s) b (epm s i) (utm s i) (view s h) j =
      (if j = utm s i then Some PMP_ALL_PERM else if 7 \<in> ?R j then None
       else if j = epm s i then Some PMP_ALL_PERM else if j = b then Some PMP_NO_PERM else view s h j)"
    unfolding enter_perms_def
    unfolding perm_set_high [OF wf L(4) [OF i] dv2 bv(3)]
    unfolding perm_set_low [OF wf L(3) [OF i] dv1 L(8) [OF i]]
    unfolding perm_set_high [OF wf bv(1) dv bv(2)] by simp
  have k: "7 \<notin> ?R (epm s x)" "?R (utm s x) = {7}" "epm s x \<noteq> b" "utm s x \<noteq> b" "epm s x \<noteq> a" "utm s x \<noteq> a"
    "epm s x \<noteq> utm s i" "epm s x = epm s i \<longleftrightarrow> x = i" "utm s x = utm s i \<longleftrightarrow> x = i" if "live s x" for x
    using L(8,9) [OF that] ids that i sys b' by (auto simp: ids_ok_def)
  show "enter_perms (pmp s) b (epm s i) (utm s i) (view s h) j = view s' h j"
  proof (cases rule: region_cases [of s j])
    case sm
    then have "j = a" using sys by simp
    then show ?thesis unfolding F using k [OF i] sys b' sr by auto
  next
    case os
    then have "j = b" using b by simp
    then show ?thesis unfolding F using k [OF i] sys b' sr ie by (auto simp: view_os)
  next
    case (epm x)
    then show ?thesis unfolding F
      using k [OF epm(1)] view_epm [OF ids epm(1), of h] view_epm [OF ids', of x h] sr nr rj by auto
  next
    case (utm x)
    then show ?thesis unfolding F using k [OF utm(1)] view_utm [OF ids', of x h] sr rj by auto
  next
    case other
    have "view s' h j = None" using other sys sr b' by (intro view_none) auto
    moreover have "view s h j = None" using other by (rule view_none)
    moreover have "j \<noteq> b" "j \<noteq> epm s i" "j \<noteq> utm s i" using other i b by auto
    ultimately show ?thesis unfolding F by simp
  qed
qed

lemma exit_view:
  assumes inv: "sm_inv H s" and h: "h \<in> H" and i: "live s i" "runs s h i" and b: "os_region_id s = int b"
    and same: "same_regions s s'" and r: "\<not> is_enclave (cpus s' h)"
  shows "exit_perms (pmp s) b (epm s i) (utm s i) (view s h) = view s' h"
proof
  fix j
  let ?R = "\<lambda>k. region_regs (regions (pmp s) ! k)"
  obtain a b' where sys: "sm_region_id s = int a" "os_region_id s = int b'" "a \<noteq> b'" "region_valid (pmp s) b'"
      "?R a = {0}" "?R b' = {7}" by (rule system_okE [OF sm_invD(4) [OF inv]])
  have b': "b' = b" using sys b by simp
  note wf = sm_invD(2) [OF inv] and ids = sm_invD(5) [OF inv]
  note L = live_regions [OF inv]
  have ids': "ids_ok s'" using same ids same_regions_ids by blast
  have sr: "sm_region_id s' = int a" "os_region_id s' = int b" "\<And>x. live s' x = live s x"
    "\<And>x. live s x \<Longrightarrow> epm s' x = epm s x" "\<And>x. live s x \<Longrightarrow> utm s' x = utm s x"
    using same sys b' by (auto simp: same_regions_def)
  have rj: "runs s h x \<longleftrightarrow> x = i" for x using i(2) by (auto simp: runs_def)
  have nr: "\<not> runs s' h x" for x using r by (simp add: runs_def)
  have dv: "dom_valid (pmp s) (view s h)" using view_valid [OF inv h] by (simp add: dom_valid_def)
  have bv: "region_valid (pmp s) b" "7 \<in> ?R b" "7 \<in> ?R (utm s i)" using sys b' L(9) [OF i(1)] by auto
  note dv1 = dom_valid_set [OF dv L(3) [OF i(1)], of PMP_NO_PERM]
  note dv2 = dom_valid_set [OF dv1 L(4) [OF i(1)], of PMP_NO_PERM]
  have F: "exit_perms (pmp s) b (epm s i) (utm s i) (view s h) j =
      (if j = b then Some PMP_ALL_PERM else if 7 \<in> ?R j then None
       else if j = utm s i then Some PMP_NO_PERM else if j = epm s i then Some PMP_NO_PERM else view s h j)"
    unfolding exit_perms_def
    unfolding perm_set_high [OF wf bv(1) dv2 bv(2)]
    unfolding perm_set_high [OF wf L(4) [OF i(1)] dv1 bv(3)]
    unfolding perm_set_low [OF wf L(3) [OF i(1)] dv L(8) [OF i(1)]] by simp
  have k: "7 \<notin> ?R (epm s x)" "?R (utm s x) = {7}" "epm s x \<noteq> b" "utm s x \<noteq> b" "epm s x \<noteq> a" "utm s x \<noteq> a"
    "epm s x \<noteq> utm s i" "epm s x = epm s i \<longleftrightarrow> x = i" "utm s x = utm s i \<longleftrightarrow> x = i" if "live s x" for x
    using L(8,9) [OF that] ids that i sys b' by (auto simp: ids_ok_def)
  show "exit_perms (pmp s) b (epm s i) (utm s i) (view s h) j = view s' h j"
  proof (cases rule: region_cases [of s j])
    case sm
    then have "j = a" using sys by simp
    then show ?thesis unfolding F using k [OF i(1)] sys b' sr by auto
  next
    case os
    then have "j = b" using b by simp
    then show ?thesis unfolding F using sys b' sr r by (auto simp: view_os)
  next
    case (epm x)
    then show ?thesis unfolding F
      using k [OF epm(1)] view_epm [OF ids epm(1), of h] view_epm [OF ids', of x h] sr nr rj by auto
  next
    case (utm x)
    then show ?thesis unfolding F using k [OF utm(1)] view_utm [OF ids', of x h] sr nr by auto
  next
    case other
    have "view s' h j = None" using other sys sr b' by (intro view_none) auto
    moreover have "view s h j = None" using other by (rule view_none)
    moreover have "j \<noteq> b" "j \<noteq> epm s i" "j \<noteq> utm s i" using other i b by auto
    ultimately show ?thesis unfolding F by simp
  qed
qed

section \<open>Running, stopping, resuming and leaving keep the invariant\<close>

lemma upd_encl_fields [simp]:
  "pmp (upd_encl eid f s) = pmp s" "cpus (upd_encl eid f s) = cpus s" "harts (upd_encl eid f s) = harts s"
  "os_region_id (upd_encl eid f s) = os_region_id s" "sm_region_id (upd_encl eid f s) = sm_region_id s"
  "enclaves (upd_encl eid f s) = (enclaves s)[unat eid := f (enclaves s ! unat eid)]" "memory (upd_encl eid f s) = memory s"
  by (simp_all add: upd_encl_def)

text \<open>A switch of enclave \<open>eid\<close> on hart \<open>h\<close>: its state changes from \<open>s\<close> to \<open>s'\<close>, its regions do not.\<close>

definition switched :: "nat \<Rightarrow> enclave_id \<Rightarrow> (enclave \<Rightarrow> enclave) \<Rightarrow> (nat \<Rightarrow> cpu_state) \<Rightarrow> sm_state \<Rightarrow> sm_state \<Rightarrow> bool" where
  "switched h eid f c s s' \<longleftrightarrow> (\<exists>s2. only_hart h (upd_encl eid f s) s2 \<and> s' = s2\<lparr>cpus := c\<rparr>)"

lemma switchedD:
  assumes sw: "switched h eid f c s s'" and len: "length (enclaves s) = 16" and eid: "unat eid < 16"
    and f: "e_regions (f (enclaves s ! unat eid)) = e_regions (enclaves s ! unat eid)"
      "e_state (f (enclaves s ! unat eid)) \<noteq> INVALID" "e_state (enclaves s ! unat eid) \<noteq> INVALID"
  shows "pmp s' = pmp s" and "length (enclaves s') = 16" and "cpus s' = c"
    and "g \<noteq> h \<Longrightarrow> h_pmp (harts s' g) = h_pmp (harts s g)" and "same_regions s s'"
    and "i < 16 \<Longrightarrow> e_regions (enclaves s' ! i) = e_regions (enclaves s ! i)"
    and "i < 16 \<Longrightarrow> e_state (enclaves s' ! i) = (if i = unat eid then e_state (f (enclaves s ! unat eid)) else e_state (enclaves s ! i))"
    and "i < 16 \<Longrightarrow> n_thread (enclaves s' ! i) = (if i = unat eid then n_thread (f (enclaves s ! unat eid)) else n_thread (enclaves s ! i))"
proof -
  obtain s2 where oh: "only_hart h (upd_encl eid f s) s2" and s': "s' = s2\<lparr>cpus := c\<rparr>" using sw by (auto simp: switched_def)
  have nth: "e_state (enclaves s2 ! i) = e_state ((enclaves s)[unat eid := f (enclaves s ! unat eid)] ! i)"
    "e_regions (enclaves s2 ! i) = e_regions ((enclaves s)[unat eid := f (enclaves s ! unat eid)] ! i)"
    "n_thread (enclaves s2 ! i) = n_thread ((enclaves s)[unat eid := f (enclaves s ! unat eid)] ! i)" if "i < 16" for i
    using oh that len by (simp_all add: only_hart_def)
  show "pmp s' = pmp s" "length (enclaves s') = 16" "cpus s' = c" using oh len by (simp_all add: s' only_hart_def)
  show "g \<noteq> h \<Longrightarrow> h_pmp (harts s' g) = h_pmp (harts s g)" using oh by (simp add: s' only_hart_def)
  show st: "e_state (enclaves s' ! i) = (if i = unat eid then e_state (f (enclaves s ! unat eid)) else e_state (enclaves s ! i))"
    and rg: "e_regions (enclaves s' ! i) = e_regions (enclaves s ! i)"
    and "n_thread (enclaves s' ! i) = (if i = unat eid then n_thread (f (enclaves s ! unat eid)) else n_thread (enclaves s ! i))"
    if "i < 16" for i
    using nth [OF that] that len eid f(1) by (auto simp: s' nth_list_update)
  have "live s' i = live s i" for i
    using f(2,3) by (cases "i < 16"; cases "i = unat eid") (simp_all add: live_def st)
  moreover have "epm s' i = epm s i \<and> utm s' i = utm s i" if "live s i" for i
    using rg [of i] that by (simp add: live_def epm_def utm_def)
  ultimately show "same_regions s s'" using oh by (simp add: same_regions_def s' only_hart_def)
qed

lemma inv_switch:
  assumes inv: "sm_inv H s" and sw: "switched h eid f c s s'" and eid: "live s (unat eid)"
    and f: "e_regions (f (enclaves s ! unat eid)) = e_regions (enclaves s ! unat eid)"
      "e_state (f (enclaves s ! unat eid)) \<in> {STOPPED, RUNNING}"
      "n_thread (f (enclaves s ! unat eid)) = (if e_state (f (enclaves s ! unat eid)) = RUNNING then 1 else 0)"
    and c: "\<And>g. g \<noteq> h \<Longrightarrow> c g = cpus s g" and cpus: "cpus_ok H s'"
    and hp: "h \<in> H \<Longrightarrow> hart_pmp (pmp s) (h_pmp (harts s' h)) (view s' h)"
  shows "sm_inv H s'"
proof -
  have eid16: "unat eid < 16" and ni: "e_state (enclaves s ! unat eid) \<noteq> INVALID" using eid by (simp_all add: live_def)
  have f': "e_state (f (enclaves s ! unat eid)) \<noteq> INVALID" using f(2) by auto
  note D = switchedD [OF sw sm_invD(1) [OF inv] eid16 f(1) f' ni]
  have "encl_ok (pmp s) e" if e: "e \<in> set (enclaves s')" for e
  proof -
    obtain i where i: "i < 16" "e = enclaves s' ! i" using e D(2) by (auto simp: in_set_conv_nth)
    show ?thesis
    proof (cases "i = unat eid")
      case True
      then show ?thesis
        using D(6,7,8) [OF i(1)] i live_regions(1,2) [OF inv eid] f(2,3) by (auto simp: encl_ok_def encl_regions_ok_def)
    next
      case False
      have "encl_ok (pmp s) e = encl_ok (pmp s) (enclaves s ! i)"
        by (rule encl_ok_cong) (use D(6,7,8) [OF i(1)] i False in simp_all)
      then show ?thesis using sm_invD(3) [OF inv i(1)] by simp
    qed
  qed
  moreover have "system_ok s'" using sm_invD(4) [OF inv] D(5) unfolding same_regions_def system_ok_def by simp
  moreover have "ids_ok s'" using sm_invD(5) [OF inv] same_regions_ids [OF D(5)] by simp
  moreover have "hart_pmp (pmp s) (h_pmp (harts s' g)) (view s' g)" if g: "g \<in> H" for g
  proof (cases "g = h")
    case True
    then show ?thesis using hp g by simp
  next
    case False
    then have "view s' g = view s g" using D(3,5) c by (intro view_cong) (auto simp: same_regions_def)
    then show ?thesis using sm_invD(7) [OF inv g] D(4) [OF False] by simp
  qed
  ultimately show ?thesis using sm_invD(2) [OF inv] D(1,2) cpus unfolding sm_inv_def by simp
qed

lemma enclave_context:
  assumes inv: "sm_inv H s" and h: "h \<in> H" "is_enclave (cpus s h)"
  shows "live s (unat (cpu_eid (cpus s h)))" and "runs s h (unat (cpu_eid (cpus s h)))"
    and "e_state (enclaves s ! unat (cpu_eid (cpus s h))) = RUNNING"
  using sm_invD(6) [OF inv] h by (auto simp: cpus_ok_def live_def runs_def)

lemma enter_inv:
  assumes inv: "sm_inv H s" and h: "mhartid env \<in> H" "\<not> is_enclave (cpus s (mhartid env))"
    and eid: "live s (unat eid)" and nr: "e_state (enclaves s ! unat eid) \<noteq> RUNNING"
    and f: "e_regions (f (enclaves s ! unat eid)) = e_regions (enclaves s ! unat eid)"
      "e_state (f (enclaves s ! unat eid)) = RUNNING" "n_thread (f (enclaves s ! unat eid)) = 1"
  shows "\<exists>regs' s'. context_switch_to_enclave env regs eid lp (upd_encl eid f s) = Some (regs', s') \<and> sm_inv H s' \<and>
    switched (mhartid env) eid f (cpu_enter_enclave_context (mhartid env) eid (cpus s)) s s'"
proof -
  let ?h = "mhartid env" and ?s = "upd_encl eid f s" and ?c = "cpu_enter_enclave_context (mhartid env) eid (cpus s)"
  have eid16: "unat eid < 16" and len: "length (enclaves s) = 16" using eid sm_invD(1) [OF inv] by (simp_all add: live_def)
  obtain a b where sys: "os_region_id s = int b" "region_valid (pmp s) b" by (rule system_okE [OF sm_invD(4) [OF inv]])
  have er: "encl_regions_ok (pmp s) (enclaves ?s ! unat eid)"
    using live_regions(1) [OF inv eid] f(1) eid16 len by (simp add: encl_regions_ok_def)
  have eu: "epm ?s (unat eid) = epm s (unat eid)" "utm ?s (unat eid) = utm s (unat eid)"
    using f(1) eid16 len by (simp_all add: epm_def utm_def)
  obtain r s2 where sw: "context_switch_to_enclave env regs eid lp ?s = Some (r, s2\<lparr>cpus := ?c\<rparr>)" "only_hart ?h ?s s2"
      "\<And>g. hart_pmp (pmp s) (h_pmp (harts s ?h)) g \<Longrightarrow>
        hart_pmp (pmp s) (h_pmp (harts s2 ?h)) (enter_perms (pmp s) b (epm s (unat eid)) (utm s (unat eid)) g)"
    using switch_to_enclave [of ?s b eid env regs lp] sm_invD(2) [OF inv] sys eid16 len er by (auto simp: eu)
  define s' where "s' = s2\<lparr>cpus := ?c\<rparr>"
  have swd: "switched ?h eid f ?c s s'" using sw(2) by (auto simp: switched_def s'_def)
  have ni: "e_state (f (enclaves s ! unat eid)) \<noteq> INVALID" "e_state (enclaves s ! unat eid) \<noteq> INVALID"
    using f(2) eid by (simp_all add: live_def)
  note D = switchedD [OF swd len eid16 f(1) ni]
  have rn: "runs s' ?h (unat eid)" by (simp add: runs_def s'_def cpu_enter_enclave_context_def)
  have rg: "runs s' g i \<longleftrightarrow> (if g = ?h then i = unat eid else runs s g i)" for g i
    using h(2) by (auto simp: runs_def s'_def cpu_enter_enclave_context_def)
  have no: "\<not> runs s g (unat eid)" if "g \<in> H" for g
    using sm_invD(6) [OF inv] that nr by (auto simp: cpus_ok_def runs_def)
  have "cpus_ok H s'"
    unfolding cpus_ok_def
  proof (intro conjI ballI allI impI)
    fix g assume g: "g \<in> H" "is_enclave (cpus s' g)"
    have "g = ?h \<or> g \<noteq> ?h \<and> is_enclave (cpus s g) \<and> cpus s' g = cpus s g"
      using g(2) by (auto simp: s'_def cpu_enter_enclave_context_def)
    then show "unat (cpu_eid (cpus s' g)) < 16" "e_state (enclaves s' ! unat (cpu_eid (cpus s' g))) = RUNNING"
      using enclave_context [OF inv g(1)] D(7) eid16 f(2) rn by (auto simp: runs_def live_def)
  next
    fix g g' i assume "g \<in> H" "g' \<in> H" "runs s' g i" "runs s' g' i"
    then show "g = g'" using sm_invD(6) [OF inv] no unfolding rg cpus_ok_def by (metis (full_types))
  next
    fix i assume i: "i < 16" "e_state (enclaves s' ! i) = RUNNING"
    show "\<exists>g\<in>H. runs s' g i"
    proof (cases "i = unat eid")
      case False
      then obtain g where "g \<in> H" "runs s g i" using i D(7) sm_invD(6) [OF inv] by (auto simp: cpus_ok_def)
      moreover from this have "g \<noteq> ?h" using h(2) by (auto simp: runs_def)
      ultimately show ?thesis unfolding rg by auto
    qed (use rn h in auto)
  qed
  moreover have "hart_pmp (pmp s) (h_pmp (harts s' ?h)) (view s' ?h)"
    using sw(3) [OF sm_invD(7) [OF inv h(1)]] enter_view [OF inv h eid sys(1) D(5) rn] by (simp add: s'_def)
  ultimately have "sm_inv H s'"
    using f by (intro inv_switch [OF inv swd eid]) (auto simp: cpu_enter_enclave_context_def)
  then show ?thesis using sw(1) swd by (auto simp: s'_def)
qed

lemma leave_enclave_stops:
  assumes "encl_ok p e" and "e_state e = RUNNING"
  shows "e_state (leave_enclave e) = STOPPED" and "n_thread (leave_enclave e) = 0" and "e_regions (leave_enclave e) = e_regions e"
  using assms by (simp_all add: encl_ok_def leave_enclave_def Let_def)

lemma leave_inv:
  assumes inv: "sm_inv H s" and h: "mhartid env \<in> H" and r: "runs s (mhartid env) (unat eid)"
  shows "\<exists>regs' s'. context_switch_to_host env regs eid ror (upd_encl eid leave_enclave s) = Some (regs', s') \<and> sm_inv H s' \<and>
    switched (mhartid env) eid leave_enclave (cpu_exit_enclave_context (mhartid env) (cpus s)) s s'"
proof -
  let ?h = "mhartid env" and ?s = "upd_encl eid leave_enclave s" and ?c = "cpu_exit_enclave_context (mhartid env) (cpus s)"
  have eid: "live s (unat eid)" and run: "e_state (enclaves s ! unat eid) = RUNNING"
    using enclave_context [OF inv h] r by (simp_all add: runs_def)
  have eid16: "unat eid < 16" and len: "length (enclaves s) = 16" using eid sm_invD(1) [OF inv] by (simp_all add: live_def)
  note f = leave_enclave_stops [OF sm_invD(3) [OF inv eid16] run]
  obtain a b where sys: "os_region_id s = int b" "region_valid (pmp s) b" by (rule system_okE [OF sm_invD(4) [OF inv]])
  have er: "encl_regions_ok (pmp s) (enclaves ?s ! unat eid)"
    using live_regions(1) [OF inv eid] f(3) eid16 len by (simp add: encl_regions_ok_def)
  have eu: "epm ?s (unat eid) = epm s (unat eid)" "utm ?s (unat eid) = utm s (unat eid)"
    using f(3) eid16 len by (simp_all add: epm_def utm_def)
  obtain r s2 where sw: "context_switch_to_host env regs eid ror ?s = Some (r, s2\<lparr>cpus := ?c\<rparr>)" "only_hart ?h ?s s2"
      "\<And>g. hart_pmp (pmp s) (h_pmp (harts s ?h)) g \<Longrightarrow>
        hart_pmp (pmp s) (h_pmp (harts s2 ?h)) (exit_perms (pmp s) b (epm s (unat eid)) (utm s (unat eid)) g)"
    using switch_to_host [of ?s b eid env regs ror] sm_invD(2) [OF inv] sys eid16 len er by (auto simp: eu)
  define s' where "s' = s2\<lparr>cpus := ?c\<rparr>"
  have swd: "switched ?h eid leave_enclave ?c s s'" using sw(2) by (auto simp: switched_def s'_def)
  have ni: "e_state (leave_enclave (enclaves s ! unat eid)) \<noteq> INVALID" "e_state (enclaves s ! unat eid) \<noteq> INVALID"
    using f(1) run by simp_all
  note D = switchedD [OF swd len eid16 f(3) ni]
  have rg: "runs s' g i \<longleftrightarrow> g \<noteq> ?h \<and> runs s g i" for g i
    by (auto simp: runs_def s'_def cpu_exit_enclave_context_def)
  have one: "g = ?h" if "g \<in> H" "runs s g (unat eid)" for g
    using sm_invD(6) [OF inv] that r h by (auto simp: cpus_ok_def)
  have "cpus_ok H s'"
    unfolding cpus_ok_def
  proof (intro conjI ballI allI impI)
    fix g assume g: "g \<in> H" "is_enclave (cpus s' g)"
    then have n: "g \<noteq> ?h" "is_enclave (cpus s g)" "cpus s' g = cpus s g"
      by (auto simp: s'_def cpu_exit_enclave_context_def split: if_splits)
    have "unat (cpu_eid (cpus s g)) \<noteq> unat eid" using one [OF g(1)] n by (auto simp: runs_def)
    then show "unat (cpu_eid (cpus s' g)) < 16" "e_state (enclaves s' ! unat (cpu_eid (cpus s' g))) = RUNNING"
      using enclave_context [OF inv g(1) n(2)] n D(7) by (auto simp: live_def)
  next
    fix g g' i assume "g \<in> H" "g' \<in> H" "runs s' g i" "runs s' g' i"
    then show "g = g'" using sm_invD(6) [OF inv] unfolding rg cpus_ok_def by blast
  next
    fix i assume i: "i < 16" "e_state (enclaves s' ! i) = RUNNING"
    then have "i \<noteq> unat eid" "e_state (enclaves s ! i) = RUNNING" using D(7) [OF i(1)] f(1) by (auto split: if_splits)
    moreover from this obtain g where "g \<in> H" "runs s g i" using i sm_invD(6) [OF inv] by (auto simp: cpus_ok_def)
    moreover have "g \<noteq> ?h" using calculation r by (auto simp: runs_def)
    ultimately show "\<exists>g\<in>H. runs s' g i" unfolding rg by blast
  qed
  moreover have "\<not> is_enclave (cpus s' ?h)" by (simp add: s'_def cpu_exit_enclave_context_def)
  then have "hart_pmp (pmp s) (h_pmp (harts s' ?h)) (view s' ?h)"
    using sw(3) [OF sm_invD(7) [OF inv h]] exit_view [OF inv h eid r sys(1) D(5)] by (simp add: s'_def)
  ultimately have "sm_inv H s'"
    using f by (intro inv_switch [OF inv swd eid]) (auto simp: cpu_exit_enclave_context_def)
  then show ?thesis using sw(1) swd by (auto simp: s'_def)
qed

end
