(* ===== verification/Lifecycle.thy ===== *)
theory Lifecycle
  imports Isolation
begin

text \<open>
  The creation and the destruction of enclaves: each call keeps the isolation invariant of
  \<open>Isolation\<close>, with its outcome on every path. A created enclave has the requested regions and the
  measurement of their contents, creation always returns, and a destroyed enclave's memory is zero.
\<close>

section \<open>Creation keeps the invariant\<close>

text \<open>A change of the region table that leaves the defined regions alone.\<close>

definition keeps_regions :: "pmp_state \<Rightarrow> pmp_state \<Rightarrow> bool" where
  "keeps_regions p p' \<longleftrightarrow> pmp_wf p' \<and>
     (\<forall>x. region_valid p x \<longrightarrow> region_valid p' x \<and> regions p' ! x = regions p ! x)"

lemma keeps_regions_trans: "keeps_regions p p' \<Longrightarrow> keeps_regions p' p'' \<Longrightarrow> keeps_regions p p''"
  by (simp add: keeps_regions_def)

lemma allocated_keeps:
  assumes wf: "pmp_wf p" and al: "pmp_allocated p priority k r p'" and ok: "region_ok r"
    and ov: "\<not> rg_allow_overlap r \<longrightarrow> \<not> detect_region_overlap (rg_addr r) (rg_size r) p"
  shows "keeps_regions p p'" and "region_valid p' k" and "\<not> region_valid p k" and "regions p' ! k = r"
proof -
  have k: "k < 16" "length (regions p) = 16" using pmp_allocatedD(1) [OF al] pmp_wfD(1) [OF wf] by simp_all
  show "\<not> region_valid p k" using pmp_allocatedD(2) [OF al] by (simp add: region_valid_def)
  show "region_valid p' k" using k pmp_allocatedD(4) [OF al] by (simp add: region_valid_def)
  show "regions p' ! k = r" using k pmp_allocatedD(3) [OF al] by simp
  have "region_valid p' x \<and> regions p' ! x = regions p ! x" if "region_valid p x" for x
  proof -
    have "x \<noteq> k" using that pmp_allocatedD(2) [OF al] by (auto simp: region_valid_def)
    then show ?thesis using that pmp_allocatedD(3,4) [OF al] by (simp add: region_valid_def)
  qed
  then show "keeps_regions p p'" using pmp_allocated_wf [OF wf al ok ov] by (simp add: keeps_regions_def)
qed

lemma freed_keeps:
  assumes "pmp_wf p" and "pmp_freed q k p'" and "pmp_wf q" and "region_valid q k" and "keeps_regions p q" and "\<not> region_valid p k"
  shows "keeps_regions p p'"
proof -
  have "region_valid p' x \<and> regions p' ! x = regions p ! x" if x: "region_valid p x" for x
  proof -
    have "x \<noteq> k" "region_valid q x" "regions q ! x = regions p ! x" using assms x by (auto simp: keeps_regions_def)
    then show ?thesis using pmp_freedD(1,2) [OF assms(2)] by (simp add: region_valid_def)
  qed
  then show ?thesis
    using pmp_freed_wf [OF assms(3) _ _ assms(2)] assms(4) by (simp add: keeps_regions_def region_valid_def)
qed

lemma hart_pmp_keeps:
  assumes "hart_pmp p c f" and "keeps_regions p p'"
  shows "hart_pmp p' c f"
proof (rule hart_pmp_transfer [OF assms(1)])
  fix k assume "f k \<noteq> None"
  then have "region_valid p k" using hart_pmpD(1) [OF assms(1)] by auto
  then show "regions p' ! k = regions p ! k \<and> region_valid p' k" using assms(2) by (simp add: keeps_regions_def)
qed

text \<open>The regions that are defined in \<open>p\<close>, outside \<open>K\<close>, are defined in the same way in \<open>p'\<close>.\<close>

definition keeps_except :: "nat set \<Rightarrow> pmp_state \<Rightarrow> pmp_state \<Rightarrow> bool" where
  "keeps_except K p p' \<longleftrightarrow> pmp_wf p' \<and>
     (\<forall>x. region_valid p x \<longrightarrow> x \<notin> K \<longrightarrow> region_valid p' x \<and> regions p' ! x = regions p ! x)"

lemma freed_except:
  assumes "keeps_except K p q" and "region_valid q k" and "pmp_freed q k p'"
  shows "keeps_except (insert k K) p p'"
proof -
  have wf: "pmp_wf q" using assms(1) by (simp add: keeps_except_def)
  have "region_valid p' x \<and> regions p' ! x = regions p ! x" if "region_valid p x" "x \<notin> insert k K" for x
    using that assms(1) pmp_freedD(1,2) [OF assms(3)] by (simp add: keeps_except_def region_valid_def)
  then show ?thesis
    using pmp_freed_wf [OF wf _ _ assms(3)] assms(2) by (simp add: keeps_except_def region_valid_def)
qed

lemma encl_ok_except:
  assumes ok: "encl_ok p e" and kp: "keeps_except K p p'"
    and out: "e_state e \<noteq> INVALID \<Longrightarrow> nat (pmp_rid (e_regions e ! 0)) \<notin> K \<and> nat (pmp_rid (e_regions e ! 1)) \<notin> K"
  shows "encl_ok p' e"
proof (cases "e_state e = INVALID")
  case True
  then show ?thesis using ok by (simp add: encl_ok_def)
next
  case False
  then have "encl_regions_ok p e" using ok by (simp add: encl_ok_def)
  then obtain k u where e: "e_regions e = \<lparr>pmp_rid = int k, er_type = REGION_EPM\<rparr> # \<lparr>pmp_rid = int u, er_type = REGION_UTM\<rparr> #
      drop 2 (e_regions e)" "\<forall>r\<in>set (drop 2 (e_regions e)). er_type r = REGION_INVALID"
    and v: "region_valid p k" "region_valid p u" and r: "\<not> rg_allow_overlap (regions p ! k)" "\<not> rg_allow_overlap (regions p ! u)"
      "0 \<notin> region_regs (regions p ! k)" "7 \<notin> region_regs (regions p ! k)" "region_regs (regions p ! u) = {7}"
    unfolding encl_regions_ok_def by blast
  have "e_regions e ! 0 = \<lparr>pmp_rid = int k, er_type = REGION_EPM\<rparr>" "e_regions e ! 1 = \<lparr>pmp_rid = int u, er_type = REGION_UTM\<rparr>"
    by (subst e(1), simp)+
  then have "k \<notin> K" "u \<notin> K" using out [OF False] by simp_all
  then have "region_valid p' k" "region_valid p' u" "regions p' ! k = regions p ! k" "regions p' ! u = regions p ! u"
    using v kp by (simp_all add: keeps_except_def)
  then have "encl_regions_ok p' e" unfolding encl_regions_ok_def using e r by (intro exI [of _ k] exI [of _ u] conjI) simp_all
  then show ?thesis using ok False by (simp add: encl_ok_def)
qed

lemma system_ok_except:
  assumes "system_ok s" and kp: "keeps_except K (pmp s) (pmp s')" and ids: "sm_region_id s' = sm_region_id s" "os_region_id s' = os_region_id s"
    and out: "nat (sm_region_id s) \<notin> K" "nat (os_region_id s) \<notin> K"
  shows "system_ok s'"
proof -
  obtain a b where ab: "sm_region_id s = int a" "os_region_id s = int b" "a \<noteq> b" "region_valid (pmp s) a" "region_valid (pmp s) b"
    "rg_addr (regions (pmp s) ! a) = SMM_BASE" "rg_size (regions (pmp s) ! a) = SMM_SIZE"
    "\<not> rg_allow_overlap (regions (pmp s) ! a)" "region_regs (regions (pmp s) ! a) = {0}"
    "rg_addr (regions (pmp s) ! b) = 0" "rg_size (regions (pmp s) ! b) = - 1" "rg_addrmode (regions (pmp s) ! b) = PMP_A_NAPOT"
    "rg_allow_overlap (regions (pmp s) ! b)" "region_regs (regions (pmp s) ! b) = {7}"
    using assms(1) unfolding system_ok_def by blast
  have "region_valid (pmp s') a" "region_valid (pmp s') b" "regions (pmp s') ! a = regions (pmp s) ! a"
    "regions (pmp s') ! b = regions (pmp s) ! b"
    using ab(1,2,4,5) kp out by (simp_all add: keeps_except_def)
  then show ?thesis unfolding system_ok_def ids
    using ab by (intro exI [of _ a] exI [of _ b] conjI) simp_all
qed

lemma keeps_except_none: "keeps_regions p p' \<Longrightarrow> keeps_except {} p p'"
  by (simp add: keeps_regions_def keeps_except_def)

lemma encl_ok_keeps:
  assumes "encl_ok p e" and "keeps_regions p p'"
  shows "encl_ok p' e"
  using encl_ok_except [OF assms(1) keeps_except_none [OF assms(2)]] by simp

lemma system_ok_keeps:
  assumes "system_ok s" and "keeps_regions (pmp s) (pmp s')" and "sm_region_id s' = sm_region_id s" and "os_region_id s' = os_region_id s"
  shows "system_ok s'"
  using system_ok_except [OF assms(1) keeps_except_none [OF assms(2)] assms(3,4)] by simp

text \<open>A failed creation: the same enclaves, and a region table in which the defined regions are kept.\<close>

lemma inv_keeps:
  assumes inv: "sm_inv H s" and kp: "keeps_regions (pmp s) (pmp s')" and c: "same_core s (s'\<lparr>pmp := pmp s\<rparr>)"
  shows "sm_inv H s'"
proof -
  have inv': "sm_inv H (s'\<lparr>pmp := pmp s\<rparr>)" using same_core_inv [OF inv c] .
  let ?s = "s'\<lparr>pmp := pmp s\<rparr>"
  have v: "view ?s h = view s' h" for h by (rule view_cong) (simp_all add: live_def epm_def utm_def)
  have "encl_ok (pmp s') e" if "e \<in> set (enclaves s')" for e
    using inv' that encl_ok_keeps [OF _ kp] by (simp add: sm_inv_def)
  moreover have "system_ok s'" using system_ok_keeps [of ?s s'] sm_invD(4) [OF inv'] kp by simp
  moreover have "ids_ok s'" using sm_invD(5) [OF inv'] by (simp add: ids_ok_def live_def epm_def utm_def)
  moreover have "cpus_ok H s'" using sm_invD(6) [OF inv'] by (simp add: cpus_ok_def runs_def)
  moreover have "hart_pmp (pmp s') (h_pmp (harts s' h)) (view s' h)" if "h \<in> H" for h
    using hart_pmp_keeps [OF _ kp] sm_invD(7) [OF inv' that] by (simp add: v)
  ultimately show ?thesis using inv' kp by (simp add: sm_inv_def keeps_regions_def)
qed

text \<open>A successful creation of enclave \<open>i\<close> with the fresh regions \<open>k\<close> and \<open>u\<close>.\<close>

lemma inv_create:
  assumes inv: "sm_inv H s" and i: "i < 16" "e_state (enclaves s ! i) = INVALID"
    and kp: "keeps_regions (pmp s) (pmp s')" and fresh: "\<not> region_valid (pmp s) k" "\<not> region_valid (pmp s) u" "k \<noteq> u"
    and val: "region_valid (pmp s') k" "region_valid (pmp s') u"
    and nov: "\<not> rg_allow_overlap (regions (pmp s') ! k)" "\<not> rg_allow_overlap (regions (pmp s') ! u)"
    and regs: "7 \<notin> region_regs (regions (pmp s') ! k)" "region_regs (regions (pmp s') ! u) = {7}"
    and ids: "sm_region_id s' = sm_region_id s" "os_region_id s' = os_region_id s" "cpus s' = cpus s"
    and len: "length (enclaves s') = 16"
    and oth: "\<And>j. j < 16 \<Longrightarrow> j \<noteq> i \<Longrightarrow> e_state (enclaves s' ! j) = e_state (enclaves s ! j) \<and>
      e_regions (enclaves s' ! j) = e_regions (enclaves s ! j) \<and> n_thread (enclaves s' ! j) = n_thread (enclaves s ! j)"
    and new: "e_state (enclaves s' ! i) = FRESH" "n_thread (enclaves s' ! i) = 0" "e_regions (enclaves s' ! i) =
      (e_regions (enclaves s ! i))[0 := \<lparr>pmp_rid = int k, er_type = REGION_EPM\<rparr>, 1 := \<lparr>pmp_rid = int u, er_type = REGION_UTM\<rparr>]"
    and hp: "\<And>h. h \<in> H \<Longrightarrow> entries_set (pmp s') k PMP_NO_PERM (h_pmp (harts s h)) (h_pmp (harts s' h))"
  shows "sm_inv H s'"
proof -
  have wf: "pmp_wf (pmp s')" using kp by (simp add: keeps_regions_def)
  note L = live_regions [OF inv]
  have lv: "live s' j \<longleftrightarrow> live s j \<or> j = i" for j using oth [of j] i new(1) by (cases "j = i") (auto simp: live_def)
  have eq: "epm s' j = epm s j" "utm s' j = utm s j" if "live s j" for j
  proof -
    have "j < 16" "j \<noteq> i" using that i by (auto simp: live_def)
    then show "epm s' j = epm s j" "utm s' j = utm s j" using oth [of j] by (simp_all add: epm_def utm_def)
  qed
  have len8: "length (e_regions (enclaves s ! i)) = 8" and inval: "\<forall>r\<in>set (e_regions (enclaves s ! i)). er_type r = REGION_INVALID"
    using sm_invD(3) [OF inv i(1)] i(2) by (simp_all add: encl_ok_def)
  obtain x ys where x: "e_regions (enclaves s ! i) = x # ys" using len8 by (cases "e_regions (enclaves s ! i)") simp_all
  obtain y rs where y: "ys = y # rs" using len8 x by (cases ys) simp_all
  have rs: "length rs = 6" "\<forall>r\<in>set rs. er_type r = REGION_INVALID" and xy: "e_regions (enclaves s ! i) = x # y # rs"
    using len8 inval by (simp_all add: x y)
  have er: "e_regions (enclaves s' ! i) = \<lparr>pmp_rid = int k, er_type = REGION_EPM\<rparr> # \<lparr>pmp_rid = int u, er_type = REGION_UTM\<rparr> # rs"
    by (simp add: new(3) xy)
  have ei: "epm s' i = k" "utm s' i = u" by (simp_all add: epm_def utm_def er)
  obtain a b where sys: "sm_region_id s = int a" "os_region_id s = int b" "region_valid (pmp s) a" "region_valid (pmp s) b"
      "region_regs (regions (pmp s) ! a) = {0}" by (rule system_okE [OF sm_invD(4) [OF inv]])
  have ka: "k \<noteq> a" "k \<noteq> b" "u \<noteq> a" "u \<noteq> b" using sys fresh by auto
  have kl: "epm s j \<noteq> k" "epm s j \<noteq> u" "utm s j \<noteq> k" "utm s j \<noteq> u" if "live s j" for j
    using L(3,4) [OF that] fresh by auto
  have 0: "0 \<notin> region_regs (regions (pmp s') ! k)"
  proof
    assume "0 \<in> region_regs (regions (pmp s') ! k)"
    moreover have "region_valid (pmp s') a" "regions (pmp s') ! a = regions (pmp s) ! a" using kp sys(3) by (auto simp: keeps_regions_def)
    ultimately show False
      using pmp_wfD(4) [OF wf, of k a 0] val(1) ka(1) sys(5) by (auto simp: region_valid_def)
  qed
  have eo: "encl_ok (pmp s') e" if e: "e \<in> set (enclaves s')" for e
  proof -
    obtain j where j: "j < 16" "e = enclaves s' ! j" using e len by (auto simp: in_set_conv_nth)
    show ?thesis
    proof (cases "j = i")
      case True
      then show ?thesis using j(2) er new(1,2) rs val nov regs 0 by (simp add: encl_ok_def encl_regions_ok_def)
    next
      case False
      have "encl_ok (pmp s) (enclaves s' ! j) = encl_ok (pmp s) (enclaves s ! j)"
        using oth [OF j(1) False] by (intro encl_ok_cong) simp_all
      then show ?thesis using encl_ok_keeps [OF _ kp] sm_invD(3) [OF inv j(1)] j(2) by simp
    qed
  qed
  have idk: "ids_ok s'"
    using sm_invD(5) [OF inv] ka sys(1,2) fresh(3) kl
    unfolding ids_ok_def lv ids by (auto simp: eq ei dest!: spec)
  have nr: "\<not> runs s h i" if "h \<in> H" for h
    using sm_invD(6) [OF inv] i that by (auto simp: cpus_ok_def runs_def)
  have rn: "runs s' h j = runs s h j" for h j by (simp add: runs_def ids)
  have co: "cpus_ok H s'"
    unfolding cpus_ok_def rn ids
  proof (intro conjI ballI allI impI)
    fix g assume g: "g \<in> H" "is_enclave (cpus s g)"
    note E = enclave_context [OF inv g]
    then show "unat (cpu_eid (cpus s g)) < 16" by (simp add: live_def)
    then show "e_state (enclaves s' ! unat (cpu_eid (cpus s g))) = RUNNING" using E oth i by (cases "unat (cpu_eid (cpus s g)) = i") auto
  next
    fix g g' j assume "g \<in> H" "g' \<in> H" "runs s g j" "runs s g' j"
    then show "g = g'" using sm_invD(6) [OF inv] unfolding cpus_ok_def by blast
  next
    fix j assume j: "j < 16" "e_state (enclaves s' ! j) = RUNNING"
    then have "j \<noteq> i" using new(1) by auto
    then show "\<exists>g\<in>H. runs s g j" using j oth [OF j(1)] sm_invD(6) [OF inv] unfolding cpus_ok_def by simp
  qed
  have "hart_pmp (pmp s') (h_pmp (harts s' h)) (view s' h)" if h: "h \<in> H" for h
  proof -
    have hk: "hart_pmp (pmp s') (h_pmp (harts s h)) (view s h)"
      using hart_pmp_keeps [OF sm_invD(7) [OF inv h] kp] .
    have dv: "dom_valid (pmp s') (view s h)" using hart_pmpD(1) [OF hk] by (auto simp: dom_valid_def)
    have "hart_pmp (pmp s') (h_pmp (harts s' h)) (perm_set (pmp s') k PMP_NO_PERM (view s h))"
      using hart_pmp_set [OF wf hk val(1) hp [OF h]] .
    moreover have "perm_set (pmp s') k PMP_NO_PERM (view s h) = view s' h"
      unfolding perm_set_low [OF wf val(1) dv regs(1)]
    proof
      fix j
      show "((view s h)(k \<mapsto> PMP_NO_PERM)) j = view s' h j"
      proof (cases "j = k")
        case True
        then show ?thesis using view_epm [OF idk, of i h] nr [OF h] by (simp add: lv ei rn)
      next
        case False
        have A: "(\<exists>x. live s' x \<and> epm s' x = j) = (\<exists>x. live s x \<and> epm s x = j)"
          using False lv eq(1) ei(1) by metis
        have B: "(\<exists>x. live s' x \<and> epm s' x = j \<and> runs s' h x) = (\<exists>x. live s x \<and> epm s x = j \<and> runs s h x)"
          using False lv eq(1) ei(1) rn by metis
        have C: "(\<exists>x. live s' x \<and> utm s' x = j \<and> runs s' h x) = (\<exists>x. live s x \<and> utm s x = j \<and> runs s h x)"
          using lv eq(2) rn nr [OF h] by metis
        show ?thesis using False by (simp only: view_def A B C ids fun_upd_apply if_False)
      qed
    qed
    ultimately show ?thesis by simp
  qed
  then show ?thesis
    using wf len eo idk co system_ok_keeps [OF sm_invD(4) [OF inv] kp ids(1,2)] by (simp add: sm_inv_def)
qed

lemma region_init_ok:
  assumes wf: "pmp_wf p" and init: "pmp_region_init start sz priority rid False p = Some (ret, rid', p')"
    and reg0: "bit (reg_bitmap p) 0"
  shows "ret \<noteq> 0 \<and> p' = p \<or>
    (\<exists>k. ret = 0 \<and> rid' = int k \<and> keeps_regions p p' \<and> region_valid p' k \<and> \<not> region_valid p k \<and>
       \<not> rg_allow_overlap (regions p' ! k) \<and> rg_addr (regions p' ! k) = start \<and> rg_size (regions p' ! k) = sz \<and>
       bit (reg_bitmap p') 0 \<and> (priority = PMP_PRI_BOTTOM \<longrightarrow> region_regs (regions p' ! k) = {7}))"
proof -
  consider "ret \<noteq> SBI_ERR_SM_PMP_SUCCESS" "p' = p"
    | k r where "ret = SBI_ERR_SM_PMP_SUCCESS" "rid' = int k" "pmp_allocated p priority k r p'" "rg_addr r = start"
        "rg_size r = sz" "\<not> rg_allow_overlap r" "region_ok r" "\<not> detect_region_overlap start sz p"
    using pmp_region_init_cases [OF init] reg0 by blast
  then show ?thesis
  proof cases
    case 1
    then show ?thesis by (simp add: err_codes)
  next
    case (2 k r)
    note A = allocated_keeps [OF wf 2(3,7)]
    have "keeps_regions p p'" "region_valid p' k" "\<not> region_valid p k" "regions p' ! k = r" using A 2 by simp_all
    then show ?thesis
      using 2 pmp_allocatedD(5) [OF 2(3), of 0] pmp_allocatedD(8) [OF 2(3)] reg0 by (auto simp: err_codes)
  qed
qed

lemma reg0_used:
  assumes "sm_inv H s"
  shows "bit (reg_bitmap (pmp s)) 0"
proof -
  obtain a b where "region_valid (pmp s) a" "region_regs (regions (pmp s) ! a) = {0}"
    by (rule system_okE [OF sm_invD(4) [OF assms]])
  then show ?thesis using pmp_wfD(3) [OF sm_invD(2) [OF assms], of a 0] by (simp add: region_valid_def)
qed

lemma validate_fields:
  assumes "validate_and_hash_enclave m e = Some (ret, e')"
  shows "ret = SBI_ERR_SM_ENCLAVE_SUCCESS" and "\<exists>h. e' = e\<lparr>e_hash := h\<rparr>"
proof -
  obtain v ctx where v: "validate_and_hash_epm m (e_params e) hash_init = Some (v, ctx)"
    using assms by (auto simp: validate_and_hash_enclave_def bind_eq_Some_conv)
  then have "v = 0" by (auto simp: validate_and_hash_epm_def Let_def bind_eq_Some_conv)
  then show "ret = SBI_ERR_SM_ENCLAVE_SUCCESS" "\<exists>h. e' = e\<lparr>e_hash := h\<rparr>"
    using assms v by (auto simp: validate_and_hash_enclave_def)
qed

lemma upd_encl_twice [simp]:
  "unat eid < length (enclaves s) \<Longrightarrow> upd_encl eid f (upd_encl eid g s) = upd_encl eid (\<lambda>e. f (g e)) s"
  by (simp add: upd_encl_def)

lemma upd_encl_self [simp]: "upd_encl eid (\<lambda>_. enclaves s ! unat eid) s = s"
  by (simp add: upd_encl_def)

text \<open>The last part of a creation always succeeds: the measurement is never refused.\<close>

lemma create_finish_eq:
  assumes "create_finish env eid region shared_region args eidptr s = Some (ret, out, s')" and len: "unat eid < length (enclaves s)"
  shows "ret = SBI_ERR_SM_ENCLAVE_SUCCESS" and "out = ucast eid"
    and "\<exists>h. s' = upd_encl eid (\<lambda>e. (init_enclave_metadata eid region shared_region (create_params args)
        (h_csrs (harts s (mhartid env))) e)\<lparr>e_hash := h, e_state := FRESH\<rparr>)
      (s\<lparr>memory := mem_set (paddr (utm_region args)) 0 (pr_size (utm_region args)) (memory s)\<rparr>)"
proof -
  let ?f = "init_enclave_metadata eid region shared_region (create_params args) (h_csrs (harts s (mhartid env)))"
  let ?s0 = "s\<lparr>memory := mem_set (paddr (utm_region args)) 0 (pr_size (utm_region args)) (memory s)\<rparr>"
  let ?s1 = "upd_encl eid ?f ?s0"
  have len0: "unat eid < length (enclaves ?s0)" using len by simp
  obtain r e where v: "validate_and_hash_enclave (memory ?s1) (enclaves ?s1 ! unat eid) = Some (r, e)"
    using assms by (auto simp: create_finish_def Let_def clean_enclave_memory_def platform_create_enclave_def err_codes
        bind_eq_Some_conv simp del: upd_encl_fields upd_encl_twice)
  obtain h where e: "e = (enclaves ?s1 ! unat eid)\<lparr>e_hash := h\<rparr>" using validate_fields(2) [OF v] by blast
  have r: "r = SBI_ERR_SM_ENCLAVE_SUCCESS" using validate_fields(1) [OF v] .
  have "ret = SBI_ERR_SM_ENCLAVE_SUCCESS \<and> out = ucast eid \<and> s' = upd_encl eid (\<lambda>e. e\<lparr>e_state := FRESH\<rparr>) (upd_encl eid (\<lambda>_. e) ?s1)"
    using assms v r by (simp add: create_finish_def Let_def clean_enclave_memory_def platform_create_enclave_def err_codes
        del: upd_encl_fields upd_encl_twice)
  then show "ret = SBI_ERR_SM_ENCLAVE_SUCCESS" "out = ucast eid"
    "\<exists>h. s' = upd_encl eid (\<lambda>e. (?f e)\<lparr>e_hash := h, e_state := FRESH\<rparr>) ?s0"
    using len by (auto simp: e upd_encl_def)
qed

text \<open>What a successful call of \<open>create_enclave\<close> did.\<close>

definition created :: "nat set \<Rightarrow> keystone_sbi_create_t \<Rightarrow> nat \<Rightarrow> nat \<Rightarrow> nat \<Rightarrow> sm_state \<Rightarrow> sm_state \<Rightarrow> bool" where
  "created H args i k u s s' \<longleftrightarrow>
     i < 16 \<and> e_state (enclaves s ! i) = INVALID \<and> keeps_regions (pmp s) (pmp s') \<and>
     \<not> region_valid (pmp s) k \<and> \<not> region_valid (pmp s) u \<and> k \<noteq> u \<and> region_valid (pmp s') k \<and> region_valid (pmp s') u \<and>
     \<not> rg_allow_overlap (regions (pmp s') ! k) \<and> \<not> rg_allow_overlap (regions (pmp s') ! u) \<and>
     rg_addr (regions (pmp s') ! k) = paddr (epm_region args) \<and> rg_size (regions (pmp s') ! k) = pr_size (epm_region args) \<and>
     rg_addr (regions (pmp s') ! u) = paddr (utm_region args) \<and> rg_size (regions (pmp s') ! u) = pr_size (utm_region args) \<and>
     region_regs (regions (pmp s') ! u) = {7} \<and>
     sm_region_id s' = sm_region_id s \<and> os_region_id s' = os_region_id s \<and> cpus s' = cpus s \<and> length (enclaves s') = 16 \<and>
     (\<forall>j<16. j \<noteq> i \<longrightarrow> enclaves s' ! j = enclaves s ! j) \<and>
     e_state (enclaves s' ! i) = FRESH \<and> n_thread (enclaves s' ! i) = 0 \<and> e_params (enclaves s' ! i) = create_params args \<and>
     e_regions (enclaves s' ! i) =
       (e_regions (enclaves s ! i))[0 := \<lparr>pmp_rid = int k, er_type = REGION_EPM\<rparr>, 1 := \<lparr>pmp_rid = int u, er_type = REGION_UTM\<rparr>] \<and>
     (\<forall>h\<in>H. entries_set (pmp s') k PMP_NO_PERM (h_pmp (harts s h)) (h_pmp (harts s' h))) \<and>
     memory s' = mem_set (paddr (utm_region args)) 0 (pr_size (utm_region args)) (memory s)"

lemma created_inv:
  assumes "sm_inv H s" and "created H args i k u s s'" and "7 \<notin> region_regs (regions (pmp s') ! k)"
  shows "sm_inv H s'"
  using assms unfolding created_def by (elim conjE) (rule inv_create, auto)

lemma alloc_eid_cases:
  assumes len: "length (enclaves s) = 16"
  obtains (none) "encl_alloc_eid s = (SBI_ERR_SM_ENCLAVE_NO_FREE_RESOURCE, 0, s)"
    | (some) i where "i < 16" "e_state (enclaves s ! i) = INVALID" "unat (of_nat i :: enclave_id) = i"
        "encl_alloc_eid s = (SBI_ERR_SM_ENCLAVE_SUCCESS, of_nat i, upd_encl (of_nat i) (\<lambda>e. e\<lparr>e_state := ALLOCATED\<rparr>) s)"
proof (cases "find (\<lambda>i. e_state (enclaves s ! i) = INVALID) [0..<ENCL_MAX]")
  case None
  then show ?thesis by (intro none) (simp add: encl_alloc_eid_def)
next
  case (Some i)
  have i: "i < 16" "e_state (enclaves s ! i) = INVALID" using find_upt_SomeD [OF Some] by (simp_all add: ENCL_MAX_def)
  show ?thesis using i Some by (intro some [of i]) (simp_all add: encl_alloc_eid_def unsigned_of_nat take_bit_nat_eq_self)
qed

lemma create_failed_core:
  assumes "i < 16" and "length (enclaves s) = 16" and "e_state (enclaves s ! i) = INVALID" and "unat eid = i"
  shows "same_core s ((encl_free_eid eid ((upd_encl eid (\<lambda>e. e\<lparr>e_state := ALLOCATED\<rparr>) s)\<lparr>pmp := p\<rparr>))\<lparr>pmp := pmp s\<rparr>)"
  using assms by (auto simp: same_core_def encl_free_eid_def nth_list_update)

text \<open>\<open>create_enclave\<close> from the allocation of the shared region on.\<close>

definition create_rest ::
  "sm_env \<Rightarrow> enclave_id \<Rightarrow> int \<Rightarrow> keystone_sbi_create_t \<Rightarrow> u64 \<Rightarrow> sm_state \<Rightarrow> (u64 \<times> u64 \<times> sm_state) option" where
  "create_rest env eid region args eidptr s = do {
     (ret, shared_region, p) \<leftarrow> pmp_region_init (paddr (utm_region args))
        (pr_size (utm_region args)) PMP_PRI_BOTTOM 0 False (pmp s);
     let s = s\<lparr>pmp := p\<rparr>;
     if ret \<noteq> 0 then Some (SBI_ERR_SM_ENCLAVE_PMP_FAILURE, eidptr, create_free_region eid region s)
     else do {
       (ret, s) \<leftarrow> global_pmp_set env region PMP_NO_PERM s;
       if ret \<noteq> 0
       then Some (SBI_ERR_SM_ENCLAVE_PMP_FAILURE, eidptr, create_free_shared_region eid region shared_region s)
       else create_finish env eid region shared_region args eidptr s } }"

lemma create_enclave_steps:
  assumes "is_create_args_valid args" and "encl_alloc_eid s = (SBI_ERR_SM_ENCLAVE_SUCCESS, eid, s1)"
    and "pmp_region_init (paddr (epm_region args)) (pr_size (epm_region args)) PMP_PRI_ANY 0 False (pmp s1) = x"
  shows "create_enclave env eidptr args s =
    (case x of None \<Rightarrow> None
     | Some (ret, region, p) \<Rightarrow> if ret \<noteq> 0 then Some (SBI_ERR_SM_ENCLAVE_PMP_FAILURE, eidptr, encl_free_eid eid (s1\<lparr>pmp := p\<rparr>))
        else create_rest env eid region args eidptr (s1\<lparr>pmp := p\<rparr>))"
  using assms unfolding create_enclave_def create_rest_def pmp_region_init_atomic_def
  by (cases x) (simp_all add: create_free_encl_idx_def split: prod.splits)

lemma put_pmps_fields [simp]:
  "pmp (put_pmps cs s) = pmp s" "enclaves (put_pmps cs s) = enclaves s" "cpus (put_pmps cs s) = cpus s"
  "os_region_id (put_pmps cs s) = os_region_id s" "sm_region_id (put_pmps cs s) = sm_region_id s"
  "h_pmp (harts (put_pmps cs s) h) = cs h" "h_csrs (harts (put_pmps cs s) h) = h_csrs (harts s h)"
  "memory (put_pmps cs s) = memory s"
  by (simp_all add: put_pmps_def)

lemma global_set_valid:
  assumes "pmp_wf (pmp s)" and "region_valid (pmp s) k"
  shows "\<exists>cs. global_pmp_set env (int k) perm s = Some (SBI_ERR_SM_PMP_SUCCESS, put_pmps cs s) \<and>
    (\<forall>h. if h \<in> set (ipi_harts env) then entries_set (pmp s) k perm (h_pmp (harts s h)) (cs h) else cs h = h_pmp (harts s h))"
proof -
  obtain cs where "pmp_set_global (ipi_harts env) (int k) perm (pmp s) (\<lambda>h. h_pmp (harts s h)) = Some (SBI_ERR_SM_PMP_SUCCESS, cs)"
      "\<And>h. if h \<in> set (ipi_harts env) then entries_set (pmp s) k perm (h_pmp (harts s h)) (cs h) else cs h = h_pmp (harts s h)"
    using pmp_set_global_valid [OF assms(1), of k "ipi_harts env" perm "\<lambda>h. h_pmp (harts s h)"] assms(2)
    unfolding region_valid_def by blast
  then show ?thesis by (intro exI [of _ cs]) (simp add: global_pmp_set_def)
qed

lemma create_rest_cases:
  assumes cr: "create_rest env eid (int k) args eidptr s = Some (ret, out, s')" and wf: "pmp_wf (pmp s)"
    and k: "region_valid (pmp s) k" and reg0: "bit (reg_bitmap (pmp s)) 0" and len: "unat eid < length (enclaves s)"
  obtains (fail) p where "ret = SBI_ERR_SM_ENCLAVE_PMP_FAILURE" "pmp_freed (pmp s) k p" "s' = encl_free_eid eid (s\<lparr>pmp := p\<rparr>)"
    | (ok) u p cs h where "ret = SBI_ERR_SM_ENCLAVE_SUCCESS" "out = ucast eid" "keeps_regions (pmp s) p" "region_valid p u" "\<not> region_valid (pmp s) u"
       "\<not> rg_allow_overlap (regions p ! u)" "rg_addr (regions p ! u) = paddr (utm_region args)"
       "rg_size (regions p ! u) = pr_size (utm_region args)" "region_regs (regions p ! u) = {7}"
       "\<And>h. h \<in> set (ipi_harts env) \<Longrightarrow> entries_set p k PMP_NO_PERM (h_pmp (harts s h)) (cs h)"
       "s' = upd_encl eid (\<lambda>e. (init_enclave_metadata eid (int k) (int u) (create_params args)
            (h_csrs (harts s (mhartid env))) e)\<lparr>e_hash := h, e_state := FRESH\<rparr>)
          ((put_pmps cs (s\<lparr>pmp := p\<rparr>))\<lparr>memory := mem_set (paddr (utm_region args)) 0 (pr_size (utm_region args)) (memory s)\<rparr>)"
proof -
  obtain ret2 k2 p2 where i2: "pmp_region_init (paddr (utm_region args)) (pr_size (utm_region args)) PMP_PRI_BOTTOM 0 False (pmp s) = Some (ret2, k2, p2)"
    using cr by (auto simp: create_rest_def bind_eq_Some_conv)
  show ?thesis
  proof (cases "ret2 = 0")
    case False
    then have p2: "p2 = pmp s" using region_init_ok [OF wf i2 reg0] by blast
    obtain p where p: "pmp_region_free_atomic (int k) (pmp s) = (SBI_ERR_SM_PMP_SUCCESS, p)" "pmp_freed (pmp s) k p"
      using pmp_region_free_valid [OF wf] k unfolding region_valid_def by blast
    show ?thesis
      by (rule fail [of p]) (use cr i2 False p p2 in \<open>auto simp: create_rest_def create_free_region_def create_free_encl_idx_def free_region_def\<close>)
  next
    case True
    then obtain u where u: "k2 = int u" "keeps_regions (pmp s) p2" "region_valid p2 u" "\<not> region_valid (pmp s) u"
       "\<not> rg_allow_overlap (regions p2 ! u)" "rg_addr (regions p2 ! u) = paddr (utm_region args)"
       "rg_size (regions p2 ! u) = pr_size (utm_region args)" "region_regs (regions p2 ! u) = {7}"
      using region_init_ok [OF wf i2 reg0] by blast
    have wf2: "pmp_wf p2" and k2: "region_valid p2 k" using u(2) k by (simp_all add: keeps_regions_def)
    let ?s = "s\<lparr>pmp := p2\<rparr>"
    have "\<exists>cs. global_pmp_set env (int k) PMP_NO_PERM ?s = Some (SBI_ERR_SM_PMP_SUCCESS, put_pmps cs ?s) \<and>
        (\<forall>h. if h \<in> set (ipi_harts env) then entries_set p2 k PMP_NO_PERM (h_pmp (harts s h)) (cs h) else cs h = h_pmp (harts s h))"
      using global_set_valid [of ?s k env PMP_NO_PERM] wf2 k2 by (simp cong: if_cong)
    then obtain cs where cs1: "global_pmp_set env (int k) PMP_NO_PERM ?s = Some (SBI_ERR_SM_PMP_SUCCESS, put_pmps cs ?s)"
      and cs2: "\<forall>h. if h \<in> set (ipi_harts env) then entries_set p2 k PMP_NO_PERM (h_pmp (harts s h)) (cs h) else cs h = h_pmp (harts s h)"
      by blast
    have cs: "global_pmp_set env (int k) PMP_NO_PERM ?s = Some (SBI_ERR_SM_PMP_SUCCESS, put_pmps cs ?s)"
        "\<And>h. h \<in> set (ipi_harts env) \<Longrightarrow> entries_set p2 k PMP_NO_PERM (h_pmp (harts s h)) (cs h)"
      using cs1 spec [OF cs2] by (simp, metis)
    have cf: "create_finish env eid (int k) (int u) args eidptr (put_pmps cs ?s) = Some (ret, out, s')"
      using cr i2 True cs(1) by (simp add: create_rest_def u(1) SBI_ERR_SM_PMP_SUCCESS_def)
    have len': "unat eid < length (enclaves (put_pmps cs ?s))" using len by simp
    obtain h where h: "s' = upd_encl eid (\<lambda>e. (init_enclave_metadata eid (int k) (int u) (create_params args)
            (h_csrs (harts s (mhartid env))) e)\<lparr>e_hash := h, e_state := FRESH\<rparr>)
          ((put_pmps cs ?s)\<lparr>memory := mem_set (paddr (utm_region args)) 0 (pr_size (utm_region args)) (memory s)\<rparr>)"
      using create_finish_eq(3) [OF cf len'] by auto
    show ?thesis by (rule ok [OF create_finish_eq(1,2) [OF cf len'] u(2-8) cs(2) h])
  qed
qed

text \<open>The live enclaves outside \<open>D\<close> stay live and keep their private region.\<close>

definition keeps_enclaves :: "nat set \<Rightarrow> sm_state \<Rightarrow> sm_state \<Rightarrow> bool" where
  "keeps_enclaves D s s' \<longleftrightarrow>
     (\<forall>i. live s i \<longrightarrow> i \<notin> D \<longrightarrow> live s' i \<and> epm s' i = epm s i \<and> regions (pmp s') ! epm s i = regions (pmp s) ! epm s i)"

lemma keeps_enclaves_regions: "same_regions s s' \<Longrightarrow> keeps_enclaves D s s'"
  by (simp add: keeps_enclaves_def same_regions_def)

lemma same_core_regions:
  assumes "same_core s s'" and "length (enclaves s) = 16"
  shows "same_regions s s'"
  using assms by (auto simp: same_core_def same_regions_def live_def epm_def utm_def)

lemma same_regions_refl [simp]: "same_regions s s"
  by (simp add: same_regions_def)

lemma create_enclave_cases:
  assumes inv: "sm_inv H s" and ipi: "H \<subseteq> set (ipi_harts env)"
    and cr: "create_enclave env eidptr args s = Some (ret, out, s')"
  shows "ret \<noteq> SBI_ERR_SM_ENCLAVE_SUCCESS \<and> sm_inv H s' \<and> memory s' = memory s \<and> live s' = live s \<and> keeps_enclaves {} s s' \<or>
    ret = SBI_ERR_SM_ENCLAVE_SUCCESS \<and> is_create_args_valid args \<and> (\<exists>i k u. created H args i k u s s' \<and> out = of_nat i)"
proof (cases "is_create_args_valid args")
  case False
  then show ?thesis using cr inv by (auto simp: create_enclave_def err_codes keeps_enclaves_regions)
next
  case valid: True
  have len: "length (enclaves s) = 16" and wf: "pmp_wf (pmp s)" using sm_invD(1,2) [OF inv] .
  show ?thesis
  proof (cases rule: alloc_eid_cases [OF len])
    case 1
    then show ?thesis using cr valid inv by (auto simp: create_enclave_def err_codes keeps_enclaves_regions)
  next
    case some: (2 i)
    define eid :: enclave_id where "eid = of_nat i"
    define s1 where "s1 = upd_encl eid (\<lambda>e. e\<lparr>e_state := ALLOCATED\<rparr>) s"
    have eid: "unat eid = i" using some(3) by (simp add: eid_def)
    have al: "encl_alloc_eid s = (SBI_ERR_SM_ENCLAVE_SUCCESS, eid, s1)" using some(4) by (simp add: eid_def s1_def)
    note steps = create_enclave_steps [OF valid al refl, of env eidptr]
    have fail: "sm_inv H x \<and> memory x = memory s \<and> live x = live s \<and> keeps_enclaves {} s x"
      if x: "x = encl_free_eid eid (s1\<lparr>pmp := p\<rparr>)" and kp: "keeps_regions (pmp s) p" for x p
    proof -
      have c: "same_core s (x\<lparr>pmp := pmp s\<rparr>)"
        using create_failed_core [OF some(1) len some(2) eid, of p] unfolding x s1_def .
      have "pmp x = p" by (simp add: x encl_free_eid_def)
      then have "sm_inv H x" using inv_keeps [OF inv _ c] kp by simp
      moreover have lx: "live x = live s" using c len by (auto simp: live_def same_core_def fun_eq_iff)
      moreover have "epm x i = epm s i" if "live s i" for i
        using c len that by (simp add: live_def epm_def same_core_def)
      then have "keeps_enclaves {} s x"
        using kp lx \<open>pmp x = p\<close> live_regions(3) [OF inv] by (simp add: keeps_enclaves_def keeps_regions_def)
      ultimately show ?thesis by (simp add: x encl_free_eid_def s1_def)
    qed
    have p1: "pmp s1 = pmp s" by (simp add: s1_def)
    obtain ret1 k1 p1 where i1: "pmp_region_init (paddr (epm_region args)) (pr_size (epm_region args)) PMP_PRI_ANY 0 False (pmp s) = Some (ret1, k1, p1)"
      using cr unfolding steps p1 by (auto split: option.splits)
    have cr1: "(if ret1 \<noteq> 0 then Some (SBI_ERR_SM_ENCLAVE_PMP_FAILURE, eidptr, encl_free_eid eid (s1\<lparr>pmp := p1\<rparr>))
        else create_rest env eid k1 args eidptr (s1\<lparr>pmp := p1\<rparr>)) = Some (ret, out, s')"
      using cr unfolding steps p1 i1 by simp
    consider (f1) "ret1 \<noteq> 0" "p1 = pmp s"
      | (ok1) k where "ret1 = 0" "k1 = int k" "keeps_regions (pmp s) p1" "region_valid p1 k" "\<not> region_valid (pmp s) k"
         "\<not> rg_allow_overlap (regions p1 ! k)" "rg_addr (regions p1 ! k) = paddr (epm_region args)"
         "rg_size (regions p1 ! k) = pr_size (epm_region args)" "bit (reg_bitmap p1) 0"
      using region_init_ok [OF wf i1 reg0_used [OF inv]] by blast
    then show ?thesis
    proof cases
      case f1
      have "ret = SBI_ERR_SM_ENCLAVE_PMP_FAILURE" "s' = encl_free_eid eid (s1\<lparr>pmp := pmp s\<rparr>)" using cr1 f1 by auto
      moreover have "keeps_regions (pmp s) (pmp s)" using wf by (simp add: keeps_regions_def)
      ultimately show ?thesis using fail [of s' "pmp s"] by (simp add: err_codes)
    next
      case (ok1 k)
      let ?s = "s1\<lparr>pmp := p1\<rparr>"
      have wf1: "pmp_wf p1" using ok1(3) by (simp add: keeps_regions_def)
      have cr2: "create_rest env eid (int k) args eidptr ?s = Some (ret, out, s')" using cr1 ok1(1,2) by simp
      have pre: "pmp_wf (pmp ?s)" "region_valid (pmp ?s) k" "bit (reg_bitmap (pmp ?s)) 0" "unat eid < length (enclaves ?s)"
        using wf1 ok1(4,9) len some(1) by (simp_all add: eid s1_def)
      show ?thesis
      proof (cases rule: create_rest_cases [OF cr2 pre])
        case (1 p)
        have "keeps_regions (pmp s) p" using freed_keeps [OF wf _ wf1 ok1(4,3,5)] 1(2) by simp
        then show ?thesis using fail [of s' p] 1(1,3) by (simp add: err_codes)
      next
        case (2 u p cs h)
        have kp: "keeps_regions (pmp s) p" using keeps_regions_trans [OF ok1(3)] 2(3) by simp
        have kk: "region_valid p k" "regions p ! k = regions p1 ! k" using 2(3) ok1(4) by (simp_all add: keeps_regions_def)
        have nu: "\<not> region_valid (pmp s) u" using ok1(3) 2(5) by (auto simp: keeps_regions_def)
        have ku: "k \<noteq> u" using 2(5) ok1(4) by auto
        have e': "enclaves s' = (enclaves s)[i := (init_enclave_metadata eid (int k) (int u) (create_params args)
            (h_csrs (harts s (mhartid env))) ((enclaves s ! i)\<lparr>e_state := ALLOCATED\<rparr>))\<lparr>e_hash := h, e_state := FRESH\<rparr>]"
          using some(1) len by (simp add: 2(11) s1_def eid)
        have "created H args i k u s s'"
          unfolding created_def using some(1,2) kp ok1(5-8) nu ku kk 2(4-9) len ipi 2(10)
          by (auto simp: 2(11) s1_def eid init_enclave_metadata_def Let_def)
        moreover have "out = of_nat i" using 2(2) some(1) by (simp add: eid_def unsigned_of_nat take_bit_nat_eq_self)
        ultimately show ?thesis using 2(1) valid by blast
      qed
    qed
  qed
qed

section \<open>Destruction keeps the invariant\<close>

text \<open>The end of enclave \<open>i\<close>: its two regions are freed, its private memory is taken off every hart.\<close>

lemma inv_destroy:
  assumes inv: "sm_inv H s" and i: "live s i" and nrun: "e_state (enclaves s ! i) \<noteq> RUNNING"
    and kp: "keeps_except {epm s i, utm s i} (pmp s) (pmp s')"
    and ids: "sm_region_id s' = sm_region_id s" "os_region_id s' = os_region_id s" "cpus s' = cpus s"
    and len: "length (enclaves s') = 16"
    and oth: "\<And>j. j < 16 \<Longrightarrow> j \<noteq> i \<Longrightarrow> enclaves s' ! j = enclaves s ! j"
    and gone: "e_state (enclaves s' ! i) = INVALID" "length (e_regions (enclaves s' ! i)) = 8"
      "\<forall>r\<in>set (e_regions (enclaves s' ! i)). er_type r = REGION_INVALID"
    and hp: "\<And>h. h \<in> H \<Longrightarrow> entries_unset (pmp s) (epm s i) (h_pmp (harts s h)) (h_pmp (harts s' h))"
  shows "sm_inv H s'"
proof -
  have wf: "pmp_wf (pmp s')" and wf0: "pmp_wf (pmp s)" using kp sm_invD(2) [OF inv] by (simp_all add: keeps_except_def)
  note L = live_regions [OF inv] and I = sm_invD(5) [OF inv]
  have i16: "i < 16" using i by (simp add: live_def)
  have lv: "live s' j \<longleftrightarrow> live s j \<and> j \<noteq> i" for j using oth [of j] gone(1) by (cases "j = i") (auto simp: live_def)
  have eq: "epm s' j = epm s j" "utm s' j = utm s j" if "live s' j" for j
    using that oth [of j] gone(1) by (cases "j = i"; simp add: live_def epm_def utm_def)+
  have K: "epm s j \<notin> {epm s i, utm s i} \<and> utm s j \<notin> {epm s i, utm s i}" if "live s j" "j \<noteq> i" for j
    using I that i unfolding ids_ok_def by (metis insertE singletonD)
  have eo: "encl_ok (pmp s') e" if e: "e \<in> set (enclaves s')" for e
  proof -
    obtain j where j: "j < 16" "e = enclaves s' ! j" using e len by (auto simp: in_set_conv_nth)
    show ?thesis
    proof (cases "j = i")
      case True
      then show ?thesis using j(2) gone by (simp add: encl_ok_def)
    next
      case False
      show ?thesis
        using encl_ok_except [OF sm_invD(3) [OF inv j(1)] kp] K [of j] False j oth [OF j(1) False]
        by (simp add: live_def epm_def utm_def)
    qed
  qed
  have so: "system_ok s'"
    using system_ok_except [OF sm_invD(4) [OF inv] kp ids(1,2)] I i system_okE [OF sm_invD(4) [OF inv]]
    by (metis (no_types, lifting) ids_ok_def insert_iff nat_int singletonD)
  have io: "ids_ok s'" using I by (simp add: ids_ok_def lv ids eq)
  have rn: "runs s' h j = runs s h j" for h j by (simp add: runs_def ids)
  have nr: "\<not> runs s h i" if "h \<in> H" for h
    using sm_invD(6) [OF inv] nrun that by (auto simp: cpus_ok_def runs_def)
  have co: "cpus_ok H s'"
    unfolding cpus_ok_def rn ids
  proof (intro conjI ballI allI impI)
    fix g assume g: "g \<in> H" "is_enclave (cpus s g)"
    note E = enclave_context [OF inv g]
    then show "unat (cpu_eid (cpus s g)) < 16" by (simp add: live_def)
    then show "e_state (enclaves s' ! unat (cpu_eid (cpus s g))) = RUNNING"
      using E oth nrun by (cases "unat (cpu_eid (cpus s g)) = i") auto
  next
    fix g g' j assume "g \<in> H" "g' \<in> H" "runs s g j" "runs s g' j"
    then show "g = g'" using sm_invD(6) [OF inv] unfolding cpus_ok_def by blast
  next
    fix j assume j: "j < 16" "e_state (enclaves s' ! j) = RUNNING"
    then have "j \<noteq> i" using gone(1) by auto
    then show "\<exists>g\<in>H. runs s g j" using j oth [OF j(1)] sm_invD(6) [OF inv] unfolding cpus_ok_def by simp
  qed
  have "hart_pmp (pmp s') (h_pmp (harts s' h)) (view s' h)" if h: "h \<in> H" for h
  proof -
    have un: "hart_pmp (pmp s) (h_pmp (harts s' h)) (perm_unset (pmp s) (epm s i) (view s h))"
      using hart_pmp_unset [OF wf0 sm_invD(7) [OF inv h] L(3) [OF i] hp [OF h]] .
    have "perm_unset (pmp s) (epm s i) (view s h) j = view s' h j" for j
    proof (cases "j = epm s i")
      case True
      have "epm s x \<noteq> epm s i" "utm s x \<noteq> epm s i" if "live s' x" for x using K that by (auto simp: lv)
      then have "view s' h j = None"
        using I i by (intro view_none) (auto simp: True ids eq ids_ok_def)
      then show ?thesis by (simp add: True perm_unset_def)
    next
      case False
      have "\<not> shares_reg (pmp s) (epm s i) j" if "view s h j \<noteq> None"
        using shares_reg_iff [OF wf0 L(3) [OF i] view_valid [OF inv h that]] False L(8) [OF i] by simp
      then have "perm_unset (pmp s) (epm s i) (view s h) j = view s h j"
        using False by (cases "view s h j") (auto simp: perm_unset_def)
      moreover have A: "(\<exists>x. live s' x \<and> epm s' x = j) = (\<exists>x. live s x \<and> epm s x = j)"
        using False lv eq(1) by metis
      moreover have B: "(\<exists>x. live s' x \<and> epm s' x = j \<and> runs s' h x) = (\<exists>x. live s x \<and> epm s x = j \<and> runs s h x)"
        using False lv eq(1) rn by metis
      moreover have C: "(\<exists>x. live s' x \<and> utm s' x = j \<and> runs s' h x) = (\<exists>x. live s x \<and> utm s x = j \<and> runs s h x)"
        using lv eq(2) rn nr [OF h] by metis
      ultimately show ?thesis by (simp only: view_def A B C ids)
    qed
    then have eqv: "perm_unset (pmp s) (epm s i) (view s h) = view s' h" by auto
    show ?thesis
    proof (rule hart_pmp_transfer [OF un [unfolded eqv]])
      fix k assume k: "view s' h k \<noteq> None"
      then have "region_valid (pmp s) k" using hart_pmpD(1) [OF un [unfolded eqv]] by auto
      moreover have "k \<noteq> epm s i" using k by (auto simp: eqv [symmetric] perm_unset_def)
      moreover have "k \<noteq> utm s i" using k nr [OF h] view_utm [OF I i, of h] by (auto simp: eqv [symmetric] perm_unset_def)
      ultimately show "regions (pmp s') ! k = regions (pmp s) ! k \<and> region_valid (pmp s') k"
        using kp by (simp add: keeps_except_def)
    qed
  qed
  then show ?thesis using wf len eo so io co by (simp add: sm_inv_def)
qed

lemma global_unset_valid:
  assumes "pmp_wf (pmp s)" and "region_valid (pmp s) k"
  shows "\<exists>cs. global_pmp_unset env (int k) s = Some (SBI_ERR_SM_PMP_SUCCESS, put_pmps cs s) \<and>
    (\<forall>h. if h \<in> set (ipi_harts env) then entries_unset (pmp s) k (h_pmp (harts s h)) (cs h) else cs h = h_pmp (harts s h))"
  using pmp_unset_global_valid [OF assms(1), of k "ipi_harts env" "\<lambda>h. h_pmp (harts s h)"] assms(2)
  by (auto simp: global_pmp_unset_def region_valid_def)

lemma free_region_valid:
  assumes "pmp_wf (pmp s)" and "region_valid (pmp s) k"
  shows "\<exists>p. free_region (int k) s = s\<lparr>pmp := p\<rparr> \<and> pmp_freed (pmp s) k p"
  using pmp_region_free_valid [OF assms(1), of k] assms(2) by (auto simp: free_region_def region_valid_def)

lemma destroy_regions_skip: "\<forall>r\<in>set rs. er_type r \<in> {REGION_INVALID, REGION_UTM} \<Longrightarrow> destroy_regions env rs s = Some s"
  by (induction rs) auto

lemma get_index_utm:
  assumes "encl_regions_ok p (enclaves s ! unat eid)"
  shows "get_enclave_region_index eid REGION_UTM s = 1"
proof -
  obtain k u where e: "e_regions (enclaves s ! unat eid) = \<lparr>pmp_rid = int k, er_type = REGION_EPM\<rparr> #
      \<lparr>pmp_rid = int u, er_type = REGION_UTM\<rparr> # drop 2 (e_regions (enclaves s ! unat eid))"
    using assms unfolding encl_regions_ok_def by blast
  have "er_type (e_regions (enclaves s ! unat eid) ! 0) = REGION_EPM" "er_type (e_regions (enclaves s ! unat eid) ! 1) = REGION_UTM"
    by (subst e, simp)+
  then show ?thesis by (simp add: get_enclave_region_index_def ENCLAVE_REGIONS_MAX_def upt_rec)
qed

text \<open>What a successful call of \<open>destroy_enclave\<close> did.\<close>

definition destroyed :: "nat set \<Rightarrow> nat \<Rightarrow> sm_state \<Rightarrow> sm_state \<Rightarrow> bool" where
  "destroyed H i s s' \<longleftrightarrow>
     keeps_except {epm s i, utm s i} (pmp s) (pmp s') \<and>
     \<not> region_valid (pmp s') (epm s i) \<and> \<not> region_valid (pmp s') (utm s i) \<and>
     sm_region_id s' = sm_region_id s \<and> os_region_id s' = os_region_id s \<and> cpus s' = cpus s \<and> length (enclaves s') = 16 \<and>
     (\<forall>j<16. j \<noteq> i \<longrightarrow> enclaves s' ! j = enclaves s ! j) \<and>
     e_state (enclaves s' ! i) = INVALID \<and> e_params (enclaves s' ! i) = params_zero \<and>
     e_regions (enclaves s' ! i) = clear_regions (e_regions (enclaves s ! i)) \<and>
     (\<forall>h\<in>H. entries_unset (pmp s) (epm s i) (h_pmp (harts s h)) (h_pmp (harts s' h))) \<and>
     memory s' = mem_set (rg_addr (regions (pmp s) ! epm s i)) 0 (rg_size (regions (pmp s) ! epm s i)) (memory s)"

lemma destroyed_inv:
  assumes "sm_inv H s" and "live s i" and "e_state (enclaves s ! i) \<noteq> RUNNING" and "destroyed H i s s'"
  shows "sm_inv H s'"
  using assms live_regions(2) [OF assms(1,2)] unfolding destroyed_def
  by (elim conjE) (rule inv_destroy, auto simp: clear_regions_def)

text \<open>The loop over the regions unmaps and frees the private memory, and only that.\<close>

lemma destroy_regions_enclave:
  assumes wf: "pmp_wf (pmp s)" and e: "encl_regions_ok (pmp s) e" and k: "k = nat (pmp_rid (e_regions e ! 0))"
  shows "\<exists>cs p. destroy_regions env (e_regions e) s =
      Some ((put_pmps cs s)\<lparr>pmp := p, memory := mem_set (rg_addr (regions (pmp s) ! k)) 0 (rg_size (regions (pmp s) ! k)) (memory s)\<rparr>) \<and>
    pmp_freed (pmp s) k p \<and>
    (\<forall>h\<in>set (ipi_harts env). entries_unset (pmp s) k (h_pmp (harts s h)) (cs h))"
proof -
  obtain k' u where e': "e_regions e = \<lparr>pmp_rid = int k', er_type = REGION_EPM\<rparr> # \<lparr>pmp_rid = int u, er_type = REGION_UTM\<rparr> #
      drop 2 (e_regions e)" "\<forall>r\<in>set (drop 2 (e_regions e)). er_type r = REGION_INVALID" and v: "region_valid (pmp s) k'"
    using e unfolding encl_regions_ok_def by blast
  have kk: "k' = k" unfolding k by (subst e'(1)) simp
  have va: "is_pmp_region_valid (pmp s) (int k)" using v valid_nat_iff [of k "pmp s"] by (simp add: kk region_valid_def)
  let ?m = "mem_set (rg_addr (regions (pmp s) ! k)) 0 (rg_size (regions (pmp s) ! k)) (memory s)"
  let ?s = "s\<lparr>memory := ?m\<rparr>"
  obtain cs where cs: "global_pmp_unset env (int k) ?s = Some (SBI_ERR_SM_PMP_SUCCESS, put_pmps cs ?s)"
    and hs: "\<forall>h. if h \<in> set (ipi_harts env) then entries_unset (pmp s) k (h_pmp (harts s h)) (cs h) else cs h = h_pmp (harts s h)"
    using global_unset_valid [of ?s k env] wf v kk by (auto cong: if_cong)
  obtain p where p: "free_region (int k) (put_pmps cs ?s) = (put_pmps cs ?s)\<lparr>pmp := p\<rparr>" "pmp_freed (pmp s) k p"
    using free_region_valid [of "put_pmps cs ?s" k] wf v kk by auto
  have "destroy_regions env (e_regions e) s = Some ((put_pmps cs ?s)\<lparr>pmp := p\<rparr>)"
    by (subst e'(1)) (use e'(2) va in \<open>simp add: kk cs p pmp_region_get_addr_def pmp_region_get_size_def
        region_get_addr_def region_get_size_def destroy_regions_skip\<close>)
  then show ?thesis using p(2) hs by (intro exI [of _ cs] exI [of _ p]) (auto simp: put_pmps_def)
qed

lemma destroy_enclave_cases:
  assumes inv: "sm_inv H s" and ipi: "H \<subseteq> set (ipi_harts env)"
  shows "if live s (unat eid) \<and> e_state (enclaves s ! unat eid) \<noteq> RUNNING
    then \<exists>s'. destroy_enclave env eid s = Some (SBI_ERR_SM_ENCLAVE_SUCCESS, s') \<and> destroyed H (unat eid) s s'
    else destroy_enclave env eid s = Some (SBI_ERR_SM_ENCLAVE_NOT_DESTROYABLE, s)"
proof (cases "live s (unat eid) \<and> e_state (enclaves s ! unat eid) \<noteq> RUNNING")
  case False
  then have "\<not> (ENCLAVE_EXISTS eid s \<and> e_state (enclaves s ! unat eid) \<le> STOPPED)"
    by (cases "e_state (enclaves s ! unat eid)")
      (auto simp: ENCLAVE_EXISTS_def live_def cfg_defs less_eq_enclave_state_def)
  then show ?thesis using False by (auto simp: destroy_enclave_def destroy_begin_def)
next
  case True
  then have i: "live s (unat eid)" and i16: "unat eid < 16" and nr: "e_state (enclaves s ! unat eid) \<noteq> RUNNING"
    by (simp_all add: live_def)
  let ?i = "unat eid"
  note wf = sm_invD(2) [OF inv] and len = sm_invD(1) [OF inv] and L = live_regions [OF inv i]
  have ex: "ENCLAVE_EXISTS eid s \<and> e_state (enclaves s ! unat eid) \<le> STOPPED"
    using True by (cases "e_state (enclaves s ! unat eid)")
      (auto simp: ENCLAVE_EXISTS_def live_def cfg_defs less_eq_enclave_state_def)
  define s1 where "s1 = upd_encl eid (\<lambda>e. e\<lparr>e_state := DESTROYING\<rparr>) s"
  have s1: "pmp s1 = pmp s" "harts s1 = harts s" "memory s1 = memory s" "length (enclaves s1) = 16"
      "enclaves s1 ! ?i = (enclaves s ! ?i)\<lparr>e_state := DESTROYING\<rparr>"
    using len i16 by (simp_all add: s1_def)
  have er: "encl_regions_ok (pmp s1) (enclaves s1 ! ?i)"
    using L(1) encl_regions_cong [of "enclaves s1 ! ?i" "enclaves s ! ?i"] by (simp add: s1)
  have de: "destroy_enclave env eid s = destroy_finish env eid s1"
    using ex by (simp add: destroy_enclave_def destroy_begin_def s1_def Let_def)
  have k: "nat (pmp_rid (e_regions (enclaves s1 ! ?i) ! 0)) = epm s ?i" by (simp add: s1 epm_def)
  have u: "pmp_rid (e_regions (enclaves s1 ! ?i) ! 1) = int (utm s ?i)"
  proof -
    obtain k u where e: "e_regions (enclaves s ! ?i) = \<lparr>pmp_rid = int k, er_type = REGION_EPM\<rparr> #
        \<lparr>pmp_rid = int u, er_type = REGION_UTM\<rparr> # drop 2 (e_regions (enclaves s ! ?i))"
      using L(1) unfolding encl_regions_ok_def by blast
    have "pmp_rid (e_regions (enclaves s ! ?i) ! 1) = int u" by (subst e) simp
    then show ?thesis by (simp add: s1 utm_def)
  qed
  obtain cs p where dr: "destroy_regions env (e_regions (enclaves s1 ! ?i)) s1 = Some ((put_pmps cs s1)\<lparr>pmp := p,
      memory := mem_set (rg_addr (regions (pmp s) ! epm s ?i)) 0 (rg_size (regions (pmp s) ! epm s ?i)) (memory s)\<rparr>)"
    and p: "pmp_freed (pmp s) (epm s ?i) p"
    and cs: "\<forall>h\<in>set (ipi_harts env). entries_unset (pmp s) (epm s ?i) (h_pmp (harts s h)) (cs h)"
    using destroy_regions_enclave [OF _ er k [symmetric], of env] wf by (auto simp: s1(1-3))
  define s2 where "s2 = (put_pmps cs s1)\<lparr>pmp := p,
      memory := mem_set (rg_addr (regions (pmp s) ! epm s ?i)) 0 (rg_size (regions (pmp s) ! epm s ?i)) (memory s)\<rparr>"
  have kp: "keeps_except {epm s ?i} (pmp s) p"
    using freed_except [of "{}" "pmp s" "pmp s" "epm s ?i" p] wf L(3) p by (simp add: keeps_except_def)
  have ne: "utm s ?i \<noteq> epm s ?i" using sm_invD(5) [OF inv] i unfolding ids_ok_def by metis
  have uv: "region_valid p (utm s ?i)" using kp L(4) ne by (simp add: keeps_except_def)
  obtain p' where p': "free_region (int (utm s ?i)) s2 = s2\<lparr>pmp := p'\<rparr>" "pmp_freed p (utm s ?i) p'"
    using free_region_valid [of s2 "utm s ?i"] kp uv by (auto simp: s2_def keeps_except_def)
  have kp': "keeps_except {epm s ?i, utm s ?i} (pmp s) p'"
    using freed_except [OF kp uv p'(2)] by (simp add: insert_commute)
  have gone: "\<not> region_valid p' (epm s ?i)" "\<not> region_valid p' (utm s ?i)"
    using pmp_freedD(2) [OF p] pmp_freedD(2) [OF p'(2)] by (simp_all add: region_valid_def)
  have e2: "enclaves s2 = enclaves s1" by (simp add: s2_def)
  have ix: "get_enclave_region_index eid REGION_UTM s2 = 1" using get_index_utm [of "pmp s1" s2] er by (simp add: e2)
  have fin: "destroy_finish env eid s1 = Some (SBI_ERR_SM_ENCLAVE_SUCCESS, encl_free_eid eid
      (upd_encl eid (\<lambda>e. e\<lparr>encl_satp := 0, n_thread := 0, e_params := params_zero, e_regions := clear_regions (e_regions e)\<rparr>)
        (s2\<lparr>pmp := p'\<rparr>)))"
    using dr p'(1) u by (simp add: destroy_finish_def ix e2 s2_def [symmetric] del: upd_encl_fields)
  have "destroyed H ?i s (encl_free_eid eid
      (upd_encl eid (\<lambda>e. e\<lparr>encl_satp := 0, n_thread := 0, e_params := params_zero, e_regions := clear_regions (e_regions e)\<rparr>)
        (s2\<lparr>pmp := p'\<rparr>)))"
    unfolding destroyed_def using kp' gone i16 len cs ipi by (auto simp: encl_free_eid_def s2_def s1_def)
  then show ?thesis using True fin de by auto
qed

section \<open>The measurement of a created enclave\<close>

lemma create_finish_hash:
  assumes cf: "create_finish env eid r sr args out s = Some (ret, out', s')" and len: "unat eid < length (enclaves s)"
    and o: "params_ordered (create_params args)"
  shows "e_hash (enclaves s' ! unat eid) = sha3 (measured (memory s') (create_params args)) MDSIZE"
proof -
  let ?e = "init_enclave_metadata eid r sr (create_params args) (h_csrs (harts s (mhartid env))) (enclaves s ! unat eid)"
  have p: "e_params ?e = create_params args" by (simp add: init_enclave_metadata_def Let_def)
  then have "params_ordered (e_params ?e)" using o by simp
  from validate_and_hash_enclave_eq [OF this] show ?thesis
    using cf len p by (auto simp: create_finish_def Let_def clean_enclave_memory_def platform_hooks err_codes upd_encl_def)
qed

lemma create_enclave_finish:
  assumes cr: "create_enclave env eidptr args s = Some (SBI_ERR_SM_ENCLAVE_SUCCESS, out, s')" and len: "length (enclaves s) = 16"
  obtains eid r sr t where "create_finish env eid r sr args eidptr t = Some (SBI_ERR_SM_ENCLAVE_SUCCESS, out, s')"
    and "unat eid < length (enclaves t)"
proof -
  show thesis
  proof (cases rule: alloc_eid_cases [OF len])
    case 1
    then show thesis using cr by (auto simp: create_enclave_def err_codes split: if_splits)
  next
    case some: (2 i)
    let ?s = "upd_encl (of_nat i) (\<lambda>e. e\<lparr>e_state := ALLOCATED\<rparr>) s"
    have v: "is_create_args_valid args" using cr by (auto simp: create_enclave_def err_codes split: if_splits)
    have rest: "\<exists>region p. create_rest env (of_nat i) region args eidptr (?s\<lparr>pmp := p\<rparr>) = Some (SBI_ERR_SM_ENCLAVE_SUCCESS, out, s')"
      using cr unfolding create_enclave_steps [OF v some(4) refl]
      by (auto simp: err_codes split: option.splits if_splits) blast
    then obtain region p where "create_rest env (of_nat i) region args eidptr (?s\<lparr>pmp := p\<rparr>) = Some (SBI_ERR_SM_ENCLAVE_SUCCESS, out, s')"
      by blast
    then obtain sr q e t where g: "global_pmp_set env region PMP_NO_PERM (?s\<lparr>pmp := q\<rparr>) = Some (e, t)"
        and f: "create_finish env (of_nat i) region sr args eidptr t = Some (SBI_ERR_SM_ENCLAVE_SUCCESS, out, s')"
      by (auto simp: create_rest_def err_codes bind_eq_Some_conv Let_def split: if_splits)
    have "length (enclaves t) = 16" using g len by (auto simp: global_pmp_set_def)
    then show thesis using that [OF f] some(1,3) by simp
  qed
qed

lemma create_params_ordered:
  assumes v: "is_create_args_valid args" and e: "unat (paddr (epm_region args)) + unat (pr_size (epm_region args)) \<le> 2 ^ 64 - 4096"
  shows "params_ordered (create_params args)"
proof -
  have "unat (paddr (epm_region args) + pr_size (epm_region args)) = unat (paddr (epm_region args)) + unat (pr_size (epm_region args))"
    using e by (intro unat_add_small) simp
  then show ?thesis
    using v e by (auto simp: is_create_args_valid_def params_ordered_def create_params_def Let_def word_le_nat_alt word_less_nat_alt
        split: if_splits)
qed

lemma aligned_below_top:
  assumes "page_aligned a" and "page_aligned b" and "unat a + unat b < 2 ^ 64"
  shows "unat a + unat b \<le> 2 ^ 64 - 4096"
proof -
  have "4096 dvd unat a + unat b" using assms(1,2) by (simp add: page_aligned_iff mod_eq_0_iff_dvd)
  then obtain n where "unat a + unat b = 4096 * n" by (elim dvdE)
  then show ?thesis using assms(3) by simp
qed

text \<open>A region that may not overlap the monitor's memory ends below the last page.\<close>

lemma exclusive_below_top:
  assumes wf: "pmp_wf p" and a: "region_valid p a" "rg_addr (regions p ! a) = SMM_BASE" "rg_size (regions p ! a) = SMM_SIZE"
      "\<not> rg_allow_overlap (regions p ! a)"
    and k: "region_valid p k" "\<not> rg_allow_overlap (regions p ! k)" "a \<noteq> k"
  shows "unat (rg_addr (regions p ! k)) + unat (rg_size (regions p ! k)) \<le> 2 ^ 64 - 4096"
proof -
  have ok: "region_ok (regions p ! k)" using pmp_wfD(2) [OF wf] k(1) by (simp add: region_valid_def)
  have dis: "regions_disjoint (regions p ! a) (regions p ! k)"
    using pmp_wfD(5) [OF wf, of a k] k a by (simp add: region_valid_def)
  have "unat (- 1 :: u64) = 2 ^ 64 - 1" by (simp add: unsigned_minus_1_eq_mask mask_eq_exp_minus_1)
  then have "\<not> (rg_addr (regions p ! k) = 0 \<and> rg_size (regions p ! k) = - 1)"
    using dis a(2,3) by (auto simp: regions_disjoint_def cfg_defs)
  then show ?thesis
    using ok k(2) aligned_below_top [of "rg_addr (regions p ! k)" "rg_size (regions p ! k)"] by (auto simp: region_ok_def)
qed

lemma sm_region_kept:
  assumes inv: "sm_inv H s" and kp: "keeps_regions (pmp s) p"
  obtains a where "region_valid (pmp s) a" and "region_valid p a" and "rg_addr (regions p ! a) = SMM_BASE"
    and "rg_size (regions p ! a) = SMM_SIZE" and "\<not> rg_allow_overlap (regions p ! a)"
  using sm_invD(4) [OF inv] kp by (auto simp: system_ok_def keeps_regions_def)

lemma created_measurement:
  assumes inv: "sm_inv H s" and ipi: "H \<subseteq> set (ipi_harts env)"
    and cr: "create_enclave env eidptr args s = Some (SBI_ERR_SM_ENCLAVE_SUCCESS, out, s')"
  obtains i k u where "created H args i k u s s'" and "out = of_nat i" and "is_create_args_valid args"
    and "e_hash (enclaves s' ! i) = sha3 (measured (memory s') (create_params args)) MDSIZE"
proof -
  obtain i k u where c: "created H args i k u s s'" "out = of_nat i" and v: "is_create_args_valid args"
    using create_enclave_cases [OF inv ipi cr] by auto
  obtain eid r sr t where f: "create_finish env eid r sr args eidptr t = Some (SBI_ERR_SM_ENCLAVE_SUCCESS, out, s')" "unat eid < length (enclaves t)"
    by (rule create_enclave_finish [OF cr sm_invD(1) [OF inv]])
  have "out = ucast eid" by (rule create_finish_eq(2) [OF f])
  moreover have "unat (ucast eid :: u64) = unat eid"
    by (simp add: unsigned_ucast_eq take_bit_nat_eq_self order.strict_trans1 [OF less_imp_le [OF unsigned_less]])
  moreover have "unat (of_nat i :: u64) = i" using c(1) by (simp add: created_def unsigned_of_nat take_bit_nat_eq_self)
  ultimately have eid: "unat eid = i" using c(2) by metis
  have kp: "keeps_regions (pmp s) (pmp s')" "pmp_wf (pmp s')"
    and k: "region_valid (pmp s') k" "\<not> rg_allow_overlap (regions (pmp s') ! k)" "\<not> region_valid (pmp s) k"
      "rg_addr (regions (pmp s') ! k) = paddr (epm_region args)" "rg_size (regions (pmp s') ! k) = pr_size (epm_region args)"
    using c(1) by (auto simp: created_def keeps_regions_def)
  have "unat (paddr (epm_region args)) + unat (pr_size (epm_region args)) \<le> 2 ^ 64 - 4096"
  proof (rule sm_region_kept [OF inv kp(1)])
    fix a assume "region_valid (pmp s) a" "region_valid (pmp s') a" "rg_addr (regions (pmp s') ! a) = SMM_BASE"
      "rg_size (regions (pmp s') ! a) = SMM_SIZE" "\<not> rg_allow_overlap (regions (pmp s') ! a)"
    with exclusive_below_top [OF kp(2), of a k] k show ?thesis by auto
  qed
  then have "params_ordered (create_params args)" by (rule create_params_ordered [OF v])
  from create_finish_hash [OF f this] eid show thesis using that c v by blast
qed

section \<open>Creation returns\<close>

text \<open>Creating a region that must not overlap always returns: no assertion fails.\<close>

lemma region_init_returns: "\<exists>r. pmp_region_init start sz priority rid False p = Some r"
proof -
  have pg: "RISCV_PGSIZE - 1 = 4095" by (simp add: cfg_defs)
  have napot: "\<exists>r. napot_region_init start sz priority rid False p = Some r"
    if "sz \<noteq> 0" "sz = - 1 \<and> start = 0 \<or> sz AND (sz - 1) = 0 \<and> start AND (sz - 1) = 0 \<and> sz AND 4095 = 0 \<and> start AND 4095 = 0"
    using that by (auto simp: napot_region_init_def napot_pick_reg_eq get_free_region_idx_eq pg Let_def split: option.splits)
  have tor: "\<exists>r. tor_region_init start sz priority rid False p = Some r"
    if "sz \<noteq> 0" "sz AND 4095 = 0" "start AND 4095 = 0" "priority = PMP_PRI_ANY \<or> priority = PMP_PRI_TOP \<and> start = 0"
    using that by (auto simp: tor_region_init_def tor_pick_reg_eq get_free_region_idx_eq pg Let_def split: option.splits)
  have top: "start = 0" if "sz = - 1" "\<not> detect_region_overlap start sz p"
  proof -
    have "unat start + (2 ^ 64 - 1) < 2 ^ 64"
      using detect_overlap_no_wrap [OF that(2)] that(1) by (simp add: unsigned_minus_1_eq_mask mask_eq_exp_minus_1)
    then show ?thesis by (simp add: unat_eq_zero [symmetric])
  qed
  show ?thesis
    using napot tor top unfolding pmp_region_init_def pg by (cases priority) auto
qed

lemma region_init_atomic_returns: "\<exists>c r q. pmp_region_init_atomic start sz priority rid False p = Some (c, r, q)"
  using region_init_returns by (auto simp: pmp_region_init_atomic_def)

lemma create_finish_returns:
  assumes "unat eid < length (enclaves s)" and o: "params_ordered (create_params args)"
  shows "\<exists>out s'. create_finish env eid r sr args eidptr s = Some (SBI_ERR_SM_ENCLAVE_SUCCESS, out, s')"
proof -
  let ?e = "init_enclave_metadata eid r sr (create_params args) (h_csrs (harts s (mhartid env))) (enclaves s ! unat eid)"
  have "e_params ?e = create_params args" by (simp add: init_enclave_metadata_def Let_def)
  then have "params_ordered (e_params ?e)" using o by simp
  from validate_and_hash_enclave_eq [OF this] show ?thesis
    using assms(1) by (simp add: create_finish_def Let_def clean_enclave_memory_def platform_hooks err_codes upd_encl_def)
qed

lemma create_rest_returns:
  assumes wf: "pmp_wf (pmp s)" and k: "region_valid (pmp s) k" and reg0: "bit (reg_bitmap (pmp s)) 0"
    and eid: "unat eid < length (enclaves s)" and o: "params_ordered (create_params args)"
  shows "\<exists>r. create_rest env eid (int k) args eidptr s = Some r"
proof -
  obtain c u p where u: "pmp_region_init (paddr (utm_region args)) (pr_size (utm_region args)) PMP_PRI_BOTTOM 0 False (pmp s) = Some (c, u, p)"
    using region_init_returns [of "paddr (utm_region args)" "pr_size (utm_region args)" PMP_PRI_BOTTOM 0 "pmp s"] by auto
  show ?thesis
  proof (cases "c = 0")
    case True
    then have "keeps_regions (pmp s) p" using region_init_ok [OF wf u reg0] by auto
    then have "pmp_wf p" "region_valid p k" using k by (auto simp: keeps_regions_def)
    then obtain cs where "global_pmp_set env (int k) PMP_NO_PERM (s\<lparr>pmp := p\<rparr>) = Some (SBI_ERR_SM_PMP_SUCCESS, put_pmps cs (s\<lparr>pmp := p\<rparr>))"
      using global_set_valid [of "s\<lparr>pmp := p\<rparr>" k env PMP_NO_PERM] by auto
    then show ?thesis
      using u True create_finish_returns [of eid "put_pmps cs (s\<lparr>pmp := p\<rparr>)" args env "int k" u eidptr] eid o
      by (auto simp: create_rest_def err_codes)
  qed (use u in \<open>simp add: create_rest_def\<close>)
qed

lemma create_enclave_returns:
  assumes inv: "sm_inv H s"
  shows "\<exists>ret out s'. create_enclave env eidptr args s = Some (ret, out, s')"
proof (cases "is_create_args_valid args")
  case v: True
  show ?thesis
  proof (cases rule: alloc_eid_cases [OF sm_invD(1) [OF inv]])
    case 1
    then show ?thesis using v by (simp add: create_enclave_def err_codes)
  next
    case some: (2 i)
    let ?s = "upd_encl (of_nat i) (\<lambda>e. e\<lparr>e_state := ALLOCATED\<rparr>) s"
    obtain c r p where r: "pmp_region_init (paddr (epm_region args)) (pr_size (epm_region args)) PMP_PRI_ANY 0 False (pmp s) = Some (c, r, p)"
      using region_init_returns [of "paddr (epm_region args)" "pr_size (epm_region args)" PMP_PRI_ANY 0 "pmp s"] by auto
    show ?thesis
    proof (cases "c = 0")
      case True
      then obtain k where k: "r = int k" "keeps_regions (pmp s) p" "region_valid p k" "\<not> region_valid (pmp s) k"
          "\<not> rg_allow_overlap (regions p ! k)" "rg_addr (regions p ! k) = paddr (epm_region args)"
          "rg_size (regions p ! k) = pr_size (epm_region args)" "bit (reg_bitmap p) 0"
        using region_init_ok [OF sm_invD(2) [OF inv] r reg0_used [OF inv]] by auto
      have "unat (paddr (epm_region args)) + unat (pr_size (epm_region args)) \<le> 2 ^ 64 - 4096"
      proof (rule sm_region_kept [OF inv k(2)])
        fix a assume "region_valid (pmp s) a" "region_valid p a" "rg_addr (regions p ! a) = SMM_BASE"
          "rg_size (regions p ! a) = SMM_SIZE" "\<not> rg_allow_overlap (regions p ! a)"
        with exclusive_below_top [of p a k] k show ?thesis by (auto simp: keeps_regions_def)
      qed
      then have "params_ordered (create_params args)" by (rule create_params_ordered [OF v])
      then have "\<exists>x. create_rest env (of_nat i) (int k) args eidptr (?s\<lparr>pmp := p\<rparr>) = Some x"
        using k some(1,3) sm_invD(1) [OF inv] by (intro create_rest_returns) (simp_all add: keeps_regions_def)
      then show ?thesis using create_enclave_steps [OF v some(4) refl, of env eidptr] r True k(1) by auto
    qed (use create_enclave_steps [OF v some(4) refl, of env eidptr] r in simp)
  qed
qed (simp add: create_enclave_def)

end
