(* ===== verification/Reachable.thy ===== *)
theory Reachable
  imports Lifecycle
begin

text \<open>
  The whole machine as a transition system: calls of the SBI handler, traps while an enclave
  runs, and instructions of the software on the harts. Every step keeps the isolation invariant
  and leaves the private memory of the enclaves that do not run on its hart alone; the boot
  establishes the invariant.
\<close>

section \<open>Entering and leaving an enclave\<close>

lemma local_pmp_set_memory: "local_pmp_set env rid perm s = Some (ret, s') \<Longrightarrow> memory s' = memory s"
  by (auto simp: local_pmp_set_def)

lemma set_regions_perm_memory: "set_regions_perm env perm rs s = Some s' \<Longrightarrow> memory s' = memory s"
proof (induction rs arbitrary: s)
  case (Cons r rs)
  then show ?case by (auto simp: bind_eq_Some_conv split: if_splits dest!: local_pmp_set_memory)
qed simp

lemma swap_context_memory: "swap_context env regs eid ror s = (regs', s') \<Longrightarrow> memory s' = memory s"
  by (auto simp: swap_context_def Let_def split: prod.splits)

lemma switch_to_enclave_memory:
  assumes "context_switch_to_enclave env regs eid lp s = Some (regs', s')"
  shows "memory s' = memory s"
proof -
  obtain r1 s1 where 1: "swap_context env regs eid True s = (r1, s1)" by fastforce
  show ?thesis
    using assms swap_context_memory [OF 1]
    by (cases lp) (auto simp: context_switch_to_enclave_def Let_def 1 osm_pmp_set_def bind_eq_Some_conv
        dest!: set_regions_perm_memory local_pmp_set_memory)
qed

lemma switch_to_host_memory:
  assumes "context_switch_to_host env regs eid ror s = Some (regs', s')"
  shows "memory s' = memory s"
  using assms
  by (auto simp: context_switch_to_host_def Let_def osm_pmp_set_def bind_eq_Some_conv case_prod_unfold
      swap_context_memory [OF prod.collapse [symmetric]] dest!: set_regions_perm_memory local_pmp_set_memory)

text \<open>The outcome of a successful switch into or out of enclave \<open>i\<close>.\<close>

definition entered :: "nat set \<Rightarrow> nat \<Rightarrow> nat \<Rightarrow> sm_state \<Rightarrow> sm_state \<Rightarrow> bool" where
  "entered H h i s s' \<longleftrightarrow> sm_inv H s' \<and> same_regions s s' \<and> memory s' = memory s \<and> runs s' h i \<and>
     e_state (enclaves s' ! i) = RUNNING"

definition left :: "nat set \<Rightarrow> nat \<Rightarrow> nat \<Rightarrow> sm_state \<Rightarrow> sm_state \<Rightarrow> bool" where
  "left H h i s s' \<longleftrightarrow> sm_inv H s' \<and> same_regions s s' \<and> memory s' = memory s \<and> \<not> is_enclave (cpus s' h) \<and>
     e_state (enclaves s' ! i) = STOPPED"

lemma enter_entered:
  assumes inv: "sm_inv H s" and h: "mhartid env \<in> H" "\<not> is_enclave (cpus s (mhartid env))"
    and eid: "live s (unat eid)" and nr: "e_state (enclaves s ! unat eid) \<noteq> RUNNING"
    and f: "\<And>e. e_regions (f e) = e_regions e" "\<And>e. e_state (f e) = RUNNING" "\<And>e. n_thread (f e) = n_thread e + 1"
  shows "\<exists>regs' s'. context_switch_to_enclave env regs eid lp (upd_encl eid f s) = Some (regs', s') \<and>
    entered H (mhartid env) (unat eid) s s'"
proof -
  have i16: "unat eid < 16" using eid by (simp add: live_def)
  have nt: "n_thread (enclaves s ! unat eid) = 0" using sm_invD(3) [OF inv i16] eid nr by (simp add: encl_ok_def live_def)
  obtain regs' s' where sw: "context_switch_to_enclave env regs eid lp (upd_encl eid f s) = Some (regs', s')" "sm_inv H s'"
      "switched (mhartid env) eid f (cpu_enter_enclave_context (mhartid env) eid (cpus s)) s s'"
    using enter_inv [OF inv h eid nr, of f regs lp] f nt by auto
  have ni: "e_state (f (enclaves s ! unat eid)) \<noteq> INVALID" "e_state (enclaves s ! unat eid) \<noteq> INVALID"
    using f(2) eid by (simp_all add: live_def)
  note D = switchedD [OF sw(3) sm_invD(1) [OF inv] i16 f(1) ni]
  have "runs s' (mhartid env) (unat eid)" by (simp add: runs_def D(3) cpu_enter_enclave_context_def)
  then show ?thesis
    using sw(1,2) D(5) D(7) [OF i16] f(2) switch_to_enclave_memory [OF sw(1)] by (auto simp: entered_def)
qed

lemma leave_left:
  assumes inv: "sm_inv H s" and h: "mhartid env \<in> H" and r: "runs s (mhartid env) (unat eid)"
  shows "\<exists>regs' s'. context_switch_to_host env regs eid ror (upd_encl eid leave_enclave s) = Some (regs', s') \<and>
    left H (mhartid env) (unat eid) s s'"
proof -
  obtain regs' s' where sw: "context_switch_to_host env regs eid ror (upd_encl eid leave_enclave s) = Some (regs', s')" "sm_inv H s'"
      "switched (mhartid env) eid leave_enclave (cpu_exit_enclave_context (mhartid env) (cpus s)) s s'"
    using leave_inv [OF inv h r, of regs ror] by blast
  have eid: "live s (unat eid)" and run: "e_state (enclaves s ! unat eid) = RUNNING"
    using enclave_context [OF inv h] r by (simp_all add: runs_def)
  have i16: "unat eid < 16" using eid by (simp add: live_def)
  note f = leave_enclave_stops [OF sm_invD(3) [OF inv i16] run]
  have ni: "e_state (leave_enclave (enclaves s ! unat eid)) \<noteq> INVALID" "e_state (enclaves s ! unat eid) \<noteq> INVALID"
    using f(1) run by simp_all
  note D = switchedD [OF sw(3) sm_invD(1) [OF inv] i16 f(3) ni]
  have "\<not> is_enclave (cpus s' (mhartid env))" by (simp add: D(3) cpu_exit_enclave_context_def)
  then show ?thesis
    using sw(1,2) D(5) D(7) [OF i16] f(1) switch_to_host_memory [OF sw(1)] by (auto simp: left_def)
qed

lemma exists_iff:
  assumes "sm_inv H s"
  shows "ENCLAVE_EXISTS eid s \<longleftrightarrow> live s (unat eid)"
  by (cases "e_state (enclaves s ! unat eid)") (auto simp: ENCLAVE_EXISTS_def live_def cfg_defs less_eq_enclave_state_def)

lemma run_enclave_cases:
  assumes inv: "sm_inv H s" and h: "mhartid env \<in> H" "\<not> is_enclave (cpus s (mhartid env))"
  shows "if live s (unat eid) \<and> e_state (enclaves s ! unat eid) = FRESH
    then \<exists>regs' s'. run_enclave env regs eid s = Some (SBI_ERR_SM_ENCLAVE_SUCCESS, regs', s') \<and> entered H (mhartid env) (unat eid) s s'
    else run_enclave env regs eid s = Some (SBI_ERR_SM_ENCLAVE_NOT_FRESH, regs, s)"
  using enter_entered [OF inv h, of eid "\<lambda>e. e\<lparr>e_state := RUNNING, n_thread := n_thread e + 1\<rparr>" regs True]
  by (auto simp: run_enclave_def Let_def exists_iff [OF inv])

lemma resume_enclave_cases:
  assumes inv: "sm_inv H s" and h: "mhartid env \<in> H" "\<not> is_enclave (cpus s (mhartid env))"
  shows "if live s (unat eid) \<and> e_state (enclaves s ! unat eid) = STOPPED
    then \<exists>regs' s'. resume_enclave env regs eid s = Some (SBI_ERR_SM_ENCLAVE_SUCCESS, regs', s') \<and> entered H (mhartid env) (unat eid) s s'
    else resume_enclave env regs eid s = Some (SBI_ERR_SM_ENCLAVE_NOT_RESUMABLE, regs, s)"
proof -
  have nt: "n_thread (enclaves s ! unat eid) = (if e_state (enclaves s ! unat eid) = RUNNING then 1 else 0)" if "live s (unat eid)"
    using sm_invD(3) [OF inv, of "unat eid"] that by (auto simp: live_def encl_ok_def)
  show ?thesis
    using nt enter_entered [OF inv h, of eid "\<lambda>e. e\<lparr>n_thread := n_thread e + 1, e_state := RUNNING\<rparr>" regs False]
    by (auto simp: resume_enclave_def Let_def exists_iff [OF inv] MAX_ENCL_THREADS_def)
qed

lemma exit_enclave_running:
  assumes inv: "sm_inv H s" and h: "mhartid env \<in> H" and r: "runs s (mhartid env) (unat eid)"
  shows "\<exists>regs' s'. exit_enclave env regs eid s = Some (SBI_ERR_SM_ENCLAVE_SUCCESS, regs', s') \<and> left H (mhartid env) (unat eid) s s'"
proof -
  have "e_state (enclaves s ! unat eid) = RUNNING" using enclave_context [OF inv h] r by (simp add: runs_def)
  then show ?thesis using leave_left [OF inv h r, of regs False] by (auto simp: exit_enclave_def Let_def)
qed

lemma stop_enclave_running:
  assumes inv: "sm_inv H s" and h: "mhartid env \<in> H" and r: "runs s (mhartid env) (unat eid)"
  shows "\<exists>ret regs' s'. stop_enclave env regs request eid s = Some (ret, regs', s') \<and> left H (mhartid env) (unat eid) s s' \<and>
    ret = (if request = STOP_TIMER_INTERRUPT then SBI_ERR_SM_ENCLAVE_INTERRUPTED
      else if request = STOP_EDGE_CALL_HOST then SBI_ERR_SM_ENCLAVE_EDGE_CALL_HOST else SBI_ERR_SM_ENCLAVE_UNKNOWN_ERROR)"
proof -
  have "e_state (enclaves s ! unat eid) = RUNNING" using enclave_context [OF inv h] r by (simp add: runs_def)
  then show ?thesis using leave_left [OF inv h r, of regs "request = STOP_EDGE_CALL_HOST"]
    by (auto simp: stop_enclave_def Let_def)
qed

section \<open>The circumstances of a call\<close>

text \<open>
  What the monitor relies on. OpenSBI delivers a PMP update to every hart; the monitor's stack,
  and with it the local structure at \<open>frame\<close>, lies in the monitor's memory; an access made with
  \<open>mstatus.MPRV\<close> passes the PMP check of the hart; and a signature has 64 bytes.
\<close>

definition env_ok :: "nat set \<Rightarrow> sm_state \<Rightarrow> sm_env \<Rightarrow> bool" where
  "env_ok H s env \<longleftrightarrow>
     mhartid env \<in> H \<and> H \<subseteq> set (ipi_harts env) \<and>
     unat SMM_BASE \<le> unat (frame env) \<and> unat (frame env) + sizeof_report \<le> unat SMM_BASE + unat SMM_SIZE \<and>
     (\<forall>a pa. xwrite env a = Some pa \<longrightarrow> pmp_allows (h_pmp (harts s (mhartid env))) pa PMP_W) \<and>
     (\<forall>m p k. length (ed25519_sign env m p k) = SIGNATURE_SIZE)"

definition epm_byte :: "sm_state \<Rightarrow> nat \<Rightarrow> u64 \<Rightarrow> bool" where
  "epm_byte s i a \<longleftrightarrow> in_region (regions (pmp s) ! epm s i) a"

lemma env_okD:
  assumes "env_ok H s env"
  shows "mhartid env \<in> H" and "H \<subseteq> set (ipi_harts env)" and "unat SMM_BASE \<le> unat (frame env)"
    and "unat (frame env) + sizeof_report \<le> unat SMM_BASE + unat SMM_SIZE"
    and "xwrite env a = Some pa \<Longrightarrow> pmp_allows (h_pmp (harts s (mhartid env))) pa PMP_W"
    and "length (ed25519_sign env m p k) = SIGNATURE_SIZE"
  using assms by (auto simp: env_ok_def)

lemma perm_bits: "PMP_W AND PMP_ALL_PERM = PMP_W" "PMP_W \<noteq> 0" "PMP_R AND PMP_ALL_PERM = PMP_R" "PMP_R \<noteq> 0"
    "PMP_X AND PMP_ALL_PERM = PMP_X" "PMP_X \<noteq> 0"
  by (simp_all add: PMP_ALL_PERM_def hw_consts)

text \<open>A private byte is neither in the monitor's memory nor writable from another hart.\<close>

lemma epm_byte_not_sm:
  assumes inv: "sm_inv H s" and i: "live s i" and a: "epm_byte s i a"
  shows "\<not> (unat SMM_BASE \<le> unat a \<and> unat a < unat SMM_BASE + unat SMM_SIZE)"
proof -
  obtain x b where sys: "sm_region_id s = int x" "region_valid (pmp s) x" "\<not> rg_allow_overlap (regions (pmp s) ! x)"
      "rg_addr (regions (pmp s) ! x) = SMM_BASE" "rg_size (regions (pmp s) ! x) = SMM_SIZE"
    using sm_invD(4) [OF inv] unfolding system_ok_def by blast
  have ne: "epm s i \<noteq> x" using sm_invD(5) [OF inv] i sys(1) by (auto simp: ids_ok_def)
  have "\<not> in_region (regions (pmp s) ! x) a"
    using disjoint_not_in [OF sm_invD(2) [OF inv] live_regions(3) [OF inv i] sys(2) ne live_regions(5) [OF inv i] sys(3)] a
    by (simp add: epm_byte_def)
  then show ?thesis by (auto simp: in_region_def sys(4,5) cfg_defs)
qed

lemma epm_byte_not_frame:
  assumes inv: "sm_inv H s" and env: "env_ok H s env" and i: "live s i" and a: "epm_byte s i a"
    and d: "unat d + n \<le> sizeof_report"
  shows "\<not> unat (a - (frame env + d)) < n"
proof
  assume l: "unat (a - (frame env + d)) < n"
  note E = env_okD(3,4) [OF env]
  have f: "unat (frame env) + sizeof_report < 2 ^ 64" using E by (simp add: cfg_defs)
  have fd: "unat (frame env + d) = unat (frame env) + unat d" using f d by (subst unat_add_small) simp_all
  have "unat a = unat (frame env + d) + unat (a - (frame env + d))"
    using f d l fd unat_add_small [of "frame env + d" "a - (frame env + d)"] by simp
  then show False using epm_byte_not_sm [OF inv i a] E d l fd by simp
qed

lemma epm_byte_not_written:
  assumes "sm_inv H s" and "env_ok H s env" and "live s i" and "epm_byte s i a" and "\<not> runs s (mhartid env) i"
  shows "xwrite env x \<noteq> Some a"
  using epm_no_access [OF assms(1) env_okD(1) [OF assms(2)] assms(3,5) _ perm_bits(1,2), of a] assms(4)
    env_okD(5) [OF assms(2)] by (auto simp: epm_byte_def)

lemma mem_write_frame:
  assumes "\<not> unat (a - b) < n" and "length bs \<le> n" and "n < 2 ^ 64"
  shows "mem_write b bs m a = m a"
  using assms by (intro mem_write_other) simp_all

section \<open>Calls that keep the enclaves\<close>

lemma fill_report_core: "same_core s (fill_report env eid sz s)"
  by (simp add: fill_report_def Let_def)

text \<open>The three states in which \<open>attest_enclave\<close> may return.\<close>

definition attest_data :: "sm_env \<Rightarrow> u64 \<Rightarrow> u64 \<Rightarrow> sm_state \<Rightarrow> sm_state" where
  "attest_data env dp sz s =
     (let s = snd (copy_enclave_data env (frame env + REPORT_DATA) dp (unat sz) s)
      in s\<lparr>memory := store64 (frame env + REPORT_DATA_LEN) sz (memory s)\<rparr>)"

lemma attest_states:
  "snd (attest_enclave env rp dp sz eid s) = s \<or>
   sz \<le> of_nat ATTEST_DATA_MAXLEN \<and> snd (attest_enclave env rp dp sz eid s) \<in>
     {attest_data env dp sz s,
      snd (copy_enclave_report env rp (frame env) (fill_report env eid sz (attest_data env dp sz s)))}"
  by (simp add: attest_enclave_def attest_data_def Let_def case_prod_unfold not_less)

lemma copy_core:
  "same_core s (snd (copy_enclave_data env d src n s))" "same_core s (snd (copy_enclave_report env d src s))"
  "same_core s (snd (copy_enclave_create_args env src d s))"
  by (simp_all add: copy_enclave_data_def copy_enclave_report_def copy_enclave_create_args_def case_prod_unfold)

lemma attest_data_core: "same_core s (attest_data env dp sz s)"
  unfolding attest_data_def Let_def by (rule same_core_trans [OF copy_core(1) same_core_memory])

lemma attest_core: "same_core s (snd (attest_enclave env rp dp sz eid s))"
  using attest_states [of env rp dp sz eid s] attest_data_core [of s env dp sz]
    same_core_trans [OF same_core_trans [OF attest_data_core fill_report_core] copy_core(2)]
  by (elim disjE conjE) auto

lemma plugin_core: "same_core s (snd (call_plugin env eid pid cid a0 a1 s))"
  by (auto simp: call_plugin_def do_sbi_multimem_def multimem_get_other_region_size_def
      multimem_get_other_region_addr_def multimem_put_word_def Let_def split: prod.splits)

lemma sealing_core:
  assumes "get_sealing_key env k ki kis eid s = Some (r, s')"
  shows "same_core s s'"
  using assms by (auto simp: get_sealing_key_def bind_eq_Some_conv Let_def split: if_splits)

text \<open>None of them writes to the private memory of another enclave, except \<open>get_sealing_key\<close>, which checks no address.\<close>

lemma frame_write:
  assumes "sm_inv H s" and "env_ok H s env" and "live s i" and "epm_byte s i a"
    and "unat d + length bs \<le> sizeof_report"
  shows "mem_write (frame env + d) bs m a = m a"
  using epm_byte_not_frame [OF assms(1-4), of d "length bs"] assms(5)
  by (intro mem_write_other) (simp_all add: sizeof_report_def)

lemmas report_offsets = REPORT_DATA_LEN_def REPORT_DATA_def REPORT_SIGNATURE_def REPORT_SM_HASH_def
  REPORT_SM_PUBLIC_KEY_def REPORT_SM_SIGNATURE_def REPORT_DEV_PUBLIC_KEY_def sizeof_report_def cfg_defs
  MDSIZE_def PUBLIC_KEY_SIZE_def SIGNATURE_SIZE_def ATTEST_DATA_MAXLEN_def

lemma attest_data_frame:
  assumes "sm_inv H s" and "env_ok H s env" and "live s i" and "epm_byte s i a" and sz: "sz \<le> of_nat ATTEST_DATA_MAXLEN"
  shows "memory (attest_data env dp sz s) a = memory s a"
proof -
  have n: "unat sz \<le> 1024" using sz by (simp add: ATTEST_DATA_MAXLEN_def word_le_nat_alt)
  have "\<not> unat (a - (frame env + REPORT_DATA)) < unat sz"
    using epm_byte_not_frame [OF assms(1-4), of REPORT_DATA "unat sz"] n by (simp add: report_offsets)
  then have "snd (copy_to_sm (xread env) (frame env + REPORT_DATA) dp (unat sz) (memory s)) a = memory s a"
    using n by (intro copy_to_sm_frame) simp_all
  moreover have "store64 (frame env + REPORT_DATA_LEN) sz m a = m a" for m
    unfolding store64_def by (rule frame_write [OF assms(1-4)]) (simp add: report_offsets)
  ultimately show ?thesis by (simp add: attest_data_def copy_enclave_data_def Let_def case_prod_unfold)
qed

lemma fill_report_frame:
  assumes "sm_inv H s" and "env_ok H s env" and "live s i" and "epm_byte s i a"
  shows "memory (fill_report env eid sz t) a = memory t a"
  using frame_write [OF assms, of REPORT_DEV_PUBLIC_KEY "take PUBLIC_KEY_SIZE (dev_public_key t)"]
    frame_write [OF assms, of REPORT_SM_HASH "take MDSIZE (sm_hash t)"]
    frame_write [OF assms, of REPORT_SM_PUBLIC_KEY "take PUBLIC_KEY_SIZE (sm_public_key t)"]
    frame_write [OF assms, of REPORT_SM_SIGNATURE "take SIGNATURE_SIZE (sm_signature t)"]
    frame_write [OF assms, of 0 "take MDSIZE (e_hash (enclaves t ! unat eid))"]
    frame_write [OF assms, of REPORT_SIGNATURE "sm_sign env m t" for m] env_okD(6) [OF assms(2)]
  by (simp add: fill_report_def Let_def report_offsets sm_sign_def sign_def)

lemma attest_frame:
  assumes "sm_inv H s" and "env_ok H s env" and "live s i" and "epm_byte s i a" and "\<not> runs s (mhartid env) i"
  shows "memory (snd (attest_enclave env rp dp sz eid s)) a = memory s a"
proof -
  have "memory (snd (copy_enclave_report env rp src t)) a = memory t a" for src t
    using copy_from_sm_frame(1) [OF epm_byte_not_written [OF assms]]
    by (simp add: copy_enclave_report_def case_prod_unfold)
  then show ?thesis
    using attest_states [of env rp dp sz eid s] attest_data_frame [OF assms(1-4)] fill_report_frame [OF assms(1-4)] by auto
qed

lemma plugin_frame:
  assumes "sm_inv H s" and "env_ok H s env" and "live s i" and "epm_byte s i a" and "\<not> runs s (mhartid env) i"
  shows "memory (snd (call_plugin env eid pid cid a0 a1 s)) a = memory s a"
proof -
  have "store64 (frame env) w m a = m a" for w m
    using frame_write [OF assms(1-4), of 0 "word_bytes w" m] by (simp add: store64_def report_offsets)
  then have "memory (snd (multimem_put_word env d w s)) a = memory s a" for d w
    using copy_from_sm_frame(2) [OF epm_byte_not_written [OF assms]] by (simp add: multimem_put_word_def case_prod_unfold)
  then show ?thesis
    by (simp add: call_plugin_def do_sbi_multimem_def multimem_get_other_region_size_def
        multimem_get_other_region_addr_def Let_def)
qed

lemma create_args_frame:
  assumes "sm_inv H s" and "env_ok H s env" and "live s i" and "epm_byte s i a"
  shows "memory (snd (copy_enclave_create_args env src (frame env) s)) a = memory s a"
  using epm_byte_not_frame [OF assms, of 0 64] copy_to_sm_frame [of a "frame env" 64 "xread env" src "memory s"]
  by (simp add: copy_enclave_create_args_def sizeof_create_args_def case_prod_unfold report_offsets)

section \<open>The handler keeps the invariant and the private memory\<close>

text \<open>
  \<open>epm_low\<close>: no enclave's private memory uses the last PMP register, which is the register of
  the operating system's region. The PMP manager does not ensure this when an enclave is created
  after another one was destroyed (the last theorem of \<open>PMP_Hardware\<close>), so it is a condition on the
  state after a call.
\<close>

definition epm_low :: "sm_state \<Rightarrow> bool" where
  "epm_low s \<longleftrightarrow> (\<forall>i. live s i \<longrightarrow> 7 \<notin> region_regs (regions (pmp s) ! epm s i))"

text \<open>A step on hart \<open>h\<close>: the private bytes of the enclaves that are neither in \<open>D\<close> nor run on \<open>h\<close> do not change.\<close>

definition keeps_private :: "nat \<Rightarrow> nat set \<Rightarrow> sm_state \<Rightarrow> sm_state \<Rightarrow> bool" where
  "keeps_private h D s s' \<longleftrightarrow>
     (\<forall>i a. live s i \<longrightarrow> i \<notin> D \<longrightarrow> \<not> runs s h i \<longrightarrow> epm_byte s i a \<longrightarrow> memory s' a = memory s a)"

lemma keeps_private_same: "memory s' = memory s \<Longrightarrow> keeps_private h D s s'"
  by (simp add: keeps_private_def)

lemma mem_set_in_region:
  assumes ok: "region_ok r" and nov: "\<not> rg_allow_overlap r" and a: "a - rg_addr r < rg_size r"
  shows "in_region r a"
proof -
  have nw: "unat (rg_addr r) + unat (rg_size r) < 2 ^ 64" using ok nov by (simp add: region_ok_def)
  have l: "unat (a - rg_addr r) < unat (rg_size r)" using a by (simp add: word_less_nat_alt)
  have "unat a = unat (rg_addr r) + unat (a - rg_addr r)"
    using l nw unat_add_small [of "rg_addr r" "a - rg_addr r"] by simp
  then show ?thesis using l by (simp add: in_region_def)
qed

lemma other_region_kept:
  assumes wf: "pmp_wf p" and v: "region_valid p x" "region_valid p y" and ne: "x \<noteq> y"
    and nov: "\<not> rg_allow_overlap (regions p ! x)" "\<not> rg_allow_overlap (regions p ! y)" and a: "in_region (regions p ! x) a"
  shows "mem_set (rg_addr (regions p ! y)) b (rg_size (regions p ! y)) m a = m a"
proof -
  have "\<not> in_region (regions p ! y) a" using disjoint_not_in [OF wf v ne nov a] .
  then show ?thesis
    using mem_set_in_region [of "regions p ! y" a] pmp_wfD(2) [OF wf, of y] v(2) nov(2)
    by (auto simp: region_valid_def intro!: mem_set_other)
qed

lemma created_private:
  assumes inv: "sm_inv H s" and cr: "created H args i k u s s'" and j: "live s j" and a: "epm_byte s j a"
  shows "memory s' a = memory s a"
proof -
  note L = live_regions [OF inv j]
  have kp: "keeps_regions (pmp s) (pmp s')" and nv: "\<not> region_valid (pmp s) u" and v: "region_valid (pmp s') u"
    and nov: "\<not> rg_allow_overlap (regions (pmp s') ! u)"
    and ru: "rg_addr (regions (pmp s') ! u) = paddr (utm_region args)" "rg_size (regions (pmp s') ! u) = pr_size (utm_region args)"
    and m: "memory s' = mem_set (paddr (utm_region args)) 0 (pr_size (utm_region args)) (memory s)"
    using cr by (simp_all add: created_def)
  have e: "region_valid (pmp s') (epm s j)" "regions (pmp s') ! epm s j = regions (pmp s) ! epm s j"
    using kp L(3) by (simp_all add: keeps_regions_def)
  have "mem_set (rg_addr (regions (pmp s') ! u)) 0 (rg_size (regions (pmp s') ! u)) (memory s) a = memory s a"
    using kp e v nv nov L(3,5) a
    by (intro other_region_kept [of "pmp s'" "epm s j"]) (auto simp: keeps_regions_def epm_byte_def)
  then show ?thesis by (simp add: m ru)
qed

lemma created_keeps:
  assumes inv: "sm_inv H s" and cr: "created H args i k u s s'"
  shows "keeps_enclaves D s s'"
proof -
  have "live s' j \<and> epm s' j = epm s j \<and> regions (pmp s') ! epm s j = regions (pmp s) ! epm s j" if j: "live s j" for j
  proof -
    have "j \<noteq> i" "j < 16" using j cr by (auto simp: created_def live_def)
    then have "enclaves s' ! j = enclaves s ! j" using cr by (simp add: created_def)
    then show ?thesis using j cr live_regions(3) [OF inv j] by (simp add: created_def live_def epm_def keeps_regions_def)
  qed
  then show ?thesis by (simp add: keeps_enclaves_def)
qed

lemma destroyed_keeps:
  assumes inv: "sm_inv H s" and i: "live s i" and de: "destroyed H i s s'"
  shows "keeps_enclaves {i} s s'"
proof -
  have "live s' j \<and> epm s' j = epm s j \<and> regions (pmp s') ! epm s j = regions (pmp s) ! epm s j" if j: "live s j" "j \<noteq> i" for j
  proof -
    have e: "enclaves s' ! j = enclaves s ! j" using de j by (simp add: destroyed_def live_def)
    have "epm s j \<notin> {epm s i, utm s i}" using sm_invD(5) [OF inv] i j unfolding ids_ok_def by (metis insertE singletonD)
    then show ?thesis using e j de live_regions(3) [OF inv j(1)] by (simp add: destroyed_def live_def epm_def keeps_except_def)
  qed
  then show ?thesis by (simp add: keeps_enclaves_def)
qed

lemma destroyed_private:
  assumes inv: "sm_inv H s" and i: "live s i" and de: "destroyed H i s s'" and j: "live s j" "j \<noteq> i" and a: "epm_byte s j a"
  shows "memory s' a = memory s a"
proof -
  have ne: "epm s j \<noteq> epm s i" using sm_invD(5) [OF inv] i j by (simp add: ids_ok_def)
  show ?thesis
    using de other_region_kept [OF sm_invD(2) [OF inv] live_regions(3) [OF inv j(1)] live_regions(3) [OF inv i] ne
        live_regions(5) [OF inv j(1)] live_regions(5) [OF inv i], of a 0 "memory s"] a
    by (simp add: destroyed_def epm_byte_def)
qed

text \<open>The private memory of a destroyed enclave holds zeros.\<close>

lemma in_region_mem_set:
  assumes na: "\<not> (rg_addr r = 0 \<and> rg_size r = - 1)" and a: "in_region r a"
  shows "mem_set (rg_addr r) b (rg_size r) m a = b"
proof -
  have "unat (rg_addr r) \<le> unat a" "unat a < unat (rg_addr r) + unat (rg_size r)"
    using a na by (auto simp: in_region_def split: if_splits)
  then have "unat (a - rg_addr r) < unat (rg_size r)" by (simp add: unat_sub word_le_nat_alt)
  then show ?thesis by (intro mem_set_same) (simp add: word_less_nat_alt)
qed

lemma epm_not_all:
  assumes inv: "sm_inv H s" and i: "live s i"
  shows "\<not> (rg_addr (regions (pmp s) ! epm s i) = 0 \<and> rg_size (regions (pmp s) ! epm s i) = - 1)"
proof
  assume "rg_addr (regions (pmp s) ! epm s i) = 0 \<and> rg_size (regions (pmp s) ! epm s i) = - 1"
  then have "epm_byte s i SMM_BASE" by (simp add: epm_byte_def in_region_def)
  then show False using epm_byte_not_sm [OF inv i, of SMM_BASE] by (simp add: cfg_defs)
qed

lemma destroyed_zero:
  assumes inv: "sm_inv H s" and i: "live s i" and de: "destroyed H i s s'" and a: "epm_byte s i a"
  shows "memory s' a = 0"
  using de in_region_mem_set [OF epm_not_all [OF inv i]] a by (simp add: destroyed_def epm_byte_def)

lemma created_epm:
  assumes inv: "sm_inv H s" and cr: "created H args i k u s s'"
  shows "live s' i" and "epm s' i = k" and "utm s' i = u"
proof -
  have "length (e_regions (enclaves s ! i)) = 8" using sm_invD(3) [OF inv, of i] cr by (simp add: created_def encl_ok_def)
  then show "live s' i" "epm s' i = k" "utm s' i = u" using cr by (simp_all add: created_def live_def epm_def utm_def)
qed

lemma create_call:
  assumes inv: "sm_inv H s" and env: "env_ok H s env" and cr: "sbi_sm_create_enclave env out args s = Some (ret, out', s')"
    and low: "epm_low s'"
  shows "sm_inv H s' \<and> keeps_private h {} s s' \<and> keeps_enclaves {} s s'"
proof -
  obtain r s1 where cp: "copy_enclave_create_args env args (frame env) s = (r, s1)" by fastforce
  have c1: "same_core s s1" using copy_core(3) [of s env args "frame env"] by (simp add: cp)
  have inv1: "sm_inv H s1" using same_core_inv [OF inv c1] .
  have m1: "memory s1 a = memory s a" if "live s i" "epm_byte s i a" for i a
    using create_args_frame [OF inv env that, of args] by (simp add: cp)
  have same: "live s1 i" "epm_byte s1 i a = epm_byte s i a" if "live s i" for i a
    using c1 that sm_invD(1) [OF inv] by (auto simp: same_core_def live_def epm_byte_def epm_def)
  note r1 = same_core_regions [OF c1 sm_invD(1) [OF inv]]
  show ?thesis
  proof (cases "r = 0")
    case False
    then show ?thesis using cr inv1 m1 keeps_enclaves_regions [OF r1] by (auto simp: sbi_sm_create_enclave_def cp keeps_private_def)
  next
    case True
    then have ce: "create_enclave env out (create_args_at (memory s1) (frame env)) s1 = Some (ret, out', s')"
      using cr by (simp add: sbi_sm_create_enclave_def cp)
    from create_enclave_cases [OF inv1 env_okD(2) [OF env] ce] show ?thesis
    proof (elim disjE conjE exE)
      assume "sm_inv H s'" "memory s' = memory s1" "keeps_enclaves {} s1 s'" "live s' = live s1"
      then show ?thesis using m1 r1 by (simp add: keeps_private_def keeps_enclaves_def same_regions_def)
    next
      fix i k u assume c: "created H (create_args_at (memory s1) (frame env)) i k u s1 s'"
      have "sm_inv H s'" using created_inv [OF inv1 c] low created_epm [OF inv1 c] by (auto simp: epm_low_def)
      moreover have "memory s' a = memory s a" if "live s i" "epm_byte s i a" for i a
        using created_private [OF inv1 c same(1) [OF that(1)], of a] same(2) [OF that(1)] m1 [OF that] that(2) by simp
      moreover have "keeps_enclaves {} s s'"
        using created_keeps [OF inv1 c, of "{}"] r1 by (simp add: keeps_enclaves_def same_regions_def)
      ultimately show ?thesis by (simp add: keeps_private_def)
    qed
  qed
qed

lemma destroy_call:
  assumes inv: "sm_inv H s" and ipi: "H \<subseteq> set (ipi_harts env)" and de: "destroy_enclave env eid s = Some (ret, s')"
  shows "sm_inv H s' \<and> keeps_private h {unat eid} s s' \<and> keeps_enclaves {unat eid} s s'"
  using destroy_enclave_cases [OF inv ipi, of eid] de destroyed_inv [OF inv] destroyed_private [OF inv] destroyed_keeps [OF inv] inv
  by (auto simp: keeps_private_def keeps_enclaves_regions split: if_splits)

text \<open>The calls that switch context.\<close>

lemma switch_calls:
  assumes inv: "sm_inv H s" and h: "mhartid env \<in> H"
  shows "\<not> is_enclave (cpus s (mhartid env)) \<Longrightarrow> sbi_sm_run_enclave env regs eid s = Some (regs', s') \<Longrightarrow>
      sm_inv H s' \<and> memory s' = memory s \<and> same_regions s s'"
    and "\<not> is_enclave (cpus s (mhartid env)) \<Longrightarrow> sbi_sm_resume_enclave env regs eid s = Some (regs', s') \<Longrightarrow>
      sm_inv H s' \<and> memory s' = memory s \<and> same_regions s s'"
    and "is_enclave (cpus s (mhartid env)) \<Longrightarrow> sbi_sm_exit_enclave env regs retval s = Some (regs', s') \<Longrightarrow>
      sm_inv H s' \<and> memory s' = memory s \<and> same_regions s s'"
    and "is_enclave (cpus s (mhartid env)) \<Longrightarrow> sbi_sm_stop_enclave env regs request s = Some (regs', s') \<Longrightarrow>
      sm_inv H s' \<and> memory s' = memory s \<and> same_regions s s'"
proof -
  assume n: "\<not> is_enclave (cpus s (mhartid env))"
  show "sbi_sm_run_enclave env regs eid s = Some (regs', s') \<Longrightarrow> sm_inv H s' \<and> memory s' = memory s \<and> same_regions s s'"
    using run_enclave_cases [OF inv h n, of "ucast eid" regs] inv
    by (auto simp: sbi_sm_run_enclave_def entered_def split: if_splits)
  show "sbi_sm_resume_enclave env regs eid s = Some (regs', s') \<Longrightarrow> sm_inv H s' \<and> memory s' = memory s \<and> same_regions s s'"
    using resume_enclave_cases [OF inv h n, of "ucast eid" regs] inv
    by (auto simp: sbi_sm_resume_enclave_def entered_def split: if_splits)
next
  assume r: "is_enclave (cpus s (mhartid env))"
  let ?e = "cpu_get_enclave_id (mhartid env) (cpus s)"
  have e: "runs s (mhartid env) (unat ?e)" using r by (simp add: runs_def cpu_get_enclave_id_def)
  show "sbi_sm_exit_enclave env regs retval s = Some (regs', s') \<Longrightarrow> sm_inv H s' \<and> memory s' = memory s \<and> same_regions s s'"
    using exit_enclave_running [OF inv h e, of regs] by (auto simp: sbi_sm_exit_enclave_def left_def)
  show "sbi_sm_stop_enclave env regs request s = Some (regs', s') \<Longrightarrow> sm_inv H s' \<and> memory s' = memory s \<and> same_regions s s'"
    using stop_enclave_running [OF inv h e, of regs request] by (auto simp: sbi_sm_stop_enclave_def left_def)
qed

text \<open>The guards of the handler: what a call can do is decided by its number and the context it comes from.\<close>

lemma handler_dispatch:
  assumes "sbi_ecall_keystone_enclave_handler env funcid regs out s = Some (r, s')"
  obtains (none) "s' = s"
    | (create) ret out' where "\<not> is_enclave (cpus s (mhartid env))" "sbi_sm_create_enclave env out (gprs regs ! REG_A0) s = Some (ret, out', s')"
    | (destroy) ret where "funcid = SBI_SM_DESTROY_ENCLAVE" "\<not> is_enclave (cpus s (mhartid env))"
        "destroy_enclave env (ucast (gprs regs ! REG_A0)) s = Some (ret, s')"
    | (run) regs' where "\<not> is_enclave (cpus s (mhartid env))" "sbi_sm_run_enclave env regs (gprs regs ! REG_A0) s = Some (regs', s')"
    | (resume) regs' where "\<not> is_enclave (cpus s (mhartid env))" "sbi_sm_resume_enclave env regs (gprs regs ! REG_A0) s = Some (regs', s')"
    | (random) "s' = snd (sbi_sm_random env s)"
    | (attest) "is_enclave (cpus s (mhartid env))"
        "s' = snd (sbi_sm_attest_enclave env (gprs regs ! REG_A0) (gprs regs ! REG_A1) (gprs regs ! REG_A2) s)"
    | (sealing) ret where "funcid = SBI_SM_GET_SEALING_KEY" "is_enclave (cpus s (mhartid env))"
        "sbi_sm_get_sealing_key env (gprs regs ! REG_A0) (gprs regs ! REG_A1) (gprs regs ! REG_A2) s = Some (ret, s')"
    | (stop) regs' where "is_enclave (cpus s (mhartid env))" "sbi_sm_stop_enclave env regs (gprs regs ! REG_A0) s = Some (regs', s')"
    | (exit) regs' where "is_enclave (cpus s (mhartid env))" "sbi_sm_exit_enclave env regs (gprs regs ! REG_A0) s = Some (regs', s')"
    | (plugin) "s' = snd (sbi_sm_call_plugin env (gprs regs ! REG_A0) (gprs regs ! REG_A1) (gprs regs ! REG_A2) (gprs regs ! REG_A3) s)"
proof -
  let ?e = "is_enclave (cpus s (mhartid env))"
  note H = assms [unfolded sbi_ecall_keystone_enclave_handler_def Let_def cpu_is_enclave_context_def]
  show ?thesis
  proof (cases "funcid \<le> FID_RANGE_DEPRECATED \<or> funcid \<le> FID_RANGE_HOST \<and> ?e \<or>
      FID_RANGE_HOST < funcid \<and> funcid \<le> FID_RANGE_ENCLAVE \<and> \<not> ?e")
    case True
    then show ?thesis using H by (intro none) (auto split: if_splits)
  next
    case False
    consider "funcid = SBI_SM_CREATE_ENCLAVE" | "funcid = SBI_SM_DESTROY_ENCLAVE" | "funcid = SBI_SM_RUN_ENCLAVE"
      | "funcid = SBI_SM_RESUME_ENCLAVE" | "funcid = SBI_SM_RANDOM" | "funcid = SBI_SM_ATTEST_ENCLAVE"
      | "funcid = SBI_SM_GET_SEALING_KEY" | "funcid = SBI_SM_STOP_ENCLAVE" | "funcid = SBI_SM_EXIT_ENCLAVE"
      | "funcid = SBI_SM_CALL_PLUGIN"
      | (other) "funcid \<noteq> SBI_SM_CREATE_ENCLAVE" "funcid \<noteq> SBI_SM_DESTROY_ENCLAVE" "funcid \<noteq> SBI_SM_RUN_ENCLAVE"
          "funcid \<noteq> SBI_SM_RESUME_ENCLAVE" "funcid \<noteq> SBI_SM_RANDOM" "funcid \<noteq> SBI_SM_ATTEST_ENCLAVE"
          "funcid \<noteq> SBI_SM_GET_SEALING_KEY" "funcid \<noteq> SBI_SM_STOP_ENCLAVE" "funcid \<noteq> SBI_SM_EXIT_ENCLAVE" "funcid \<noteq> SBI_SM_CALL_PLUGIN"
      by blast
    then show ?thesis
    proof cases
      case 1
      then show ?thesis using H False by (auto simp: err_codes intro: create)
    next
      case 2
      then show ?thesis using H False by (auto simp: err_codes sbi_sm_destroy_enclave_def intro: destroy)
    next
      case 3
      then show ?thesis using H False by (auto simp: err_codes intro: run)
    next
      case 4
      then show ?thesis using H False by (auto simp: err_codes intro: resume)
    next
      case 5
      then show ?thesis using H False by (intro random) (auto simp: err_codes case_prod_unfold)
    next
      case 6
      then show ?thesis using H False by (intro attest) (auto simp: err_codes case_prod_unfold)
    next
      case 7
      then show ?thesis using H False by (auto simp: err_codes intro: sealing)
    next
      case 8
      then show ?thesis using H False by (auto simp: err_codes intro: stop)
    next
      case 9
      then show ?thesis using H False by (auto simp: err_codes intro: exit)
    next
      case 10
      then show ?thesis using H False by (intro plugin) (auto simp: err_codes case_prod_unfold)
    next
      case other
      then show ?thesis using H False by (intro none) auto
    qed
  qed
qed

lemma handler_step:
  assumes inv: "sm_inv H s" and env: "env_ok H s env"
    and hd: "sbi_ecall_keystone_enclave_handler env funcid regs out s = Some (r, s')" and low: "epm_low s'"
  shows "sm_inv H s'"
    and "keeps_enclaves (if funcid = SBI_SM_DESTROY_ENCLAVE then {unat (ucast (gprs regs ! REG_A0) :: enclave_id)} else {}) s s'"
    and "funcid \<noteq> SBI_SM_GET_SEALING_KEY \<Longrightarrow>
      keeps_private (mhartid env) (if funcid = SBI_SM_DESTROY_ENCLAVE then {unat (ucast (gprs regs ! REG_A0) :: enclave_id)} else {}) s s'"
proof -
  note h = env_okD(1) [OF env] and same = same_core_inv [OF inv]
  have fr: "keeps_private (mhartid env) D s s'" if "\<And>i a. live s i \<Longrightarrow> epm_byte s i a \<Longrightarrow> \<not> runs s (mhartid env) i \<Longrightarrow> memory s' a = memory s a" for D
    using that by (simp add: keeps_private_def)
  have sw: "sm_inv H s' \<and> keeps_private (mhartid env) D s s'" if "sm_inv H s' \<and> memory s' = memory s" for D
    using that by (simp add: keeps_private_def)
  show "sm_inv H s'"
    using hd
  proof (cases rule: handler_dispatch)
    case none then show ?thesis using inv by simp
  next
    case create then show ?thesis using create_call [OF inv env _ low] by blast
  next
    case destroy then show ?thesis using destroy_call [OF inv env_okD(2) [OF env]] by blast
  next
    case run then show ?thesis using switch_calls(1) [OF inv h] by blast
  next
    case resume then show ?thesis using switch_calls(2) [OF inv h] by blast
  next
    case random then show ?thesis by (simp add: same sbi_sm_random_def case_prod_unfold Let_def)
  next
    case attest then show ?thesis by (simp add: same sbi_sm_attest_enclave_def attest_core)
  next
    case sealing then show ?thesis using same sealing_core by (simp add: sbi_sm_get_sealing_key_def)
  next
    case stop then show ?thesis using switch_calls(4) [OF inv h] by blast
  next
    case exit then show ?thesis using switch_calls(3) [OF inv h] by blast
  next
    case plugin then show ?thesis by (simp add: same sbi_sm_call_plugin_def plugin_core)
  qed
  let ?D = "if funcid = SBI_SM_DESTROY_ENCLAVE then {unat (ucast (gprs regs ! REG_A0) :: enclave_id)} else {}"
  have rg: "same_core s t \<Longrightarrow> keeps_enclaves D s t" for t D
    using keeps_enclaves_regions [OF same_core_regions [OF _ sm_invD(1) [OF inv]]] .
  show "keeps_enclaves ?D s s'"
    using hd
  proof (cases rule: handler_dispatch)
    case none then show ?thesis by (simp add: rg)
  next
    case create then show ?thesis using create_call [OF inv env _ low] by (auto simp: keeps_enclaves_def)
  next
    case destroy then show ?thesis using destroy_call [OF inv env_okD(2) [OF env]] by simp
  next
    case run then show ?thesis using switch_calls(1) [OF inv h] keeps_enclaves_regions by blast
  next
    case resume then show ?thesis using switch_calls(2) [OF inv h] keeps_enclaves_regions by blast
  next
    case random then show ?thesis by (simp add: rg sbi_sm_random_def case_prod_unfold Let_def)
  next
    case attest then show ?thesis by (simp add: rg sbi_sm_attest_enclave_def attest_core)
  next
    case sealing then show ?thesis using rg sealing_core by (simp add: sbi_sm_get_sealing_key_def)
  next
    case stop then show ?thesis using switch_calls(4) [OF inv h] keeps_enclaves_regions by blast
  next
    case exit then show ?thesis using switch_calls(3) [OF inv h] keeps_enclaves_regions by blast
  next
    case plugin then show ?thesis by (simp add: rg sbi_sm_call_plugin_def plugin_core)
  qed
  assume ns: "funcid \<noteq> SBI_SM_GET_SEALING_KEY"
  show "keeps_private (mhartid env) ?D s s'"
    using hd
  proof (cases rule: handler_dispatch)
    case none then show ?thesis by (simp add: keeps_private_same)
  next
    case create then show ?thesis using create_call [OF inv env _ low] by (intro fr) (auto simp: keeps_private_def)
  next
    case destroy then show ?thesis using destroy_call [OF inv env_okD(2) [OF env]] by simp
  next
    case run then show ?thesis using switch_calls(1) [OF inv h] sw by blast
  next
    case resume then show ?thesis using switch_calls(2) [OF inv h] sw by blast
  next
    case random then show ?thesis by (simp add: keeps_private_same sbi_sm_random_def case_prod_unfold Let_def)
  next
    case attest then show ?thesis using attest_frame [OF inv env] by (intro fr) (simp add: sbi_sm_attest_enclave_def)
  next
    case sealing then show ?thesis using ns by simp
  next
    case stop then show ?thesis using switch_calls(4) [OF inv h] sw by blast
  next
    case exit then show ?thesis using switch_calls(3) [OF inv h] sw by blast
  next
    case plugin then show ?thesis using plugin_frame [OF inv env] by (intro fr) (simp add: sbi_sm_call_plugin_def)
  qed
qed

section \<open>The machine as a transition system\<close>

text \<open>
  An event names the hart it happens on; a call also its number and first argument. Software on a
  hart changes nothing the monitor owns and stores where the PMP registers of its hart allow it. The exception
  handlers of OpenSBI, the parameter \<open>exc\<close> of the trap handler, act for the software on the hart and may
  also change the memory that the firmware shares with the monitor.
\<close>

datatype sm_event = ecall nat u64 enclave_id | trap nat | software nat

fun event_hart :: "sm_event \<Rightarrow> nat" where
  "event_hart (ecall h f e) = h"
| "event_hart (trap h) = h"
| "event_hart (software h) = h"

text \<open>The enclaves whose memory an event may clear; a call for a sealing key may write anywhere.\<close>

fun event_targets :: "sm_event \<Rightarrow> nat set" where
  "event_targets (ecall h f e) =
     (if f = SBI_SM_DESTROY_ENCLAVE then {unat e} else if f = SBI_SM_GET_SEALING_KEY then UNIV else {})"
| "event_targets _ = {}"

definition software_step :: "nat \<Rightarrow> sm_state \<Rightarrow> sm_state \<Rightarrow> bool" where
  "software_step h s s' \<longleftrightarrow> same_core s s' \<and>
     (\<forall>a. memory s' a \<noteq> memory s a \<longrightarrow> pmp_allows (h_pmp (harts s h)) a PMP_W)"

definition exception_step :: "nat \<Rightarrow> sm_state \<Rightarrow> sm_state \<Rightarrow> bool" where
  "exception_step h s s' \<longleftrightarrow> same_core s s' \<and>
     (\<forall>a. memory s' a \<noteq> memory s a \<longrightarrow> pmp_allows (h_pmp (harts s h)) a PMP_W \<or>
        unat SMM_BASE \<le> unat a \<and> unat a < unat SMM_BASE + unat SMM_SIZE)"

text \<open>
  \<open>sealing_ok\<close>: the buffer for a sealing key is not in the monitor's memory. \<open>get_sealing_key\<close> does
  not check this, and such a call would overwrite the globals that are the other fields of the state.
\<close>

definition sealing_ok :: "u64 \<Rightarrow> sbi_trap_regs \<Rightarrow> bool" where
  "sealing_ok funcid regs \<longleftrightarrow> (funcid = SBI_SM_GET_SEALING_KEY \<longrightarrow>
     (\<forall>i<192. let a = gprs regs ! REG_A0 + of_nat i
        in \<not> (unat SMM_BASE \<le> unat a \<and> unat a < unat SMM_BASE + unat SMM_SIZE)))"

lemma sealing_okI: "funcid \<noteq> SBI_SM_GET_SEALING_KEY \<Longrightarrow> sealing_ok funcid regs"
  by (simp add: sealing_ok_def)

inductive sm_step :: "nat set \<Rightarrow> sm_event \<Rightarrow> sm_state \<Rightarrow> sm_state \<Rightarrow> bool" for H where
  step_ecall: "env_ok H s env \<Longrightarrow> sbi_ecall_keystone_enclave_handler env funcid regs out s = Some (r, s') \<Longrightarrow> epm_low s' \<Longrightarrow>
     sealing_ok funcid regs \<Longrightarrow> sm_step H (ecall (mhartid env) funcid (ucast (gprs regs ! REG_A0))) s s'"
| step_trap: "env_ok H s env \<Longrightarrow> is_enclave (cpus s (mhartid env)) \<Longrightarrow>
     (\<And>c x. exception_step (mhartid env) s (snd (snd (exc c x s)))) \<Longrightarrow>
     sbi_trap_handler_keystone_enclave exc env mcause regs s = Some (regs', s') \<Longrightarrow> sm_step H (trap (mhartid env)) s s'"
| step_software: "h \<in> H \<Longrightarrow> software_step h s s' \<Longrightarrow> sm_step H (software h) s s'"

inductive_cases sm_step_ecallE: "sm_step H (ecall h f e) s s'"
inductive_cases sm_step_trapE: "sm_step H (trap h) s s'"
inductive_cases sm_step_softwareE: "sm_step H (software h) s s'"

lemma exception_inv:
  assumes "sm_inv H s" and "h \<in> H" and "exception_step h s s'"
  shows "sm_inv H s'" and "keeps_private h D s s'" and "keeps_enclaves D s s'" and "cpus s' = cpus s"
proof -
  show "keeps_enclaves D s s'"
    using keeps_enclaves_regions [OF same_core_regions [OF _ sm_invD(1) [OF assms(1)]]] assms(3) by (simp add: exception_step_def)
  show "sm_inv H s'" "cpus s' = cpus s" using same_core_inv [OF assms(1)] assms(3) by (simp_all add: exception_step_def same_core_def)
  have "memory s' a = memory s a" if "live s i" "\<not> runs s h i" "epm_byte s i a" for i a
    using epm_no_access [OF assms(1,2) that(1,2) _ perm_bits(1,2), of a] epm_byte_not_sm [OF assms(1) that(1,3)] that(3) assms(3)
    by (auto simp: exception_step_def epm_byte_def)
  then show "keeps_private h D s s'" by (simp add: keeps_private_def)
qed

lemma software_exception: "software_step h s s' \<Longrightarrow> exception_step h s s'"
  by (auto simp: software_step_def exception_step_def)

lemma trap_step:
  assumes inv: "sm_inv H s" and h: "mhartid env \<in> H" and e: "is_enclave (cpus s (mhartid env))"
    and exc: "\<And>c x. exception_step (mhartid env) s (snd (snd (exc c x s)))"
    and t: "sbi_trap_handler_keystone_enclave exc env mcause regs s = Some (regs', s')"
  shows "sm_inv H s'" and "keeps_private (mhartid env) D s s'" and "keeps_enclaves D s s'"
proof -
  note sw = switch_calls(3,4) [OF inv h e]
  have "sm_inv H s' \<and> keeps_private (mhartid env) D s s' \<and> keeps_enclaves D s s'"
  proof (cases "bit mcause 63")
    case True
    then have "sm_inv H s' \<and> memory s' = memory s \<and> same_regions s s'"
      using t sw by (auto simp: sbi_trap_handler_keystone_enclave_def sbi_trap_error_def Let_def split: if_splits)
    then show ?thesis by (simp add: keeps_private_def keeps_enclaves_regions)
  next
    case False
    obtain rc r1 s1 where ex: "exc mcause regs s = (rc, r1, s1)" by (metis prod_cases3)
    have x: "exception_step (mhartid env) s s1" using exc [of mcause regs] by (simp add: ex)
    note X = exception_inv [OF inv h x]
    have "s' = s1 \<or> sm_inv H s' \<and> memory s' = memory s1 \<and> same_regions s1 s'"
      using t False switch_calls(3) [OF X(1) h] e X(4)
      by (auto simp: sbi_trap_handler_keystone_enclave_def sbi_trap_error_def ex split: if_splits)
    then show ?thesis using X(1) X(2,3) [of D] by (auto simp: keeps_private_def keeps_enclaves_def same_regions_def)
  qed
  then show "sm_inv H s'" "keeps_private (mhartid env) D s s'" "keeps_enclaves D s s'" by simp_all
qed

lemma step_inv:
  assumes "sm_step H ev s s'" and "sm_inv H s"
  shows "sm_inv H s'" and "keeps_private (event_hart ev) (event_targets ev) s s'"
    and "keeps_enclaves (event_targets ev) s s'"
proof -
  have "sm_inv H s' \<and> keeps_private (event_hart ev) (event_targets ev) s s' \<and> keeps_enclaves (event_targets ev) s s'"
    using assms
  proof (cases rule: sm_step.cases)
    case (step_ecall env funcid regs out r)
    then show ?thesis using handler_step [OF assms(2) step_ecall(2,3,4)] by (auto simp: keeps_private_def keeps_enclaves_def err_codes)
  next
    case (step_trap env exc mcause regs regs')
    note T = trap_step [OF assms(2) env_okD(1) [OF step_trap(2)] step_trap(3,4,5)]
    show ?thesis using T by (simp add: step_trap(1))
  next
    case (step_software h)
    then show ?thesis using exception_inv [OF assms(2) _ software_exception] by simp
  qed
  then show "sm_inv H s'" "keeps_private (event_hart ev) (event_targets ev) s s'" "keeps_enclaves (event_targets ev) s s'" by simp_all
qed

section \<open>Boot\<close>

text \<open>
  The state at reset: the globals are zero, and the PMP configuration registers of every hart are
  off. \<open>boot\<close> runs \<open>sm_init\<close> on one hart with a cold boot and then on the others.
\<close>

definition reset_state :: "nat set \<Rightarrow> sm_state \<Rightarrow> bool" where
  "reset_state H s \<longleftrightarrow>
     pmp s = pmp_state_zero \<and> length (enclaves s) = ENCL_MAX \<and>
     (\<forall>e\<in>set (enclaves s). length (e_regions e) = ENCLAVE_REGIONS_MAX) \<and>
     (\<forall>h\<in>H. \<not> is_enclave (cpus s h) \<and> pmpcfg (h_pmp (harts s h)) 0 = 0)"

fun boot_warm :: "sanctum_rom \<Rightarrow> sm_env \<Rightarrow> nat list \<Rightarrow> sm_state \<Rightarrow> sm_state option" where
  "boot_warm rom env [] s = Some s"
| "boot_warm rom env (h # hs) s = do {
     s \<leftarrow> sm_init rom (env\<lparr>mhartid := h\<rparr>) False s;
     boot_warm rom env hs s }"

definition boot :: "sanctum_rom \<Rightarrow> sm_env \<Rightarrow> nat list \<Rightarrow> sm_state \<Rightarrow> sm_state option" where
  "boot rom env hs s = do {
     s \<leftarrow> sm_init rom env True s;
     boot_warm rom env hs s }"

lemma pmp_init_off:
  assumes "pmpcfg c 0 = 0" and "n < 8"
  shows "snd (pmp_entry (pmp_init c) n) = 0"
proof -
  have "pmpcfg (pmp_init c) 0 = 0"
    using assms(1) by (simp add: pmp_init_def PMP_N_REG_def LIST_OF_PMP_REGS_def PMP_SET_def Let_def upt_rec)
  then show ?thesis by (simp add: pmp_entry_def)
qed

lemma smm_init_reset: "smm_init pmp_state_zero = Some (0, smm_regions)"
  using boot_sm_region by (simp add: smm_init_def err_codes)

lemma osm_init_reset: "osm_init smm_regions = Some (1, boot_regions)"
  using boot_os_region by (simp add: osm_init_def err_codes)

text \<open>The harts in \<open>B\<close> have booted.\<close>

definition booted :: "nat set \<Rightarrow> sm_state \<Rightarrow> bool" where
  "booted B s \<longleftrightarrow>
     pmp s = boot_regions \<and> sm_region_id s = 0 \<and> os_region_id s = 1 \<and> sm_init_done s \<and> length (enclaves s) = 16 \<and>
     (\<forall>e\<in>set (enclaves s). e_state e = INVALID \<and> length (e_regions e) = 8 \<and> (\<forall>r\<in>set (e_regions e). er_type r = REGION_INVALID)) \<and>
     (\<forall>h\<in>B. \<not> is_enclave (cpus s h) \<and> hart_pmp boot_regions (h_pmp (harts s h)) [0 \<mapsto> PMP_NO_PERM, 1 \<mapsto> PMP_ALL_PERM])"

lemma booted_inv:
  assumes b: "booted B s"
  shows "sm_inv B s"
proof -
  have nl: "\<not> live s i" for i using b by (auto simp: booted_def live_def)
  have "view s h = [0 \<mapsto> PMP_NO_PERM, 1 \<mapsto> PMP_ALL_PERM]" if "h \<in> B" for h
    using b that by (auto simp: booted_def view_def nl fun_eq_iff)
  moreover have "system_ok s"
    unfolding system_ok_def
    by (rule exI [of _ 0], rule exI [of _ 1])
      (use b boot_regions_simps in \<open>simp add: booted_def sm_region_def os_region_def\<close>)
  moreover have "cpus_ok B s" using b by (auto simp: cpus_ok_def booted_def runs_def)
  ultimately show ?thesis
    using b boot_regions_wf(2) by (auto simp: sm_inv_def booted_def encl_ok_def ids_ok_def nl)
qed

lemma upd_hart_init_done [simp]: "sm_init_done (upd_hart h f s) = sm_init_done s"
  by (simp add: upd_hart_def)

lemma sm_init_warm:
  assumes b: "booted B s" and h: "\<not> is_enclave (cpus s (mhartid env))" "pmpcfg (h_pmp (harts s (mhartid env))) 0 = 0"
  shows "\<exists>s'. sm_init rom env False s = Some s' \<and> booted (insert (mhartid env) B) s' \<and> cpus s' = cpus s \<and>
    (\<forall>g. g \<noteq> mhartid env \<longrightarrow> harts s' g = harts s g)"
proof -
  let ?h = "mhartid env" and ?p = boot_regions
  define s1 where "s1 = upd_hart ?h (\<lambda>h. h\<lparr>h_pmp := pmp_init (h_pmp h)\<rparr>) s"
  have p1: "pmp s1 = ?p" "sm_region_id s1 = int 0" "os_region_id s1 = int 1" using b by (simp_all add: s1_def booted_def)
  have off: "hart_pmp ?p (h_pmp (harts s1 ?h)) (\<lambda>_. None)"
    using pmp_init_off [OF h(2)] by (intro hart_pmp_off) (simp add: s1_def)
  obtain c where c: "local_pmp_set env (int 0) PMP_NO_PERM s1 = Some (SBI_ERR_SM_PMP_SUCCESS, upd_hart ?h (\<lambda>h. h\<lparr>h_pmp := c\<rparr>) s1)"
      "hart_pmp ?p c (perm_set ?p 0 PMP_NO_PERM (\<lambda>_. None))"
    using local_pmp_set_valid [of s1 0 env PMP_NO_PERM] boot_regions_wf(2) boot_regions_simps(1) off by (auto simp: p1)
  define s2 where "s2 = upd_hart ?h (\<lambda>h. h\<lparr>h_pmp := c\<rparr>) s1"
  obtain d where d: "local_pmp_set env (int 1) PMP_ALL_PERM s2 = Some (SBI_ERR_SM_PMP_SUCCESS, upd_hart ?h (\<lambda>h. h\<lparr>h_pmp := d\<rparr>) s2)"
      "hart_pmp ?p d (perm_set ?p 1 PMP_ALL_PERM (perm_set ?p 0 PMP_NO_PERM (\<lambda>_. None)))"
    using local_pmp_set_valid [of s2 1 env PMP_ALL_PERM] boot_regions_wf(2) boot_regions_simps(2) c(2)
    by (auto simp: s2_def p1)
  have "perm_set ?p 1 PMP_ALL_PERM (perm_set ?p 0 PMP_NO_PERM (\<lambda>_. None)) = [0 \<mapsto> PMP_NO_PERM, 1 \<mapsto> PMP_ALL_PERM]"
    using boot_regions_simps by (auto simp: perm_set_def perm_unset_def shares_reg_def fun_eq_iff)
  then have hp: "hart_pmp ?p d [0 \<mapsto> PMP_NO_PERM, 1 \<mapsto> PMP_ALL_PERM]" using d(2) by simp
  have "sm_init rom env False s = Some (upd_hart ?h (\<lambda>h. h\<lparr>h_pmp := d\<rparr>) s2)"
    using b c(1) d(1)
    by (simp add: sm_init_def Let_def s1_def [symmetric] p1 s2_def [symmetric] platform_init_global_def) (simp add: booted_def s2_def s1_def)
  then show ?thesis using b h(1) hp by (auto simp: booted_def s2_def s1_def)
qed

lemma sm_init_cold:
  assumes r: "reset_state H s" and h: "mhartid env \<in> H"
  shows "\<exists>s'. sm_init rom env True s = Some s' \<and> booted {mhartid env} s' \<and> cpus s' = cpus s \<and>
    (\<forall>g. g \<noteq> mhartid env \<longrightarrow> harts s' g = harts s g)"
proof -
  define s1 where "s1 = (enclave_init_metadata (sm_copy_key rom (s\<lparr>pmp := boot_regions, sm_region_id := 0, os_region_id := 1\<rparr>)))
    \<lparr>sm_init_done := True\<rparr>"
  have "sm_cold_init rom s = Some s1"
    using r smm_init_reset osm_init_reset
    by (simp add: sm_cold_init_def reset_state_def s1_def platform_init_global_once_def Let_def)
  then have "sm_init rom env True s = sm_init rom env False s1" by (simp add: sm_init_def)
  moreover have "booted {} s1"
    using r by (auto simp: booted_def s1_def enclave_init_metadata_def sm_copy_key_def platform_init_enclave_def
        clear_regions_def reset_state_def cfg_defs)
  then have "\<exists>s'. sm_init rom env False s1 = Some s' \<and> booted {mhartid env} s' \<and> cpus s' = cpus s1 \<and>
      (\<forall>g. g \<noteq> mhartid env \<longrightarrow> harts s' g = harts s1 g)"
    using r h by (intro sm_init_warm) (simp_all add: s1_def enclave_init_metadata_def sm_copy_key_def reset_state_def)
  ultimately show ?thesis by (simp add: s1_def enclave_init_metadata_def sm_copy_key_def)
qed

lemma boot_warm_booted:
  assumes "booted B s" and "distinct hs" and "set hs \<inter> B = {}"
    and "\<forall>h\<in>set hs. \<not> is_enclave (cpus s h) \<and> pmpcfg (h_pmp (harts s h)) 0 = 0"
  shows "\<exists>s'. boot_warm rom env hs s = Some s' \<and> booted (set hs \<union> B) s'"
  using assms
proof (induction hs arbitrary: s B)
  case (Cons h hs)
  obtain s1 where s1: "sm_init rom (env\<lparr>mhartid := h\<rparr>) False s = Some s1" "booted (insert h B) s1" "cpus s1 = cpus s"
      "\<forall>g. g \<noteq> h \<longrightarrow> harts s1 g = harts s g"
    using sm_init_warm [OF Cons.prems(1), of "env\<lparr>mhartid := h\<rparr>" rom] Cons.prems(4) by auto
  have "\<forall>g\<in>set hs. \<not> is_enclave (cpus s1 g) \<and> pmpcfg (h_pmp (harts s1 g)) 0 = 0"
    using s1(3,4) Cons.prems(2,4) by auto
  then show ?case using Cons.IH [OF s1(2)] Cons.prems(2,3) s1(1) by auto
qed simp

lemma boot_booted:
  assumes r: "reset_state (set (mhartid env # hs)) s" and d: "distinct (mhartid env # hs)"
  shows "\<exists>s'. boot rom env hs s = Some s' \<and> booted (set (mhartid env # hs)) s'"
proof -
  obtain s1 where s1: "sm_init rom env True s = Some s1" "booted {mhartid env} s1" "cpus s1 = cpus s"
      "\<forall>g. g \<noteq> mhartid env \<longrightarrow> harts s1 g = harts s g"
    using sm_init_cold [OF r, of env rom] by auto
  have "\<forall>h\<in>set hs. \<not> is_enclave (cpus s1 h) \<and> pmpcfg (h_pmp (harts s1 h)) 0 = 0"
  proof
    fix h assume h: "h \<in> set hs"
    then have "h \<noteq> mhartid env" using d by auto
    then show "\<not> is_enclave (cpus s1 h) \<and> pmpcfg (h_pmp (harts s1 h)) 0 = 0" using r s1(3,4) h by (simp add: reset_state_def)
  qed
  then show ?thesis using boot_warm_booted [OF s1(2), of hs rom env] d s1(1) by (auto simp: boot_def)
qed

section \<open>Reachable states\<close>

inductive reachable :: "nat set \<Rightarrow> sm_state \<Rightarrow> bool" for H where
  reach_boot: "reset_state H s0 \<Longrightarrow> H = set (mhartid env # hs) \<Longrightarrow> distinct (mhartid env # hs) \<Longrightarrow>
     boot rom env hs s0 = Some s \<Longrightarrow> reachable H s"
| reach_step: "reachable H s \<Longrightarrow> sm_step H ev s s' \<Longrightarrow> reachable H s'"

interpretation monitor: state_invariant "sm_step H" "sm_inv H" for H
  by unfold_locales (rule step_inv(1))

lemma reachable_steps:
  assumes "reachable H s"
  shows "\<exists>s1. booted H s1 \<and> steps_of (sm_step H) s1 s"
  using assms
proof induction
  case (reach_boot s0 env hs rom s)
  then show ?case using boot_booted [of env hs s0 rom] by (auto intro: steps_refl)
next
  case (reach_step s ev s')
  then show ?case using steps_step by metis
qed

lemma reachable_sm_inv:
  assumes "reachable H s"
  shows "sm_inv H s"
  using reachable_steps [OF assms] booted_inv monitor.steps_keep by blast

text \<open>A run during which enclave \<open>i\<close> never executes, is not destroyed, and no sealing key is requested.\<close>

inductive idle_run :: "nat set \<Rightarrow> nat \<Rightarrow> sm_state \<Rightarrow> sm_state \<Rightarrow> bool" for H i where
  idle_refl: "idle_run H i s s"
| idle_step: "idle_run H i s t \<Longrightarrow> sm_step H ev t s' \<Longrightarrow> \<not> runs t (event_hart ev) i \<Longrightarrow> i \<notin> event_targets ev \<Longrightarrow> idle_run H i s s'"

lemma idle_run_keeps:
  assumes "idle_run H i s s'" and "sm_inv H s" and "live s i"
  shows "sm_inv H s'" and "live s' i" and "epm_byte s' i a = epm_byte s i a" and "epm_byte s i a \<Longrightarrow> memory s' a = memory s a"
proof -
  have "sm_inv H s' \<and> live s' i \<and> (\<forall>a. epm_byte s' i a = epm_byte s i a) \<and> (\<forall>a. epm_byte s i a \<longrightarrow> memory s' a = memory s a)"
    using assms
  proof induction
    case idle_refl
    then show ?case by simp
  next
    case (idle_step s t ev s')
    note T = step_inv [OF idle_step(2)]
    have t: "sm_inv H t" "live t i" using idle_step by blast+
    have "epm_byte s' i a = epm_byte t i a" for a
      using T(3) [OF t(1)] t(2) idle_step(4) by (simp add: keeps_enclaves_def epm_byte_def)
    moreover have "memory s' a = memory t a" if "epm_byte t i a" for a
      using T(2) [OF t(1)] t(2) idle_step(3,4) that by (auto simp: keeps_private_def)
    moreover have "live s' i" using T(3) [OF t(1)] t(2) idle_step(4) by (simp add: keeps_enclaves_def)
    ultimately show ?case using idle_step T(1) [OF t(1)] by auto
  qed
  then show "sm_inv H s'" "live s' i" "epm_byte s' i a = epm_byte s i a" "epm_byte s i a \<Longrightarrow> memory s' a = memory s a" by simp_all
qed

end
