(* ===== verification/Report.thy ===== *)
theory Report
  imports Enclave
begin

text \<open>
  What an enclave gets from the monitor: the attestation report of \<open>attest_enclave\<close>, byte by byte
  in the layout of \<open>struct report\<close>, and the key of \<open>get_sealing_key\<close>.
\<close>

section \<open>Parts of a buffer\<close>

lemma mem_read_slice:
  assumes "j + n \<le> length bs" and "length bs < 2 ^ 64"
  shows "mem_read (mem_write a bs m) (a + of_nat j) n = take n (drop j bs)"
proof (rule nth_equalityI)
  fix i assume "i < length (mem_read (mem_write a bs m) (a + of_nat j) n)"
  then have i: "i < n" by simp
  have "unat (a + of_nat j + of_nat i - a) = j + i"
  proof -
    have e: "a + of_nat j + of_nat i - a = of_nat (j + i)" by simp
    show ?thesis unfolding e using assms i by (simp add: unsigned_of_nat take_bit_nat_eq_self del: of_nat_add)
  qed
  then show "mem_read (mem_write a bs m) (a + of_nat j) n ! i = take n (drop j bs) ! i"
    using i assms by (simp add: mem_write_apply)
qed (use assms in simp)

text \<open>Writing as many bytes as a part of a buffer has replaces this part.\<close>

lemma mem_read_splice:
  assumes r: "mem_read m a (length xs + length ys + length zs) = xs @ ys @ zs" and l: "length bs = length ys"
    and n: "length xs + length ys + length zs < 2 ^ 64"
  shows "mem_read (mem_write (a + of_nat (length xs)) bs m) a (length xs + length ys + length zs) = xs @ bs @ zs"
proof (rule nth_equalityI)
  fix i assume "i < length (mem_read (mem_write (a + of_nat (length xs)) bs m) a (length xs + length ys + length zs))"
  then have i: "i < length xs + length ys + length zs" by simp
  have mi: "m (a + of_nat i) = (xs @ ys @ zs) ! i" using r i mem_read_nth [of i _ m a] by metis
  have off: "unat (a + of_nat i - (a + of_nat (length xs))) = i - length xs" if "length xs \<le> i"
  proof -
    have e: "a + of_nat i - (a + of_nat (length xs)) = of_nat (i - length xs)" using that by (simp add: of_nat_diff)
    show ?thesis unfolding e using i n by (simp add: unsigned_of_nat take_bit_nat_eq_self del: of_nat_diff)
  qed
  have low: "\<not> unat (a + of_nat i - (a + of_nat (length xs))) < length bs" if "i < length xs"
  proof -
    have e: "a + of_nat i - (a + of_nat (length xs)) = 0 - of_nat (length xs - i)" using that by (simp add: of_nat_diff)
    have u: "unat (of_nat (length xs - i) :: u64) = length xs - i"
      using n by (simp add: unsigned_of_nat take_bit_nat_eq_self del: of_nat_diff)
    show ?thesis unfolding e using u that n l by (subst unat_sub_if') simp
  qed
  show "mem_read (mem_write (a + of_nat (length xs)) bs m) a (length xs + length ys + length zs) ! i = (xs @ bs @ zs) ! i"
    using i n l mi off low by (cases "i < length xs") (auto simp: mem_write_apply nth_append)
qed (use l in simp)

lemma write_outside:
  assumes "\<not> unat (x - a) < n" and "j + length bs \<le> n" and "n < 2 ^ 64"
  shows "mem_write (a + of_nat j) bs m x = m x"
proof -
  have "\<not> unat (x - (a + of_nat j)) < length bs"
    using offset_shift [of x a j "length bs"] assms by linarith
  then show ?thesis using assms by (simp add: mem_write_apply)
qed

section \<open>The report\<close>

text \<open>The monitor's copy of its identity, and the enclave's measurement, have the lengths of their arrays.\<close>

definition keys_ok :: "sm_state \<Rightarrow> bool" where
  "keys_ok s \<longleftrightarrow> length (sm_hash s) = 64 \<and> length (sm_public_key s) = 32 \<and> length (sm_signature s) = 64 \<and>
     length (dev_public_key s) = 32"

definition report_bytes :: "sm_env \<Rightarrow> enclave_id \<Rightarrow> u64 \<Rightarrow> u8 list \<Rightarrow> sm_state \<Rightarrow> u8 list" where
  "report_bytes env eid sz data s =
     (let hash = e_hash (enclaves s ! unat eid)
      in hash @ word_bytes sz @ data @
         mem_read (memory s) (frame env + REPORT_DATA + of_nat (unat sz)) (ATTEST_DATA_MAXLEN - unat sz) @
         ed25519_sign env (hash @ word_bytes sz @ data) (sm_public_key s) (sm_private_key s) @
         sm_hash s @ sm_public_key s @ sm_signature s @ dev_public_key s)"

lemma fill_report_bytes:
  assumes r: "mem_read (memory s) (frame env) 1352 = A @ B @ D @ P @ S @ SH @ SP @ SG @ DP"
    and l: "length A = 64" "length B = 8" "length D = unat sz" "length P = 1024 - unat sz" "unat sz \<le> 1024" "length S = 64"
      "length SH = 64" "length SP = 32" "length SG = 64" "length DP = 32"
    and k: "keys_ok s" "length (e_hash (enclaves s ! unat eid)) = 64" "\<And>m p k. length (ed25519_sign env m p k) = 64"
  shows "mem_read (memory (fill_report env eid sz s)) (frame env) 1352 =
      (let hash = e_hash (enclaves s ! unat eid)
       in hash @ B @ D @ P @ ed25519_sign env (hash @ B @ D) (sm_public_key s) (sm_private_key s) @
          sm_hash s @ sm_public_key s @ sm_signature s @ dev_public_key s)"
    and "\<not> unat (x - frame env) < 1352 \<Longrightarrow> memory (fill_report env eid sz s) x = memory s x"
proof -
  let ?f = "frame env" and ?hash = "e_hash (enclaves s ! unat eid)"
  note lens = l k(2,3) k(1) [unfolded keys_ok_def]
  define m1 where "m1 = mem_write (?f + REPORT_DEV_PUBLIC_KEY) (dev_public_key s) (memory s)"
  define m2 where "m2 = mem_write (?f + REPORT_SM_HASH) (sm_hash s) m1"
  define m3 where "m3 = mem_write (?f + REPORT_SM_PUBLIC_KEY) (sm_public_key s) m2"
  define m4 where "m4 = mem_write (?f + REPORT_SM_SIGNATURE) (sm_signature s) m3"
  define m5 where "m5 = mem_write ?f ?hash m4"
  have r1: "mem_read m1 ?f 1352 = A @ B @ D @ P @ S @ SH @ SP @ SG @ dev_public_key s"
    using mem_read_splice [of "memory s" ?f "A @ B @ D @ P @ S @ SH @ SP @ SG" DP "[]" "dev_public_key s"] r lens
    by (simp add: m1_def REPORT_DEV_PUBLIC_KEY_def)
  have r2: "mem_read m2 ?f 1352 = A @ B @ D @ P @ S @ sm_hash s @ SP @ SG @ dev_public_key s"
    using mem_read_splice [of m1 ?f "A @ B @ D @ P @ S" SH "SP @ SG @ dev_public_key s" "sm_hash s"] r1 lens
    by (simp add: m2_def REPORT_SM_HASH_def)
  have r3: "mem_read m3 ?f 1352 = A @ B @ D @ P @ S @ sm_hash s @ sm_public_key s @ SG @ dev_public_key s"
    using mem_read_splice [of m2 ?f "A @ B @ D @ P @ S @ sm_hash s" SP "SG @ dev_public_key s" "sm_public_key s"] r2 lens
    by (simp add: m3_def REPORT_SM_PUBLIC_KEY_def)
  have r4: "mem_read m4 ?f 1352 = A @ B @ D @ P @ S @ sm_hash s @ sm_public_key s @ sm_signature s @ dev_public_key s"
    using mem_read_splice [of m3 ?f "A @ B @ D @ P @ S @ sm_hash s @ sm_public_key s" SG "dev_public_key s" "sm_signature s"] r3 lens
    by (simp add: m4_def REPORT_SM_SIGNATURE_def)
  have r5: "mem_read m5 ?f 1352 = ?hash @ B @ D @ P @ S @ sm_hash s @ sm_public_key s @ sm_signature s @ dev_public_key s"
    using mem_read_splice [of m4 ?f "[]" A "B @ D @ P @ S @ sm_hash s @ sm_public_key s @ sm_signature s @ dev_public_key s" ?hash] r4 lens
    by (simp add: m5_def)
  have "mem_read m5 ?f ((72 + unat sz) + (1280 - unat sz)) =
      (?hash @ B @ D) @ (P @ S @ sm_hash s @ sm_public_key s @ sm_signature s @ dev_public_key s)"
    using r5 lens by simp
  then have signed: "mem_read m5 ?f (72 + unat sz) = ?hash @ B @ D"
    unfolding mem_read_add by (rule append_eq_append_conv [THEN iffD1, THEN conjunct1, rotated]) (use lens in simp)
  define sig where "sig = ed25519_sign env (?hash @ B @ D) (sm_public_key s) (sm_private_key s)"
  have fill: "memory (fill_report env eid sz s) = mem_write (?f + REPORT_SIGNATURE) sig m5"
    using signed lens
    by (simp add: fill_report_def Let_def m1_def m2_def m3_def m4_def m5_def sig_def sm_sign_def sign_def cfg_defs
        sizeof_enclave_report_def)
  have "mem_read (mem_write (?f + REPORT_SIGNATURE) sig m5) ?f 1352 =
      ?hash @ B @ D @ P @ sig @ sm_hash s @ sm_public_key s @ sm_signature s @ dev_public_key s"
    using mem_read_splice [of m5 ?f "?hash @ B @ D @ P" S "sm_hash s @ sm_public_key s @ sm_signature s @ dev_public_key s" sig] r5 lens
    by (simp add: sig_def REPORT_SIGNATURE_def)
  then show "mem_read (memory (fill_report env eid sz s)) ?f 1352 =
      (let hash = ?hash
       in hash @ B @ D @ P @ ed25519_sign env (hash @ B @ D) (sm_public_key s) (sm_private_key s) @
          sm_hash s @ sm_public_key s @ sm_signature s @ dev_public_key s)"
    by (simp add: fill sig_def Let_def)
  show "memory (fill_report env eid sz s) x = memory s x" if "\<not> unat (x - ?f) < 1352"
    using write_outside [OF that, of 1320 "dev_public_key s"] write_outside [OF that, of 1160 "sm_hash s"]
      write_outside [OF that, of 1224 "sm_public_key s"] write_outside [OF that, of 1256 "sm_signature s"]
      write_outside [OF that, of 0 ?hash] write_outside [OF that, of 1096 sig] lens
    by (simp add: fill m1_def m2_def m3_def m4_def m5_def sig_def REPORT_DEV_PUBLIC_KEY_def REPORT_SM_HASH_def
        REPORT_SM_PUBLIC_KEY_def REPORT_SM_SIGNATURE_def REPORT_SIGNATURE_def)
qed

lemma report_parts:
  assumes "n \<le> 1024"
  shows "mem_read m f 1352 = mem_read m f 64 @ mem_read m (f + 64) 8 @ mem_read m (f + 72) n @
    mem_read m (f + 72 + of_nat n) (1024 - n) @ mem_read m (f + 1096) 64 @ mem_read m (f + 1160) 64 @
    mem_read m (f + 1224) 32 @ mem_read m (f + 1256) 64 @ mem_read m (f + 1320) 32"
proof -
  have e: "(1352 :: nat) = 64 + (8 + (n + ((1024 - n) + (64 + (64 + (32 + (64 + 32)))))))" using assms by simp
  have a: "of_nat n + of_nat (1024 - n) = (1024 :: u64)" using assms by (simp add: of_nat_diff)
  have c: "f + 72 + of_nat n + of_nat (1024 - n) = f + 1096" using a by (simp add: add.assoc)
  have "mem_read m f (64 + (8 + (n + ((1024 - n) + (64 + (64 + (32 + (64 + 32)))))))) = mem_read m f 64 @ mem_read m (f + 64) 8 @
    mem_read m (f + 72) n @ mem_read m (f + 72 + of_nat n) (1024 - n) @ mem_read m (f + 1096) 64 @ mem_read m (f + 1160) 64 @
    mem_read m (f + 1224) 32 @ mem_read m (f + 1256) 64 @ mem_read m (f + 1320) 32"
    unfolding mem_read_add by (simp add: a add.assoc)
  then show ?thesis unfolding e .
qed

lemma attest_report:
  assumes ok: "attest_enclave env rp dp sz eid s = (SBI_ERR_SM_ENCLAVE_SUCCESS, s')"
    and na: "no_alias (xread env) dp (unat sz) (frame env + REPORT_DATA) (unat sz)" "no_alias (xwrite env) rp sizeof_report (frame env) sizeof_report"
    and k: "keys_ok s" "length (e_hash (enclaves s ! unat eid)) = 64" "\<And>m p k. length (ed25519_sign env m p k) = 64"
  shows "\<exists>data m. mprv_read (xread env) (memory s) dp (unat sz) = Some data \<and>
    (\<forall>x. \<not> unat (x - frame env) < sizeof_report \<longrightarrow> m x = memory s x) \<and>
    mprv_write (xwrite env) rp (report_bytes env eid sz data s) m = Some (memory s')"
proof -
  let ?f = "frame env" and ?m = "memory s"
  have sz: "unat sz \<le> 1024" and szl: "unat sz < 2 ^ 64"
    using ok by (auto simp: attest_enclave_def word_less_nat_alt cfg_defs err_codes split: if_splits)
  obtain data where d: "mprv_read (xread env) ?m dp (unat sz) = Some data"
      and cp: "copy_to_sm (xread env) (?f + REPORT_DATA) dp (unat sz) ?m = (0, mem_write (?f + REPORT_DATA) data ?m)"
    using copy_to_sm_bytes [OF na(1) szl, of ?m] ok
    by (cases "mprv_read (xread env) ?m dp (unat sz)")
      (auto simp: attest_enclave_def copy_enclave_data_def err_codes Let_def split: if_splits prod.splits)
  have ld: "length data = unat sz" by (rule mprv_read_length [OF d])
  define m1 where "m1 = store64 (?f + REPORT_DATA_LEN) sz (mem_write (?f + REPORT_DATA) data ?m)"
  define t where "t = fill_report env eid sz (s\<lparr>memory := m1\<rparr>)"
  have "mem_read (mem_write (?f + 72) data ?m) ?f 1352 = mem_read ?m ?f 64 @ mem_read ?m (?f + 64) 8 @ data @
      mem_read ?m (?f + 72 + of_nat (unat sz)) (1024 - unat sz) @ mem_read ?m (?f + 1096) 64 @ mem_read ?m (?f + 1160) 64 @
      mem_read ?m (?f + 1224) 32 @ mem_read ?m (?f + 1256) 64 @ mem_read ?m (?f + 1320) 32"
    using mem_read_splice [of ?m ?f "mem_read ?m ?f 64 @ mem_read ?m (?f + 64) 8" "mem_read ?m (?f + 72) (unat sz)" "mem_read ?m (?f + 72 + of_nat (unat sz)) (1024 - unat sz) @ mem_read ?m (?f + 1096) 64 @ mem_read ?m (?f + 1160) 64 @
      mem_read ?m (?f + 1224) 32 @ mem_read ?m (?f + 1256) 64 @ mem_read ?m (?f + 1320) 32" data] report_parts [OF sz, of ?m ?f] sz ld by simp
  then have r1: "mem_read m1 ?f 1352 = mem_read ?m ?f 64 @ word_bytes sz @ data @
      mem_read ?m (?f + 72 + of_nat (unat sz)) (1024 - unat sz) @ mem_read ?m (?f + 1096) 64 @ mem_read ?m (?f + 1160) 64 @
      mem_read ?m (?f + 1224) 32 @ mem_read ?m (?f + 1256) 64 @ mem_read ?m (?f + 1320) 32"
    using mem_read_splice [of "mem_write (?f + 72) data ?m" ?f "mem_read ?m ?f 64" "mem_read ?m (?f + 64) 8" "data @
      mem_read ?m (?f + 72 + of_nat (unat sz)) (1024 - unat sz) @ mem_read ?m (?f + 1096) 64 @ mem_read ?m (?f + 1160) 64 @
      mem_read ?m (?f + 1224) 32 @ mem_read ?m (?f + 1256) 64 @ mem_read ?m (?f + 1320) 32" "word_bytes sz"] sz ld
    by (simp add: m1_def store64_def REPORT_DATA_LEN_def REPORT_DATA_def)
  have fill: "mem_read (memory t) ?f 1352 = report_bytes env eid sz data s"
    and out: "\<And>x. \<not> unat (x - ?f) < 1352 \<Longrightarrow> memory t x = m1 x"
    using fill_report_bytes [of "s\<lparr>memory := m1\<rparr>" env _ "word_bytes sz" data _ _ _ _ _ _ sz eid] r1 ld sz k
    by (simp_all add: t_def report_bytes_def Let_def REPORT_DATA_def cfg_defs keys_ok_def)
  have m1: "m1 x = ?m x" if "\<not> unat (x - ?f) < 1352" for x
    using write_outside [OF that, of 72 data] write_outside [OF that, of 64 "word_bytes sz"] ld sz
    by (simp add: m1_def store64_def REPORT_DATA_LEN_def REPORT_DATA_def)
  have "wrote (xwrite env) rp (mem_read (memory t) ?f 1352) (memory t) (copy_from_sm (xwrite env) rp ?f 1352 (memory t))"
    using copy_from_sm_wrote [OF na(2)] by (simp add: sizeof_report_def)
  moreover have "copy_from_sm (xwrite env) rp ?f 1352 (memory t) = (0, memory s')"
    using ok cp sz
    by (auto simp: attest_enclave_def copy_enclave_data_def copy_enclave_report_def err_codes Let_def t_def m1_def sizeof_report_def
        split: if_splits prod.splits)
  ultimately have "mprv_write (xwrite env) rp (report_bytes env eid sz data s) (memory t) = Some (memory s')"
    by (auto simp: wrote_def fill split: option.splits)
  moreover have "memory t x = ?m x" if "\<not> unat (x - ?f) < sizeof_report" for x
    using out m1 that by (simp add: sizeof_report_def)
  ultimately show ?thesis using d by blast
qed

section \<open>The sealing key\<close>

text \<open>The key for a measurement and an identifier, under the monitor's private key.\<close>

definition sealing_key_of :: "u8 list \<Rightarrow> u8 list \<Rightarrow> u8 list \<Rightarrow> u8 list" where
  "sealing_key_of sk hash ident = take 128 (hkdf_okm (hkdf_extract None sk) (take MDSIZE hash @ ident) 2)"

lemma sealing_key_eq:
  "get_sealing_key env k ki n eid s =
     (let key = sealing_key_of (sm_private_key s) (e_hash (enclaves s ! unat eid)) (mem_read (memory s) ki (unat n));
          sig = ed25519_sign env key (sm_public_key s) (sm_private_key s)
      in Some (SBI_ERR_SM_ENCLAVE_SUCCESS, s\<lparr>memory := mem_write (k + 128) sig (mem_write k key (memory s))\<rparr>))"
proof -
  let ?i = "mem_read (memory s) ki (unat n)" and ?h = "e_hash (enclaves s ! unat eid)"
  let ?key = "sealing_key_of (sm_private_key s) ?h ?i"
  have "div_ceil 128 64 = 2" by (simp add: div_ceil_def)
  then have h: "hkdf_sha3_512 None (sm_private_key s) (take MDSIZE ?h @ ?i) (mem_read (memory s) k 128) = Some (0, ?key)"
    by (simp add: hkdf_sha3_512_eq sealing_key_of_def)
  have "length ?key = 128" by (simp add: sealing_key_of_def length_hkdf_okm)
  then have "mem_read (mem_write k ?key (memory s)) k 128 = ?key"
    using mem_read_write [of ?key k "memory s"] by simp
  then show ?thesis
    using h by (simp add: get_sealing_key_def sm_derive_sealing_key_def kdf_def Let_def SEALING_KEY_SIZE_def sm_sign_def sign_def)
qed

end
