(* ===== verification/Scenario.thy ===== *)
theory Scenario
  imports Reachable Report
begin

text \<open>
  A run of the machine with two harts: the boot, the operating system storing the arguments of a
  call, the creation of an enclave and its start on hart 0. The states of this run are reachable,
  with an enclave that lives and one that runs, so the theorems on reachable states are not empty.
\<close>

section \<open>The machine at reset\<close>

definition enclave_zero :: enclave where
  "enclave_zero = \<lparr>e_eid = 0, encl_satp = 0, e_state = INVALID, e_regions = replicate 8 \<lparr>pmp_rid = 0, er_type = REGION_INVALID\<rparr>,
     e_hash = [], e_sign = [], e_params = params_zero, n_thread = 0, e_thread = thread_zero\<rparr>"

definition hart_zero :: hart where
  "hart_zero = \<lparr>h_pmp = csrs_off, h_csrs = csrs_zero, mideleg = 0, mip = 0, mtvec = trap_handler_host\<rparr>"

definition sm_zero :: sm_state where
  "sm_zero = \<lparr>pmp = pmp_state_zero, enclaves = replicate 16 enclave_zero,
     cpus = (\<lambda>_. \<lparr>is_enclave = False, cpu_eid = 0\<rparr>), harts = (\<lambda>_. hart_zero), memory = (\<lambda>_. 0), sm_init_done = False,
     sm_region_id = 0, os_region_id = 0, sm_hash = [], sm_signature = [], sm_public_key = [], sm_private_key = [],
     dev_public_key = [], rng_w = 0\<rparr>"

definition env_ex :: sm_env where
  "env_ex = \<lparr>mhartid = 0, ipi_harts = [0, 1], xread = Some, xwrite = (\<lambda>_. None), frame = 0x80100000, rdcycle = 0,
     ed25519_sign = (\<lambda>m p k. replicate 64 0)\<rparr>"

definition rom_ex :: sanctum_rom where
  "rom_ex = \<lparr>sanctum_sm_hash = replicate 64 1, sanctum_sm_signature = replicate 64 2, sanctum_sm_secret_key = replicate 64 3,
     sanctum_sm_public_key = replicate 32 4, sanctum_dev_public_key = replicate 32 5\<rparr>"

lemma sm_zero_reset: "reset_state {0, 1} sm_zero"
  by (simp add: reset_state_def sm_zero_def enclave_zero_def hart_zero_def csrs_off_def cfg_defs)

lemma env_ex_ok: "env_ok {0, 1} s env_ex"
  by (simp add: env_ok_def env_ex_def cfg_defs sizeof_report_def)

lemma scenario_boot: "\<exists>s. boot rom_ex env_ex [1] sm_zero = Some s \<and> booted {0, 1} s \<and> reachable {0, 1} s"
proof -
  have H: "{0, 1} = set (mhartid env_ex # [1])" "distinct (mhartid env_ex # [1])" by (simp_all add: env_ex_def)
  obtain s where s: "boot rom_ex env_ex [1] sm_zero = Some s" "booted {0, 1} s"
    using boot_booted [of env_ex "[1]" sm_zero rom_ex] sm_zero_reset H by auto
  then show ?thesis using reach_boot [OF sm_zero_reset H s(1)] by blast
qed

section \<open>The arguments in memory\<close>

definition words :: "u64 list \<Rightarrow> u8 list" where
  "words ws = concat (map word_bytes ws)"

lemma length_words: "length (words ws) = 8 * length ws"
  by (induction ws) (simp_all add: words_def)

lemma words_slice: "k < length ws \<Longrightarrow> take 8 (drop (8 * k) (words ws)) = word_bytes (ws ! k)"
proof (induction ws arbitrary: k)
  case (Cons w ws)
  then show ?case by (cases k) (simp_all add: words_def)
qed simp

lemma load_words:
  assumes "k < length ws" and "8 * length ws < 2 ^ 64"
  shows "load64 (mem_write a (words ws) m) (a + of_nat (8 * k)) = ws ! k"
  using assms mem_read_slice [of "8 * k" 8 "words ws" a m]
  by (simp add: load64_def length_words words_slice del: of_nat_mult)

lemma mprv_read_all: "mprv_read Some m a n = Some (mem_read m a n)"
  by (induction n arbitrary: a) (simp_all add: mem_read_Suc)

definition args_ex :: keystone_sbi_create_t where
  "args_ex = \<lparr>epm_region = \<lparr>paddr = 0x90000000, pr_size = 0x100000\<rparr>, utm_region = \<lparr>paddr = 0x92000000, pr_size = 0x1000\<rparr>,
     runtime_paddr = 0x90001000, user_paddr = 0x90002000, free_paddr = 0x90003000, ca_free_requested = 0\<rparr>"

definition args_words :: "u64 list" where
  "args_words = [0x90000000, 0x100000, 0x92000000, 0x1000, 0x90001000, 0x90002000, 0x90003000, 0]"

lemma args_words_at: "create_args_at (mem_write a (words args_words) m) a = args_ex"
proof -
  have l: "load64 (mem_write a (words args_words) m) (a + of_nat (8 * k)) = args_words ! k" if "k < 8" for k
    using that by (intro load_words) (simp_all add: args_words_def)
  show ?thesis
    using l [of 0] l [of 1] l [of 2] l [of 3] l [of 4] l [of 5] l [of 6] l [of 7]
    by (simp add: create_args_at_def args_ex_def args_words_def)
qed

text \<open>The operating system stores the arguments at an address it may write.\<close>

lemma booted_os_access:
  assumes b: "booted H s" and h: "h \<in> H" and a: "\<not> in_region sm_region a"
  shows "pmp_allows (h_pmp (harts s h)) a PMP_W"
proof -
  let ?f = "[0 \<mapsto> PMP_NO_PERM, 1 \<mapsto> PMP_ALL_PERM]"
  have hp: "hart_pmp boot_regions (h_pmp (harts s h)) ?f" using b h by (simp add: booted_def)
  note r = boot_regions_simps boot_regions_simps(4) [simplified]
  have ol: "overlap_last boot_regions ?f" by (auto simp: overlap_last_def r sm_region_def os_region_def)
  have "pmp_allows (h_pmp (harts s h)) a PMP_W \<longleftrightarrow> PMP_ALL_PERM AND PMP_W = PMP_W"
  proof (rule pmp_allows_last [OF boot_regions_wf(2) hp ol, of 1])
    fix j assume "?f j \<noteq> None" "\<not> rg_allow_overlap (regions boot_regions ! j)"
    then show "\<not> in_region (regions boot_regions ! j) a"
      using a r by (auto simp: os_region_def split: if_splits)
  qed (simp_all add: r os_region_def in_region_def perm_bits)
  then show ?thesis by (simp add: PMP_ALL_PERM_def hw_consts)
qed

definition store_args :: "sm_state \<Rightarrow> sm_state" where
  "store_args s = s\<lparr>memory := mem_write 0x84000000 (words args_words) (memory s)\<rparr>"

lemma scenario_args:
  assumes b: "booted {0, 1} s" and r: "reachable {0, 1} s"
  shows "booted {0, 1} (store_args s)" and "reachable {0, 1} (store_args s)"
proof -
  show "booted {0, 1} (store_args s)" using b by (simp add: booted_def store_args_def)
  have "pmp_allows (h_pmp (harts s 0)) a PMP_W" if "memory (store_args s) a \<noteq> memory s a" for a
  proof (rule booted_os_access [OF b])
    have d: "unat (a - 0x84000000) < 64"
      using that mem_write_apply [of "words args_words" "0x84000000" "memory s" a]
      by (auto simp: store_args_def length_words args_words_def split: if_splits)
    have "unat (0x84000000 + (a - 0x84000000)) = unat (0x84000000 :: u64) + unat (a - 0x84000000)"
      using d by (intro unat_add_small) simp
    then have "unat a = unat (0x84000000 :: u64) + unat (a - 0x84000000)" by simp
    then show "\<not> in_region sm_region a" by (simp add: in_region_def sm_region_def cfg_defs)
  qed simp
  then have "software_step 0 s (store_args s)" by (simp add: software_step_def store_args_def)
  then show "reachable {0, 1} (store_args s)" using reach_step [OF r step_software] by blast
qed

lemma args_copied:
  assumes "memory s = mem_write 0x84000000 (words args_words) m"
  shows "copy_enclave_create_args env_ex 0x84000000 0x80100000 s =
    (SBI_ERR_SM_ENCLAVE_SUCCESS, s\<lparr>memory := mem_write 0x80100000 (words args_words) (memory s)\<rparr>)"
proof -
  have na: "no_alias Some 0x84000000 64 0x80100000 64"
  proof -
    have "\<not> unat (0x84000000 + of_nat i - 0x80100000 :: u64) < 64" if "i < 64" for i :: nat
    proof -
      have e: "0x84000000 + of_nat i - 0x80100000 = (of_nat (66060288 + i) :: u64)" by simp
      show ?thesis unfolding e using that by (simp add: unsigned_of_nat take_bit_nat_eq_self del: of_nat_add)
    qed
    then show ?thesis by (simp add: no_alias_def)
  qed
  have r: "mem_read (memory s) 0x84000000 64 = words args_words"
    using mem_read_slice [of 0 64 "words args_words" "0x84000000" m] assms by (simp add: length_words args_words_def)
  have "copy_to_sm Some 0x80100000 0x84000000 64 (memory s) = (0, mem_write 0x80100000 (words args_words) (memory s))"
    using copy_to_sm_bytes [OF na, of "memory s"] by (simp add: mprv_read_all r)
  then show ?thesis by (simp add: copy_enclave_create_args_def sizeof_create_args_def env_ex_def)
qed

section \<open>The enclave is created\<close>

definition epm_entry :: pmp_region where
  "epm_entry = \<lparr>rg_size = 0x100000, rg_addrmode = PMP_A_NAPOT, rg_addr = 0x90000000, rg_allow_overlap = False, rg_reg_idx = 1\<rparr>"

definition epm_regions :: pmp_state where
  "epm_regions = \<lparr>regions = (replicate 16 region_zero)[0 := sm_region, 1 := os_region, 2 := epm_entry],
     reg_bitmap = 131, region_def_bitmap = 7\<rparr>"

definition encl_regions :: pmp_state where
  "encl_regions = \<lparr>regions = (replicate 16 region_zero)[0 := sm_region, 1 := os_region, 2 := epm_entry, 3 := page_region],
     reg_bitmap = 131, region_def_bitmap = 15\<rparr>"

lemma bit_15: "bit (15 :: int) n \<longleftrightarrow> n < 4"
proof -
  have m: "(15 :: int) = mask 4" by (simp add: mask_eq_exp_minus_1)
  show ?thesis by (simp only: m bit_mask_iff possible_bit_int simp_thms)
qed

lemma epm_no_overlap: "\<not> detect_region_overlap 0x90000000 0x100000 boot_regions"
proof -
  have "is_pmp_region_valid boot_regions (int i) \<longleftrightarrow> i < 2" if "i < 16" for i
    using that by (simp add: valid_nat_iff boot_regions_def low_bits)
  then show ?thesis
    using boot_regions_simps(3,4)
    by (auto simp: detect_overlap_span [OF boot_regions_wf(2)] less_2_cases_iff sm_region_def os_region_def region_span_def cfg_defs)
qed

lemma epm_init:
  "pmp_region_init_atomic 0x90000000 0x100000 PMP_PRI_ANY rid False boot_regions = Some (SBI_ERR_SM_PMP_SUCCESS, 2, epm_regions)"
  using epm_no_overlap
  by (simp add: region_init_evals find_upt_first [of 0] find_upt_first [of "Suc 0"] find_upt_first [of "Suc (Suc 0)"] boot_regions_def
      epm_regions_def epm_entry_def low_bits region_init_regions [of 2, simplified])

lemma epm_regions_wf: "pmp_wf epm_regions"
  using epm_init [of 0] region_init_wf [OF boot_regions_wf(2), of "0x90000000" "0x100000" PMP_PRI_ANY 0 False]
  by (simp add: pmp_region_init_atomic_def boot_regions_def low_bits)

lemma utm_no_overlap: "\<not> detect_region_overlap 0x92000000 0x1000 epm_regions"
proof -
  have "is_pmp_region_valid epm_regions (int i) \<longleftrightarrow> i = 0 \<or> i = 1 \<or> i = 2" if "i < 16" for i
    using that by (auto simp: valid_nat_iff epm_regions_def low_bits)
  moreover have "regions epm_regions ! 0 = sm_region" "regions epm_regions ! 1 = os_region" "regions epm_regions ! 2 = epm_entry"
    by (simp_all add: epm_regions_def)
  ultimately show ?thesis
    by (auto simp: detect_overlap_span [OF epm_regions_wf] sm_region_def os_region_def epm_entry_def region_span_def cfg_defs)
qed

lemma utm_init:
  "pmp_region_init_atomic 0x92000000 0x1000 PMP_PRI_BOTTOM rid False epm_regions = Some (SBI_ERR_SM_PMP_SUCCESS, 3, encl_regions)"
  using utm_no_overlap
  by (simp add: region_init_evals find_upt_first [of 0] find_upt_first [of "Suc 0"] find_upt_first [of "Suc (Suc 0)"]
      find_upt_first [of "Suc (Suc (Suc 0))"] epm_regions_def
      encl_regions_def page_region_def low_bits region_init_regions [of 3, simplified])

lemma encl_regions_wf: "pmp_wf encl_regions"
  using utm_init [of 0] region_init_wf [OF epm_regions_wf, of "0x92000000" "0x1000" PMP_PRI_BOTTOM 0 False]
  by (simp add: pmp_region_init_atomic_def)

lemma encl_regions_simps:
  "region_valid encl_regions k \<longleftrightarrow> k < 4" "regions encl_regions ! 2 = epm_entry" "regions encl_regions ! 3 = page_region"
  "region_regs epm_entry = {1}"
  by (auto simp: region_valid_def encl_regions_def bit_15 region_regs_def epm_entry_def cfg_defs hw_consts)

lemma args_ex_valid: "is_create_args_valid args_ex"
  by (simp add: is_create_args_valid_def args_ex_def)

lemma finish_ex:
  assumes "unat eid < length (enclaves s)"
  shows "\<exists>s'. create_finish env eid r sr args_ex out s = Some (SBI_ERR_SM_ENCLAVE_SUCCESS, ucast eid, s') \<and> pmp s' = pmp s"
proof -
  let ?e = "init_enclave_metadata eid r sr (create_params args_ex) (h_csrs (harts s (mhartid env))) (enclaves s ! unat eid)"
  have p: "e_params ?e = create_params args_ex" by (simp add: init_enclave_metadata_def Let_def)
  have "params_ordered (e_params ?e)" unfolding p by (simp add: params_ordered_def create_params_def args_ex_def)
  from validate_and_hash_enclave_eq [OF this] show ?thesis
    using assms by (simp add: create_finish_def Let_def clean_enclave_memory_def platform_hooks err_codes upd_encl_def)
qed

lemma create_ex:
  assumes b: "booted {0, 1} s"
  shows "\<exists>s'. create_enclave env_ex out args_ex s = Some (SBI_ERR_SM_ENCLAVE_SUCCESS, 0, s') \<and> pmp s' = encl_regions"
proof -
  have len: "length (enclaves s) = 16" and inv: "e_state (enclaves s ! 0) = INVALID" and pm: "pmp s = boot_regions"
    using b by (auto simp: booted_def)
  define s1 where "s1 = upd_encl 0 (\<lambda>e. e\<lparr>e_state := ALLOCATED\<rparr>) s"
  have al: "encl_alloc_eid s = (SBI_ERR_SM_ENCLAVE_SUCCESS, 0, s1)"
    using inv by (simp add: encl_alloc_eid_def find_upt_first [of 0] cfg_defs s1_def)
  have p1: "pmp s1 = boot_regions" "length (enclaves s1) = 16" using pm len by (simp_all add: s1_def upd_encl_def)
  obtain cs where cs: "global_pmp_set env_ex (int 2) PMP_NO_PERM (s1\<lparr>pmp := encl_regions\<rparr>) =
      Some (SBI_ERR_SM_PMP_SUCCESS, put_pmps cs (s1\<lparr>pmp := encl_regions\<rparr>))"
    using global_set_valid [of "s1\<lparr>pmp := encl_regions\<rparr>" 2 env_ex PMP_NO_PERM] encl_regions_wf by (auto simp: encl_regions_simps)
  obtain s' where "create_finish env_ex 0 2 3 args_ex out (put_pmps cs (s1\<lparr>pmp := encl_regions\<rparr>)) =
      Some (SBI_ERR_SM_ENCLAVE_SUCCESS, ucast (0 :: enclave_id), s')" "pmp s' = encl_regions"
    using finish_ex [of 0 "put_pmps cs (s1\<lparr>pmp := encl_regions\<rparr>)" env_ex 2 3 out] p1(2) by auto
  then show ?thesis
    using args_ex_valid al epm_init [of 0] utm_init [of 0] cs p1(1)
    by (simp add: create_enclave_def args_ex_def err_codes)
qed

definition regs_ex :: "u64 \<Rightarrow> sbi_trap_regs" where
  "regs_ex a0 = \<lparr>gprs = (replicate 32 0)[10 := a0], mepc = 0x80400000, mstatus = 0\<rparr>"

text \<open>Enclave 0 lives, in the state \<open>FRESH\<close>, and its private memory is where the arguments say.\<close>

definition fresh_ex :: "sm_state \<Rightarrow> bool" where
  "fresh_ex s \<longleftrightarrow> reachable {0, 1} s \<and> live s 0 \<and> e_state (enclaves s ! 0) = FRESH \<and> regions (pmp s) ! epm s 0 = epm_entry \<and>
     (\<forall>h\<in>{0, 1}. \<not> is_enclave (cpus s h))"

lemma scenario_create:
  assumes b: "booted {0, 1} s" and r: "reachable {0, 1} s" and m: "memory s = mem_write 0x84000000 (words args_words) m"
  shows "\<exists>s'. sbi_ecall_keystone_enclave_handler env_ex SBI_SM_CREATE_ENCLAVE (regs_ex 0x84000000) 0 s =
      Some (sbi_return 0 0, s') \<and> fresh_ex s'"
proof -
  define s1 where "s1 = s\<lparr>memory := mem_write 0x80100000 (words args_words) (memory s)\<rparr>"
  have b1: "booted {0, 1} s1" using b by (simp add: booted_def s1_def)
  have inv1: "sm_inv {0, 1} s1" by (rule booted_inv [OF b1])
  obtain s' where cr: "create_enclave env_ex 0 args_ex s1 = Some (SBI_ERR_SM_ENCLAVE_SUCCESS, 0, s')" and pm: "pmp s' = encl_regions"
    using create_ex [OF b1] by blast
  have "sbi_sm_create_enclave env_ex 0 0x84000000 s = Some (SBI_ERR_SM_ENCLAVE_SUCCESS, 0, s')"
    using args_copied [OF m] cr args_words_at [of "0x80100000" "memory s"]
    by (simp add: sbi_sm_create_enclave_def env_ex_def s1_def err_codes)
  moreover have nc: "\<not> is_enclave (cpus s h)" if "h \<in> {0, 1}" for h using b that by (auto simp: booted_def)
  ultimately have hd: "sbi_ecall_keystone_enclave_handler env_ex SBI_SM_CREATE_ENCLAVE (regs_ex 0x84000000) 0 s = Some (sbi_return 0 0, s')"
    by (simp add: sbi_ecall_keystone_enclave_handler_def cpu_is_enclave_context_def env_ex_def regs_ex_def err_codes hw_consts int_ret_def)
  obtain i k u where c: "created {0, 1} args_ex i k u s1 s'" "0 = (of_nat i :: u64)"
    using create_enclave_cases [OF inv1 _ cr] by (auto simp: env_ex_def)
  have "i < 16" using c(1) by (simp add: created_def)
  then have "unat (of_nat i :: u64) = i" by (simp add: unsigned_of_nat take_bit_nat_eq_self)
  then have i: "i = 0" using c(2) by (metis unat_0)
  have k: "k = 2"
  proof -
    have "region_valid encl_regions k" "\<not> region_valid boot_regions k" "rg_addr (regions encl_regions ! k) = 0x90000000"
      using c b1 pm by (auto simp: created_def booted_def args_ex_def)
    then have "k < 4" "\<not> k < 2" by (simp_all add: encl_regions_simps) (simp add: region_valid_def boot_regions_def low_bits)
    then have "k = 2 \<or> k = 3" by linarith
    with \<open>rg_addr _ = _\<close> show ?thesis by (auto simp: encl_regions_simps page_region_def)
  qed
  have lv: "live s' 0" "epm s' 0 = 2" using created_epm [OF inv1 c(1)] i k by auto
  have "live s' j \<longleftrightarrow> j = 0" for j
    using c b1 i by (cases "j = 0") (auto simp: created_def booted_def live_def)
  then have "epm_low s'" using lv pm by (simp add: epm_low_def encl_regions_simps)
  then have "reachable {0, 1} s'" using reach_step [OF r step_ecall [OF env_ex_ok hd _ sealing_okI]] by (simp add: err_codes)
  then show ?thesis
    using hd lv pm c i nc by (auto simp: fresh_ex_def encl_regions_simps created_def s1_def)
qed

lemma scenario_fresh: "\<exists>s. fresh_ex s"
proof -
  obtain s where s: "booted {0, 1} s" "reachable {0, 1} s" using scenario_boot by blast
  have "memory (store_args s) = mem_write 0x84000000 (words args_words) (memory s)" by (simp add: store_args_def)
  then show ?thesis using scenario_create [OF scenario_args [OF s]] by blast
qed

section \<open>The enclave runs\<close>

definition running_ex :: "sm_state \<Rightarrow> bool" where
  "running_ex s \<longleftrightarrow> reachable {0, 1} s \<and> live s 0 \<and> runs s 0 0 \<and> regions (pmp s) ! epm s 0 = epm_entry \<and> \<not> runs s 1 0"

lemma scenario_run:
  assumes f: "fresh_ex s"
  shows "\<exists>regs s'. sbi_ecall_keystone_enclave_handler env_ex SBI_SM_RUN_ENCLAVE (regs_ex 0) 0 s = Some (sbi_trap_exit regs, s') \<and>
    running_ex s'"
proof -
  have inv: "sm_inv {0, 1} s" using f reachable_sm_inv by (simp add: fresh_ex_def)
  have h: "mhartid env_ex \<in> {0, 1}" "\<not> is_enclave (cpus s (mhartid env_ex))" using f by (simp_all add: env_ex_def fresh_ex_def)
  obtain regs s' where r: "run_enclave env_ex (regs_ex 0) 0 s = Some (SBI_ERR_SM_ENCLAVE_SUCCESS, regs, s')"
      "entered {0, 1} (mhartid env_ex) 0 s s'"
    using run_enclave_cases [OF inv h, of 0 "regs_ex 0"] f by (auto simp: fresh_ex_def)
  have hd: "sbi_ecall_keystone_enclave_handler env_ex SBI_SM_RUN_ENCLAVE (regs_ex 0) 0 s =
      Some (sbi_trap_exit (next_insn (set_reg REG_A0 SBI_ERR_SM_ENCLAVE_SUCCESS regs)), s')"
    using r(1) h(2) by (simp add: sbi_ecall_keystone_enclave_handler_def cpu_is_enclave_context_def regs_ex_def err_codes hw_consts
        sbi_sm_run_enclave_def)
  have same: "same_regions s s'" using r(2) by (simp add: entered_def)
  have inv': "sm_inv {0, 1} s'" using r(2) by (simp add: entered_def)
  have lv: "live s' 0" "epm s' 0 = epm s 0" "pmp s' = pmp s" using same f by (auto simp: same_regions_def fresh_ex_def)
  have "epm_low s'" using live_regions(8) [OF inv'] by (auto simp: epm_low_def)
  then have "reachable {0, 1} s'"
    using reach_step [OF _ step_ecall [OF env_ex_ok hd _ sealing_okI]] f by (auto simp: fresh_ex_def err_codes)
  moreover have "\<not> runs s' 1 0" using sm_invD(6) [OF inv'] r(2) by (auto simp: cpus_ok_def entered_def env_ex_def)
  ultimately have "running_ex s'" using lv r(2) f by (simp add: running_ex_def entered_def fresh_ex_def env_ex_def)
  then show ?thesis using hd by blast
qed

lemma scenario_running: "\<exists>s. running_ex s"
  using scenario_fresh scenario_run by blast

end
