(* ===== verification/Edge.thy ===== *)
theory Edge
  imports Prelude
begin

text \<open>
  Edge calls (\<open>sdk/src/edge\<close>): a call and its data lie in the memory shared between an enclave
  and its host, and are named by offsets into it. The structures are the words they are in
  memory, since both sides work on the shared bytes; \<open>shared_start\<close> and \<open>shared_len\<close> are the
  globals \<open>_shared_start\<close> and \<open>_shared_len\<close>.
\<close>

section \<open>Data\<close>

record edge_region =
  shared_start :: u64
  shared_len :: u64

definition edge_call_init_internals :: "u64 \<Rightarrow> u64 \<Rightarrow> edge_region" where
  "edge_call_init_internals buffer_start buffer_len = \<lparr>shared_start = buffer_start, shared_len = buffer_len\<rparr>"

definition MAX_EDGE_CALL :: nat where [cfg_defs]: "MAX_EDGE_CALL = 10"
definition CALL_STATUS_OK :: u64 where [err_codes]: "CALL_STATUS_OK = 0"
definition CALL_STATUS_BAD_CALL_ID :: u64 where [err_codes]: "CALL_STATUS_BAD_CALL_ID = 1"
definition CALL_STATUS_BAD_OFFSET :: u64 where [err_codes]: "CALL_STATUS_BAD_OFFSET = 2"
definition CALL_STATUS_BAD_PTR :: u64 where [err_codes]: "CALL_STATUS_BAD_PTR = 3"
definition CALL_STATUS_ERROR :: u64 where [err_codes]: "CALL_STATUS_ERROR = 4"
definition CALL_STATUS_SYSCALL_FAILED :: u64 where [err_codes]: "CALL_STATUS_SYSCALL_FAILED = 5"
definition EDGECALL_SYSCALL :: u64 where [err_codes]: "EDGECALL_SYSCALL = 11"

text \<open>The fields of \<open>struct edge_call\<close>, with \<open>struct edge_return\<close> inside, and of \<open>struct edge_data\<close>.\<close>

definition EC_CALL_ID :: u64 where [cfg_defs]: "EC_CALL_ID = 0"
definition EC_ARG_OFFSET :: u64 where [cfg_defs]: "EC_ARG_OFFSET = 8"
definition EC_ARG_SIZE :: u64 where [cfg_defs]: "EC_ARG_SIZE = 16"
definition EC_STATUS :: u64 where [cfg_defs]: "EC_STATUS = 24"
definition EC_RET_OFFSET :: u64 where [cfg_defs]: "EC_RET_OFFSET = 32"
definition EC_RET_SIZE :: u64 where [cfg_defs]: "EC_RET_SIZE = 40"
definition sizeof_edge_call :: u64 where [cfg_defs]: "sizeof_edge_call = 48"
definition sizeof_edge_data :: u64 where [cfg_defs]: "sizeof_edge_data = 16"

section \<open>Offsets and pointers\<close>

definition UINTPTR_MAX :: u64 where "UINTPTR_MAX = - 1"

text \<open>The result is the return value and, if it is 0, what is stored through the pointer.\<close>

definition edge_call_get_ptr_from_offset :: "edge_region \<Rightarrow> u64 \<Rightarrow> u64 \<Rightarrow> int \<times> u64 option" where
  "edge_call_get_ptr_from_offset r off data_len =
     (if off > UINTPTR_MAX - shared_start r \<or> off \<ge> shared_len r then (- 1, None)
      else if data_len > UINTPTR_MAX - (shared_start r + off) \<or> data_len > shared_len r - off then (- 1, None)
      else (0, Some (shared_start r + off)))"

definition edge_call_check_ptr_valid :: "edge_region \<Rightarrow> u64 \<Rightarrow> u64 \<Rightarrow> int" where
  "edge_call_check_ptr_valid r p data_len =
     (if p > shared_start r + shared_len r \<or> p < shared_start r then 1
      else if data_len > UINTPTR_MAX - p then 2
      else if p + data_len > shared_start r + shared_len r then 3
      else 0)"

definition edge_call_get_offset_from_ptr :: "edge_region \<Rightarrow> u64 \<Rightarrow> u64 \<Rightarrow> int \<times> u64 option" where
  "edge_call_get_offset_from_ptr r p data_len =
     (let valid = edge_call_check_ptr_valid r p data_len
      in if valid \<noteq> 0 then (valid, None) else (0, Some (p - shared_start r)))"

section \<open>Calls\<close>

text \<open>\<open>edge_call_args_ptr\<close> and \<open>edge_call_ret_ptr\<close> also return the size; \<open>ec\<close> is the address of the call.\<close>

definition edge_call_args_ptr :: "edge_region \<Rightarrow> u64 \<Rightarrow> mem \<Rightarrow> (int \<times> u64 option) \<times> u64" where
  "edge_call_args_ptr r ec m =
     (let sz = load64 m (ec + EC_ARG_SIZE)
      in (edge_call_get_ptr_from_offset r (load64 m (ec + EC_ARG_OFFSET)) sz, sz))"

definition edge_call_ret_ptr :: "edge_region \<Rightarrow> u64 \<Rightarrow> mem \<Rightarrow> (int \<times> u64 option) \<times> u64" where
  "edge_call_ret_ptr r ec m =
     (let sz = load64 m (ec + EC_RET_SIZE)
      in (edge_call_get_ptr_from_offset r (load64 m (ec + EC_RET_OFFSET)) sz, sz))"

definition store_offset :: "u64 \<Rightarrow> int \<times> u64 option \<Rightarrow> mem \<Rightarrow> int \<times> mem" where
  "store_offset a res m = (fst res, case snd res of None \<Rightarrow> m | Some off \<Rightarrow> store64 a off m)"

definition edge_call_setup_call :: "edge_region \<Rightarrow> u64 \<Rightarrow> u64 \<Rightarrow> u64 \<Rightarrow> mem \<Rightarrow> int \<times> mem" where
  "edge_call_setup_call r ec p sz m =
     (let m = store64 (ec + EC_ARG_SIZE) sz m
      in store_offset (ec + EC_ARG_OFFSET) (edge_call_get_offset_from_ptr r p sz) m)"

definition edge_call_setup_ret :: "edge_region \<Rightarrow> u64 \<Rightarrow> u64 \<Rightarrow> u64 \<Rightarrow> mem \<Rightarrow> int \<times> mem" where
  "edge_call_setup_ret r ec p sz m =
     (let m = store64 (ec + EC_RET_SIZE) sz m
      in store_offset (ec + EC_RET_OFFSET) (edge_call_get_offset_from_ptr r p sz) m)"

text \<open>
  \<open>edge_call_setup_wrapped_ret\<close> ignores the result of the first check; the offset of the local
  \<open>data_wrapper\<close> then keeps its uninitialised value \<open>junk\<close>.
\<close>

definition edge_call_setup_wrapped_ret :: "u64 \<Rightarrow> edge_region \<Rightarrow> u64 \<Rightarrow> u64 \<Rightarrow> u64 \<Rightarrow> mem \<Rightarrow> int \<times> mem" where
  "edge_call_setup_wrapped_ret junk r ec p sz m =
     (let data = shared_start r + sizeof_edge_call + sizeof_edge_data;
          wrapper_off = (case snd (edge_call_get_offset_from_ptr r data sizeof_edge_data) of
                           None \<Rightarrow> junk | Some off \<Rightarrow> off);
          m = mem_write data (mem_read m p (unat sz)) m;
          m = mem_write (shared_start r + sizeof_edge_call) (word_bytes wrapper_off @ word_bytes sz) m;
          m = store64 (ec + EC_RET_SIZE) sizeof_edge_data m
      in store_offset (ec + EC_RET_OFFSET)
           (edge_call_get_offset_from_ptr r (shared_start r + sizeof_edge_call) sizeof_edge_data) m)"

definition edge_call_data_ptr :: "edge_region \<Rightarrow> u64" where
  "edge_call_data_ptr r = shared_start r + sizeof_edge_call"

section \<open>Dispatch\<close>

text \<open>
  The table of handlers has \<open>MAX_EDGE_CALL\<close> entries. The result is \<open>None\<close> when the code reads or
  writes beyond the table, which C leaves undefined. A handler takes the buffer and the memory.
\<close>

type_synonym edgecallwrapper = "u64 \<Rightarrow> mem \<Rightarrow> mem"

definition register_call :: "u64 \<Rightarrow> edgecallwrapper option \<Rightarrow> edgecallwrapper option list \<Rightarrow>
  (int \<times> edgecallwrapper option list) option" where
  "register_call call_id func table =
     (if call_id > of_nat MAX_EDGE_CALL then Some (- 1, table)
      else if unat call_id < length table then Some (0, table[unat call_id := func])
      else None)"

text \<open>
  With \<open>IO_SYSCALL_WRAPPING\<close>, a call with the number \<open>EDGECALL_SYSCALL\<close> goes to
  \<open>incoming_syscall\<close>: \<open>wrap\<close> is \<open>Some incoming_syscall\<close> then.
\<close>

definition incoming_call_dispatch ::
  "edgecallwrapper option \<Rightarrow> edgecallwrapper option list \<Rightarrow> u64 \<Rightarrow> mem \<Rightarrow> mem option" where
  "incoming_call_dispatch wrap table buffer m =
     (let call_id = load64 m (buffer + EC_CALL_ID);
          fatal_error = Some (store64 (buffer + EC_STATUS) CALL_STATUS_BAD_CALL_ID m);
          lookup = (if call_id > of_nat MAX_EDGE_CALL then fatal_error
                    else if unat call_id < length table then
                      (case table ! unat call_id of None \<Rightarrow> fatal_error | Some f \<Rightarrow> Some (f buffer m))
                    else None)
      in case wrap of
           Some sys \<Rightarrow> if call_id = EDGECALL_SYSCALL then Some (sys buffer m) else lookup
         | None \<Rightarrow> lookup)"

text \<open>
  \<open>incoming_syscall\<close>: the arguments are located, the call is made, and the return value is set up.
  \<open>host\<close> is the operating system: from the number, the address of the arguments and the memory it
  gives the value and the memory after the call, or \<open>None\<close> for a number that is not handled.
\<close>

definition syscall_error :: "u64 \<Rightarrow> mem \<Rightarrow> mem" where
  "syscall_error ec m = store64 (ec + EC_STATUS) CALL_STATUS_SYSCALL_FAILED m"

definition syscall_return :: "edge_region \<Rightarrow> u64 \<Rightarrow> u64 \<Rightarrow> mem \<Rightarrow> mem" where
  "syscall_return r ec ret m =
     (let p = edge_call_data_ptr r;
          m = store64 p ret m
      in case edge_call_setup_ret r ec p 8 m of
           (res, m) \<Rightarrow> if res \<noteq> 0 then syscall_error ec m else m)"

definition incoming_syscall ::
  "(u64 \<Rightarrow> u64 \<Rightarrow> mem \<Rightarrow> (u64 \<times> mem) option) \<Rightarrow> edge_region \<Rightarrow> u64 \<Rightarrow> mem \<Rightarrow> mem" where
  "incoming_syscall host r ec m =
     (case fst (edge_call_args_ptr r ec m) of
        (valid, info) \<Rightarrow>
          if valid \<noteq> 0 then syscall_error ec m
          else
            let info = the info;
                m = store64 (ec + EC_STATUS) CALL_STATUS_OK m
            in case host (load64 m info) (info + 8) m of
                 None \<Rightarrow> syscall_error ec m
               | Some (ret, m) \<Rightarrow> syscall_return r ec ret m)"

section \<open>What the checks accept\<close>

definition edge_wf :: "edge_region \<Rightarrow> bool" where
  "edge_wf r \<longleftrightarrow> unat (shared_start r) + unat (shared_len r) < 2 ^ 64"

lemma unat_UINTPTR_MAX: "unat UINTPTR_MAX = 2 ^ 64 - 1"
  by (simp add: UINTPTR_MAX_def unsigned_minus_1_eq_mask mask_eq_exp_minus_1)

lemma gt_max_minus: "x > UINTPTR_MAX - y \<longleftrightarrow> 2 ^ 64 \<le> unat x + unat y" for x y :: u64
proof -
  have "y \<le> UINTPTR_MAX" by (simp add: UINTPTR_MAX_def)
  then have "unat (UINTPTR_MAX - y) = 2 ^ 64 - 1 - unat y" by (simp add: unat_sub unat_UINTPTR_MAX)
  moreover have "unat y < 2 ^ 64" using unsigned_less [of y] by simp
  ultimately show ?thesis unfolding word_less_nat_alt by linarith
qed

lemma get_ptr_from_offset_eq:
  assumes "edge_wf r"
  shows "edge_call_get_ptr_from_offset r off n =
    (if unat off < unat (shared_len r) \<and> unat off + unat n \<le> unat (shared_len r)
     then (0, Some (shared_start r + off)) else (- 1, None))"
proof (cases "unat off < unat (shared_len r)")
  case True
  then have s: "unat (shared_start r + off) = unat (shared_start r) + unat off"
    using assms unfolding edge_wf_def by (intro unat_add_small) linarith
  have l: "unat (shared_len r - off) = unat (shared_len r) - unat off"
    using True by (intro unat_sub) (simp add: word_le_nat_alt)
  show ?thesis using assms True
    unfolding edge_call_get_ptr_from_offset_def gt_max_minus s edge_wf_def
    by (simp add: word_less_nat_alt word_le_nat_alt l) linarith
next
  case False
  then show ?thesis by (simp add: edge_call_get_ptr_from_offset_def word_le_nat_alt)
qed

lemma check_ptr_valid_iff:
  assumes "edge_wf r"
  shows "edge_call_check_ptr_valid r p n = 0 \<longleftrightarrow>
    unat (shared_start r) \<le> unat p \<and> unat p + unat n \<le> unat (shared_start r) + unat (shared_len r)"
proof -
  have s: "unat (shared_start r + shared_len r) = unat (shared_start r) + unat (shared_len r)"
    using assms unfolding edge_wf_def by (rule unat_add_small)
  show ?thesis
  proof (cases "2 ^ 64 \<le> unat n + unat p")
    case True
    then show ?thesis using assms
      unfolding edge_call_check_ptr_valid_def gt_max_minus edge_wf_def by (auto simp: s word_less_nat_alt)
  next
    case False
    then have "unat (p + n) = unat p + unat n" by (intro unat_add_small) linarith
    with False show ?thesis
      unfolding edge_call_check_ptr_valid_def gt_max_minus by (auto simp: s word_less_nat_alt)
  qed
qed

lemma get_offset_from_ptr_eq:
  "edge_call_get_offset_from_ptr r p n =
     (if edge_call_check_ptr_valid r p n = 0 then (0, Some (p - shared_start r))
      else (edge_call_check_ptr_valid r p n, None))"
  by (simp add: edge_call_get_offset_from_ptr_def Let_def)

section \<open>Round trips\<close>

lemma ptr_of_offset_of_ptr:
  assumes wf: "edge_wf r" and ok: "edge_call_get_offset_from_ptr r p n = (0, Some off)"
    and ne: "unat p \<noteq> unat (shared_start r) + unat (shared_len r)"
  shows "edge_call_get_ptr_from_offset r off n = (0, Some p)"
proof -
  have v: "edge_call_check_ptr_valid r p n = 0" and off: "off = p - shared_start r"
    using ok by (auto simp: get_offset_from_ptr_eq split: if_splits)
  from v have le: "unat (shared_start r) \<le> unat p"
    and e: "unat p + unat n \<le> unat (shared_start r) + unat (shared_len r)"
    by (simp_all add: check_ptr_valid_iff [OF wf])
  have "unat off = unat p - unat (shared_start r)"
    unfolding off using le by (intro unat_sub) (simp add: word_le_nat_alt)
  then show ?thesis using le e ne unfolding get_ptr_from_offset_eq [OF wf] by (simp add: off, linarith)
qed

lemma offset_of_ptr_of_offset:
  assumes wf: "edge_wf r" and ok: "edge_call_get_ptr_from_offset r off n = (0, Some p)"
  shows "edge_call_get_offset_from_ptr r p n = (0, Some off)"
proof -
  have o: "unat off < unat (shared_len r)" "unat off + unat n \<le> unat (shared_len r)" "p = shared_start r + off"
    using ok by (auto simp: get_ptr_from_offset_eq [OF wf] split: if_splits)
  have "unat p = unat (shared_start r) + unat off"
    unfolding o(3) using o(1) wf unfolding edge_wf_def by (intro unat_add_small) linarith
  then have "edge_call_check_ptr_valid r p n = 0" using o(2) by (simp add: check_ptr_valid_iff [OF wf])
  then show ?thesis using o(3) by (simp add: get_offset_from_ptr_eq)
qed

text \<open>Fields of a structure do not overlap.\<close>

lemma load_store64_field [simp]:
  fixes a o1 o2 :: u64
  assumes "8 \<le> unat (o2 - o1)" and "unat (o2 - o1) \<le> 2 ^ 64 - 8"
  shows "load64 (store64 (a + o1) w m) (a + o2) = load64 m (a + o2)"
  using assms by (intro load_store64_other) simp_all

lemma setup_call_args_ptr:
  assumes wf: "edge_wf r" and ok: "edge_call_setup_call r ec p n m = (0, m')"
    and ne: "unat p \<noteq> unat (shared_start r) + unat (shared_len r)"
  shows "edge_call_args_ptr r ec m' = ((0, Some p), n)"
proof -
  let ?m = "store64 (ec + EC_ARG_SIZE) n m"
  obtain off where off: "edge_call_get_offset_from_ptr r p n = (0, Some off)"
    and m': "m' = store64 (ec + EC_ARG_OFFSET) off ?m"
    using ok unfolding edge_call_setup_call_def store_offset_def Let_def
    by (auto simp: get_offset_from_ptr_eq split: if_splits)
  have "load64 m' (ec + EC_ARG_SIZE) = n" and "load64 m' (ec + EC_ARG_OFFSET) = off"
    unfolding m' by (simp_all add: EC_ARG_SIZE_def EC_ARG_OFFSET_def)
  then show ?thesis
    using ptr_of_offset_of_ptr [OF wf off ne] by (simp add: edge_call_args_ptr_def)
qed

lemma setup_ret_ret_ptr:
  assumes wf: "edge_wf r" and ok: "edge_call_setup_ret r ec p n m = (0, m')"
    and ne: "unat p \<noteq> unat (shared_start r) + unat (shared_len r)"
  shows "edge_call_ret_ptr r ec m' = ((0, Some p), n)"
proof -
  let ?m = "store64 (ec + EC_RET_SIZE) n m"
  obtain off where off: "edge_call_get_offset_from_ptr r p n = (0, Some off)"
    and m': "m' = store64 (ec + EC_RET_OFFSET) off ?m"
    using ok unfolding edge_call_setup_ret_def store_offset_def Let_def
    by (auto simp: get_offset_from_ptr_eq split: if_splits)
  have "load64 m' (ec + EC_RET_SIZE) = n" and "load64 m' (ec + EC_RET_OFFSET) = off"
    unfolding m' by (simp_all add: EC_RET_SIZE_def EC_RET_OFFSET_def)
  then show ?thesis
    using ptr_of_offset_of_ptr [OF wf off ne] by (simp add: edge_call_ret_ptr_def)
qed

section \<open>Dispatch\<close>

lemma dispatch_unregistered:
  assumes "wrap = None \<or> load64 m (b + EC_CALL_ID) \<noteq> EDGECALL_SYSCALL" and "length table = MAX_EDGE_CALL"
    and "unat (load64 m (b + EC_CALL_ID)) > MAX_EDGE_CALL \<or>
      unat (load64 m (b + EC_CALL_ID)) < MAX_EDGE_CALL \<and> table ! unat (load64 m (b + EC_CALL_ID)) = None"
  shows "incoming_call_dispatch wrap table b m = Some (store64 (b + EC_STATUS) CALL_STATUS_BAD_CALL_ID m)"
  using assms
  by (auto simp: incoming_call_dispatch_def Let_def word_less_nat_alt MAX_EDGE_CALL_def split: option.splits)

lemma dispatch_registered:
  assumes "wrap = None \<or> load64 m (b + EC_CALL_ID) \<noteq> EDGECALL_SYSCALL" and "length table = MAX_EDGE_CALL"
    and "unat (load64 m (b + EC_CALL_ID)) < MAX_EDGE_CALL"
    and "table ! unat (load64 m (b + EC_CALL_ID)) = Some f"
  shows "incoming_call_dispatch wrap table b m = Some (f b m)"
  using assms
  by (auto simp: incoming_call_dispatch_def Let_def word_less_nat_alt MAX_EDGE_CALL_def split: option.splits)

lemma syscall_return_ok:
  assumes wf: "edge_wf r" and len: "56 \<le> unat (shared_len r)"
    and dis: "\<And>o1. o1 < 48 \<Longrightarrow> 8 \<le> unat (edge_call_data_ptr r - (ec + o1)) \<and>
      unat (edge_call_data_ptr r - (ec + o1)) \<le> 2 ^ 64 - 8"
  shows "edge_call_ret_ptr r ec (syscall_return r ec ret m) = ((0, Some (edge_call_data_ptr r)), 8)"
    and "load64 (syscall_return r ec ret m) (edge_call_data_ptr r) = ret"
    and "load64 (syscall_return r ec ret m) (ec + EC_STATUS) = load64 (store64 (edge_call_data_ptr r) ret m) (ec + EC_STATUS)"
proof -
  let ?p = "edge_call_data_ptr r" and ?m = "store64 (edge_call_data_ptr r) ret m"
  have p: "unat ?p = unat (shared_start r) + 48"
    unfolding edge_call_data_ptr_def sizeof_edge_call_def using wf len
    by (subst unat_add_small) (simp_all add: edge_wf_def)
  have "edge_call_check_ptr_valid r ?p 8 = 0" using len by (simp add: check_ptr_valid_iff [OF wf] p)
  then obtain m' where m': "edge_call_setup_ret r ec ?p 8 ?m = (0, m')"
    and e: "m' = store64 (ec + EC_RET_OFFSET) (?p - shared_start r) (store64 (ec + EC_RET_SIZE) 8 ?m)"
    by (simp add: edge_call_setup_ret_def store_offset_def get_offset_from_ptr_eq Let_def)
  have r: "syscall_return r ec ret m = m'" by (simp add: syscall_return_def Let_def m')
  show "edge_call_ret_ptr r ec (syscall_return r ec ret m) = ((0, Some ?p), 8)"
    unfolding r using p len by (intro setup_ret_ret_ptr [OF wf m']) simp
  show "load64 (syscall_return r ec ret m) ?p = ret"
    unfolding r e using dis [of 32] dis [of 40]
    by (simp add: load_store64_other EC_RET_OFFSET_def EC_RET_SIZE_def)
  show "load64 (syscall_return r ec ret m) (ec + EC_STATUS) = load64 ?m (ec + EC_STATUS)"
    unfolding r e by (simp add: EC_RET_OFFSET_def EC_RET_SIZE_def EC_STATUS_def)
qed

section \<open>Properties of edge calls\<close>

text \<open>
  C30. A buffer that an edge call refers to lies in the shared region. The offset and the size in a
  call are accepted exactly when the offset is inside the region and the buffer does not extend
  beyond its end; every byte of an accepted buffer is a byte of the region. No sum wraps around.
\<close>

theorem edge_args_in_region:
  assumes wf: "edge_wf r"
  shows "(case edge_call_args_ptr r ec m of
      ((v, q), n) \<Rightarrow> n = load64 m (ec + EC_ARG_SIZE) \<and>
        (v = 0 \<longleftrightarrow> unat (load64 m (ec + EC_ARG_OFFSET)) < unat (shared_len r) \<and>
           unat (load64 m (ec + EC_ARG_OFFSET)) + unat n \<le> unat (shared_len r)) \<and>
        (case q of None \<Rightarrow> v = - 1
         | Some p \<Rightarrow> v = 0 \<and> unat (shared_start r) \<le> unat p \<and>
             unat p + unat n \<le> unat (shared_start r) + unat (shared_len r)))"
proof -
  have "unat (shared_start r + off) = unat (shared_start r) + unat off" if "unat off < unat (shared_len r)" for off
    using wf that by (intro unat_add_small) (simp add: edge_wf_def)
  then show ?thesis by (simp add: edge_call_args_ptr_def Let_def get_ptr_from_offset_eq [OF wf])
qed

theorem edge_args_in_region_witness:
  "fst (fst (edge_call_args_ptr \<lparr>shared_start = 0x90000000, shared_len = 0x1000\<rparr> 0x90000000
     (store64 (0x90000000 + EC_ARG_OFFSET) 0x1000 (\<lambda>a. 0)))) = - 1"
proof -
  let ?r = "\<lparr>shared_start = 0x90000000, shared_len = 0x1000\<rparr>"
  have "edge_wf ?r" by (simp add: edge_wf_def)
  from edge_args_in_region [OF this, where ec = "0x90000000" and m = "store64 (0x90000000 + EC_ARG_OFFSET) 0x1000 (\<lambda>a. 0)"]
  show ?thesis by (auto simp del: add_numeral_left simp: load_store64 split: prod.splits option.splits)
qed

text \<open>
  C31. Setting up a call and reading it back gives the same buffer. When \<open>edge_call_setup_call\<close>
  accepts a buffer, \<open>edge_call_args_ptr\<close> on the other side returns its address and its size; the same
  holds for \<open>edge_call_setup_ret\<close> and \<open>edge_call_ret_ptr\<close>. The exception is an empty buffer at the end
  of the region, which the first check accepts and the second refuses.
\<close>

theorem edge_call_roundtrip:
  assumes "edge_wf r" and "unat p \<noteq> unat (shared_start r) + unat (shared_len r)"
  shows "(\<forall>m'. edge_call_setup_call r ec p n m = (0, m') \<longrightarrow> edge_call_args_ptr r ec m' = ((0, Some p), n)) \<and>
    (\<forall>m'. edge_call_setup_ret r ec p n m = (0, m') \<longrightarrow> edge_call_ret_ptr r ec m' = ((0, Some p), n))"
  using setup_call_args_ptr [OF assms(1) _ assms(2)] setup_ret_ret_ptr [OF assms(1) _ assms(2)] by blast

theorem edge_call_roundtrip_witness:
  "\<exists>m'. edge_call_setup_call \<lparr>shared_start = 0x90000000, shared_len = 0x1000\<rparr> 0x90000000 0x90000040 16 (\<lambda>a. 0) = (0, m') \<and>
     edge_call_args_ptr \<lparr>shared_start = 0x90000000, shared_len = 0x1000\<rparr> 0x90000000 m' = ((0, Some 0x90000040), 16)"
proof -
  let ?r = "\<lparr>shared_start = 0x90000000, shared_len = 0x1000\<rparr>"
  have wf: "edge_wf ?r" by (simp add: edge_wf_def)
  have ok: "edge_call_check_ptr_valid ?r 0x90000040 16 = 0" by (simp add: check_ptr_valid_iff [OF wf])
  have "fst (edge_call_setup_call ?r 0x90000000 0x90000040 16 (\<lambda>a. 0)) = 0"
    by (simp add: edge_call_setup_call_def store_offset_def get_offset_from_ptr_eq ok Let_def)
  then obtain m' where m': "edge_call_setup_call ?r 0x90000000 0x90000040 16 (\<lambda>a. 0) = (0, m')"
    by (metis prod.collapse)
  then show ?thesis using edge_call_roundtrip [OF wf, of "0x90000040" "0x90000000" 16 "\<lambda>a. 0"] by simp
qed



end
