(* ===== verification/Sha256.thy ===== *)
theory Sha256
  imports Prelude
begin

text \<open>
  SHA-256 as the runtime uses it to check pages (\<open>runtime/crypto/sha256.c\<close>), and its agreement
  with the padding and block iteration of FIPS 180-4. The index of the loop in \<open>sha256_update\<close> is
  a 32-bit word compared with a \<open>size_t\<close>: for a message of \<open>2 ^ 32\<close> bytes or more it never ends,
  which is the result \<open>None\<close>.
\<close>

section \<open>The compression function\<close>

definition ROTLEFT :: "u32 \<Rightarrow> nat \<Rightarrow> u32" where
  "ROTLEFT a b = push_bit b a OR drop_bit (32 - b) a"
definition ROTRIGHT :: "u32 \<Rightarrow> nat \<Rightarrow> u32" where
  "ROTRIGHT a b = drop_bit b a OR push_bit (32 - b) a"
definition CH :: "u32 \<Rightarrow> u32 \<Rightarrow> u32 \<Rightarrow> u32" where
  "CH x y z = (x AND y) XOR (NOT x AND z)"
definition MAJ :: "u32 \<Rightarrow> u32 \<Rightarrow> u32 \<Rightarrow> u32" where
  "MAJ x y z = (x AND y) XOR (x AND z) XOR (y AND z)"
definition EP0 :: "u32 \<Rightarrow> u32" where
  "EP0 x = ROTRIGHT x 2 XOR ROTRIGHT x 13 XOR ROTRIGHT x 22"
definition EP1 :: "u32 \<Rightarrow> u32" where
  "EP1 x = ROTRIGHT x 6 XOR ROTRIGHT x 11 XOR ROTRIGHT x 25"
definition SIG0 :: "u32 \<Rightarrow> u32" where
  "SIG0 x = ROTRIGHT x 7 XOR ROTRIGHT x 18 XOR drop_bit 3 x"
definition SIG1 :: "u32 \<Rightarrow> u32" where
  "SIG1 x = ROTRIGHT x 17 XOR ROTRIGHT x 19 XOR drop_bit 10 x"

text \<open>The round constants \<open>k\<close>, row by row as in \<open>sha256.c\<close>, in decimal.\<close>

definition sha256_k :: "u32 list" where
  "sha256_k =
     [1116352408, 1899447441, 3049323471, 3921009573, 961987163, 1508970993,
      2453635748, 2870763221, 3624381080, 310598401, 607225278, 1426881987,
      1925078388, 2162078206, 2614888103, 3248222580, 3835390401, 4022224774,
      264347078, 604807628, 770255983, 1249150122, 1555081692, 1996064986,
      2554220882, 2821834349, 2952996808, 3210313671, 3336571891, 3584528711,
      113926993, 338241895, 666307205, 773529912, 1294757372, 1396182291,
      1695183700, 1986661051, 2177026350, 2456956037, 2730485921, 2820302411,
      3259730800, 3345764771, 3516065817, 3600352804, 4094571909, 275423344,
      430227734, 506948616, 659060556, 883997877, 958139571, 1322822218,
      1537002063, 1747873779, 1955562222, 2024104815, 2227730452, 2361852424,
      2428436474, 2756734187, 3204031479, 3329325298]"

record SHA256_CTX =
  c256_data :: "u8 list"
  c256_datalen :: nat
  c256_bitlen :: u64
  c256_state :: "u32 list"

text \<open>The message schedule: sixteen big-endian words of the block, then 48 computed ones.\<close>

definition sha256_schedule :: "u8 list \<Rightarrow> u32 list" where
  "sha256_schedule data =
     foldl (\<lambda>m i. m @ [SIG1 (m ! (i - 2)) + m ! (i - 7) + SIG0 (m ! (i - 15)) + m ! (i - 16)])
       (map (\<lambda>i. push_bit 24 (ucast (data ! (4 * i))) OR push_bit 16 (ucast (data ! (4 * i + 1))) OR
                 push_bit 8 (ucast (data ! (4 * i + 2))) OR ucast (data ! (4 * i + 3))) [0..<16])
       [16..<64]"

fun sha256_round :: "u32 list \<Rightarrow> u32 list \<Rightarrow> nat \<Rightarrow> u32 list" where
  "sha256_round m [a, b, c, d, e, f, g, h] i =
     (let t1 = h + EP1 e + CH e f g + sha256_k ! i + m ! i;
          t2 = EP0 a + MAJ a b c
      in [t1 + t2, a, b, c, d + t1, e, f, g])"
| "sha256_round m s i = s"

definition sha256_transform :: "u32 list \<Rightarrow> u8 list \<Rightarrow> u32 list" where
  "sha256_transform state data =
     (let m = sha256_schedule data;
          s = foldl (sha256_round m) state [0..<64]
      in map2 (+) state s)"

section \<open>Hashing\<close>

definition sha256_iv :: "u32 list" where
  "sha256_iv = [0x6a09e667, 0xbb67ae85, 0x3c6ef372, 0xa54ff53a, 0x510e527f, 0x9b05688c, 0x1f83d9ab, 0x5be0cd19]"

text \<open>\<open>sha256_init\<close> leaves the buffer \<open>data\<close> uninitialised: \<open>junk\<close> is what it holds.\<close>

definition sha256_init :: "u8 list \<Rightarrow> SHA256_CTX" where
  "sha256_init junk = \<lparr>c256_data = junk, c256_datalen = 0, c256_bitlen = 0, c256_state = sha256_iv\<rparr>"

definition sha256_byte :: "SHA256_CTX \<Rightarrow> u8 \<Rightarrow> SHA256_CTX" where
  "sha256_byte ctx b =
     (let ctx = ctx\<lparr>c256_data := (c256_data ctx)[c256_datalen ctx := b], c256_datalen := c256_datalen ctx + 1\<rparr>
      in if c256_datalen ctx = 64
         then ctx\<lparr>c256_state := sha256_transform (c256_state ctx) (c256_data ctx),
                  c256_bitlen := c256_bitlen ctx + 512, c256_datalen := 0\<rparr>
         else ctx)"

definition sha256_update :: "SHA256_CTX \<Rightarrow> u8 list \<Rightarrow> SHA256_CTX option" where
  "sha256_update ctx data = (if length data < 2 ^ 32 then Some (foldl sha256_byte ctx data) else None)"

definition zero_fill :: "nat \<Rightarrow> nat \<Rightarrow> u8 list \<Rightarrow> u8 list" where
  "zero_fill i n d = foldl (\<lambda>d j. d[j := 0]) d [i..<n]"

definition put_bitlen :: "u64 \<Rightarrow> u8 list \<Rightarrow> u8 list" where
  "put_bitlen n d =
     d[63 := ucast n, 62 := ucast (drop_bit 8 n), 61 := ucast (drop_bit 16 n), 60 := ucast (drop_bit 24 n),
       59 := ucast (drop_bit 32 n), 58 := ucast (drop_bit 40 n), 57 := ucast (drop_bit 48 n),
       56 := ucast (drop_bit 56 n)]"

definition sha256_output :: "u32 list \<Rightarrow> u8 list" where
  "sha256_output state = concat (map (\<lambda>w. map (\<lambda>i. ucast (drop_bit (24 - i * 8) w AND 0xff)) [0..<4]) state)"

definition sha256_final :: "SHA256_CTX \<Rightarrow> u8 list" where
  "sha256_final ctx =
     (let i = c256_datalen ctx;
          ctx =
            (if c256_datalen ctx < 56
             then ctx\<lparr>c256_data := zero_fill (i + 1) 56 ((c256_data ctx)[i := 0x80])\<rparr>
             else
               let ctx = ctx\<lparr>c256_data := zero_fill (i + 1) 64 ((c256_data ctx)[i := 0x80])\<rparr>;
                   ctx = ctx\<lparr>c256_state := sha256_transform (c256_state ctx) (c256_data ctx)\<rparr>
               in ctx\<lparr>c256_data := zero_fill 0 56 (c256_data ctx)\<rparr>);
          ctx = ctx\<lparr>c256_bitlen := c256_bitlen ctx + of_nat (c256_datalen ctx * 8)\<rparr>;
          ctx = ctx\<lparr>c256_data := put_bitlen (c256_bitlen ctx) (c256_data ctx)\<rparr>
      in sha256_output (sha256_transform (c256_state ctx) (c256_data ctx)))"

section \<open>FIPS 180-4\<close>

text \<open>The message followed by a one bit, zeros and its length in bits, in blocks of 64 bytes.\<close>

definition be64 :: "u64 \<Rightarrow> u8 list" where
  "be64 n = map (\<lambda>i. ucast (drop_bit (56 - 8 * i) n)) [0..<8]"

definition sha256_pad :: "u8 list \<Rightarrow> u8 list" where
  "sha256_pad msg =
     msg @ 0x80 # replicate ((119 - length msg mod 64) mod 64) 0 @ be64 (of_nat (8 * length msg))"

fun iterate_blocks :: "nat \<Rightarrow> u8 list \<Rightarrow> u32 list \<Rightarrow> u32 list" where
  "iterate_blocks 0 xs st = st"
| "iterate_blocks (Suc n) xs st = iterate_blocks n (drop 64 xs) (sha256_transform st (take 64 xs))"

definition sha256_fips :: "u8 list \<Rightarrow> u8 list" where
  "sha256_fips msg =
     (let p = sha256_pad msg in sha256_output (iterate_blocks (length p div 64) p sha256_iv))"

section \<open>The code computes it\<close>

lemma iterate_blocks_append:
  "length xs = 64 * n \<Longrightarrow> iterate_blocks (n + k) (xs @ ys) st = iterate_blocks k ys (iterate_blocks n xs st)"
  by (induction n arbitrary: xs st) simp_all

lemma iterate_two_blocks:
  "length p = 64 \<Longrightarrow> length q = 64 \<Longrightarrow> iterate_blocks 2 (p @ q) st = sha256_transform (sha256_transform st p) q"
  by (simp add: numeral_2_eq_2)

lemma foldl_zero:
  assumes "i \<le> n" and "n \<le> length d"
  shows "zero_fill i n d = take i d @ replicate (n - i) 0 @ drop n d"
  using assms
proof (induction "n - i" arbitrary: i d)
  case 0
  then show ?case by (simp add: zero_fill_def)
next
  case (Suc k)
  have i: "i < n" using Suc.hyps by simp
  have "zero_fill i n d = zero_fill (Suc i) n (d[i := 0])"
    using i by (simp add: zero_fill_def upt_conv_Cons)
  also have "\<dots> = take (Suc i) (d[i := 0]) @ replicate (n - Suc i) 0 @ drop n (d[i := 0])"
    using Suc i by (intro Suc.hyps(1)) simp_all
  also have "\<dots> = take i d @ 0 # replicate (n - Suc i) 0 @ drop n d"
    using i Suc.prems by (simp add: take_Suc_conv_app_nth)
  also have "\<dots> = take i d @ replicate (n - i) 0 @ drop n d"
    using i by (metis Suc_diff_Suc append_Cons replicate_Suc)
  finally show ?case .
qed

lemma put_bitlen_eq:
  assumes "length d = 64"
  shows "put_bitlen n d = take 56 d @ be64 n"
proof -
  define xs ys where "xs = take 56 d" and "ys = drop 56 d"
  have d: "d = xs @ ys" and xs: "length xs = 56" and ys: "length ys = 8"
    using assms by (simp_all add: xs_def ys_def)
  obtain y0 y1 y2 y3 y4 y5 y6 y7 where y: "ys = [y0, y1, y2, y3, y4, y5, y6, y7]"
    using ys by (auto simp: eval_nat_numeral length_Suc_conv)
  have u: "[0..<8] = [0, 1, 2, 3, 4, 5, 6, 7 :: nat]" by (simp add: upt_rec)
  show ?thesis unfolding d y put_bitlen_def be64_def u
    by (simp add: list_update_append xs)
qed

definition hashed :: "u8 list \<Rightarrow> u8 list \<Rightarrow> nat \<Rightarrow> SHA256_CTX \<Rightarrow> bool" where
  "hashed full rest n ctx \<longleftrightarrow>
     length full = 64 * n \<and> length rest < 64 \<and> length (c256_data ctx) = 64 \<and>
     c256_datalen ctx = length rest \<and> take (length rest) (c256_data ctx) = rest \<and>
     c256_bitlen ctx = of_nat (512 * n) \<and> c256_state ctx = iterate_blocks n full sha256_iv"

lemma hashed_byte:
  assumes "hashed full rest n ctx"
  shows "\<exists>full' rest' n'. full' @ rest' = full @ rest @ [b] \<and> hashed full' rest' n' (sha256_byte ctx b)"
proof -
  let ?d = "(c256_data ctx)[length rest := b]"
  have tk: "take (Suc (length rest)) ?d = rest @ [b]"
    using assms by (simp add: hashed_def take_Suc_conv_app_nth)
  show ?thesis
  proof (cases "length rest = 63")
    case True
    then have d: "?d = rest @ [b]" using tk assms by (simp add: hashed_def)
    have "hashed (full @ rest @ [b]) [] (Suc n) (sha256_byte ctx b)"
      using assms True d iterate_blocks_append [of full n 1 "rest @ [b]" sha256_iv]
      by (simp add: hashed_def sha256_byte_def Let_def algebra_simps)
    then show ?thesis by (metis append_Nil2)
  next
    case False
    then have "hashed full (rest @ [b]) n (sha256_byte ctx b)"
      using assms tk by (simp add: hashed_def sha256_byte_def Let_def)
    then show ?thesis by blast
  qed
qed

lemma hashed_update:
  assumes "hashed full rest n ctx"
  shows "\<exists>full' rest' n'. full' @ rest' = full @ rest @ data \<and> hashed full' rest' n' (foldl sha256_byte ctx data)"
  using assms
proof (induction data arbitrary: full rest n ctx)
  case Nil
  then show ?case by auto
next
  case (Cons b data)
  obtain f r k where "f @ r = full @ rest @ [b]" and h: "hashed f r k (sha256_byte ctx b)"
    using hashed_byte [OF Cons.prems] by blast
  then show ?case using Cons.IH [OF h] by (metis append.assoc append_Cons append_Nil foldl_Cons)
qed

lemma hashed_final:
  assumes h: "hashed full rest n ctx"
  shows "sha256_final ctx = sha256_fips (full @ rest)"
proof -
  let ?r = "length rest"
  define N :: u64 where "N = of_nat (8 * length (full @ rest))"
  have f: "length full = 64 * n" and r: "?r < 64" and dl: "length (c256_data ctx) = 64"
    and len: "c256_datalen ctx = ?r" and tk: "take ?r (c256_data ctx) = rest"
    and st: "c256_state ctx = iterate_blocks n full sha256_iv"
    using h by (simp_all add: hashed_def)
  have N: "c256_bitlen ctx + of_nat (?r * 8) = N"
    using h by (simp add: hashed_def N_def algebra_simps)
  have m: "length (full @ rest) mod 64 = ?r" using f r by simp
  have bl: "length (be64 x) = 8" for x by (simp add: be64_def)
  have tk': "take (Suc ?r) ((c256_data ctx)[?r := 0x80]) = rest @ [0x80]"
    using tk r dl by (simp add: take_Suc_conv_app_nth)
  show ?thesis
  proof (cases "?r < 56")
    case True
    let ?p = "rest @ 0x80 # replicate (55 - ?r) 0 @ be64 N"
    have z: "(119 - ?r) mod 64 = 55 - ?r" using True by (simp add: mod_if)
    have d: "put_bitlen N (zero_fill (Suc ?r) 56 ((c256_data ctx)[?r := 0x80])) = ?p"
    proof -
      have "56 - ?r = Suc (55 - ?r)" using True by simp
      then show ?thesis using True dl tk' by (simp add: foldl_zero put_bitlen_eq)
    qed
    have len: "length ?p = 64" using True by (simp add: bl)
    have "sha256_fips (full @ rest) = sha256_output (iterate_blocks (n + 1) (full @ ?p) sha256_iv)"
      unfolding sha256_fips_def sha256_pad_def m z N_def [symmetric] using len f by (simp add: Let_def)
    also have "\<dots> = sha256_output (sha256_transform (c256_state ctx) ?p)"
      using len by (simp only: iterate_blocks_append [OF f]) (simp add: st)
    also have "\<dots> = sha256_final ctx"
      unfolding sha256_final_def Let_def using True N d \<open>c256_datalen ctx = ?r\<close> by simp
    finally show ?thesis by simp
  next
    case False
    let ?p = "rest @ 0x80 # replicate (63 - ?r) 0" and ?q = "replicate 56 0 @ be64 N"
    have z: "(119 - ?r) mod 64 = (63 - ?r) + 56" using False r by simp
    have d: "zero_fill (Suc ?r) 64 ((c256_data ctx)[?r := 0x80]) = ?p"
      using False r dl tk' by (simp add: foldl_zero)
    have lp: "length ?p = 64" and lq: "length ?q = 64" using False r by (simp_all add: bl)
    have d2: "put_bitlen N (zero_fill 0 56 ?p) = ?q" using lp by (simp add: foldl_zero put_bitlen_eq)
    have pad: "sha256_pad (full @ rest) = full @ ?p @ ?q"
      unfolding sha256_pad_def m z N_def [symmetric] by (simp add: replicate_add)
    have "length (full @ ?p @ ?q) div 64 = n + 2" using lp lq f by simp
    then have "sha256_fips (full @ rest) = sha256_output (iterate_blocks (n + 2) (full @ ?p @ ?q) sha256_iv)"
      unfolding sha256_fips_def pad by (simp only: Let_def)
    also have "\<dots> = sha256_output (sha256_transform (sha256_transform (c256_state ctx) ?p) ?q)"
      by (simp only: iterate_blocks_append [OF f] iterate_two_blocks [OF lp lq] st)
    also have "\<dots> = sha256_final ctx"
      unfolding sha256_final_def Let_def using False N d d2 \<open>c256_datalen ctx = ?r\<close> by simp
    finally show ?thesis by simp
  qed
qed

lemma sha256_eq_fips:
  assumes "length junk = 64" and "sha256_update (sha256_init junk) msg = Some ctx"
  shows "sha256_final ctx = sha256_fips msg"
proof -
  have "hashed [] [] 0 (sha256_init junk)" using assms(1) by (simp add: hashed_def sha256_init_def)
  from hashed_update [OF this, of msg] obtain f r n where "f @ r = msg" "hashed f r n ctx"
    using assms(2) by (auto simp: sha256_update_def split: if_splits)
  then show ?thesis using hashed_final by blast
qed

section \<open>Properties of SHA-256\<close>

fun sha256_updates :: "SHA256_CTX \<Rightarrow> u8 list list \<Rightarrow> SHA256_CTX option" where
  "sha256_updates ctx [] = Some ctx"
| "sha256_updates ctx (p # ps) = do { ctx \<leftarrow> sha256_update ctx p; sha256_updates ctx ps }"

lemma sha256_updates_eq:
  "\<forall>p\<in>set parts. length p < 2 ^ 32 \<Longrightarrow> sha256_updates ctx parts = Some (foldl sha256_byte ctx (concat parts))"
  by (induction parts arbitrary: ctx) (auto simp: sha256_update_def)



end
