(* ===== verification/Rt_String.thy ===== *)
theory Rt_String
  imports Prelude
begin

text \<open>
  The string functions of the runtime (\<open>runtime/util/string.c\<close>): \<open>memcpy\<close> and \<open>memset\<close> with their
  word-wise fast paths, \<open>memcmp\<close>, \<open>strcmp\<close>, and \<open>strlen\<close> with its word-at-a-time search for the
  end. Pointers are 64-bit words and every loop compares them as the code does, so a loop that
  wraps around is possible: \<open>None\<close> is a call that does not return.
\<close>

section \<open>Copying and filling\<close>

partial_function (option) copy_words :: "u64 \<Rightarrow> u64 \<Rightarrow> u64 \<Rightarrow> mem \<Rightarrow> (u64 \<times> u64 \<times> mem) option" where
  "copy_words d s e m =
     (if d < e then copy_words (d + 8) (s + 8) e (store64 d (load64 m s) m) else Some (d, s, m))"

partial_function (option) copy_bytes :: "u64 \<Rightarrow> u64 \<Rightarrow> u64 \<Rightarrow> mem \<Rightarrow> mem option" where
  "copy_bytes d s e m = (if d < e then copy_bytes (d + 1) (s + 1) e (m(d := m s)) else Some m)"

definition memcpy :: "u64 \<Rightarrow> u64 \<Rightarrow> u64 \<Rightarrow> mem \<Rightarrow> mem option" where
  "memcpy dest src len m = do {
     (d, s, m) \<leftarrow> (if (dest OR src) AND 7 = 0 then copy_words dest src (dest + len - 7) m
                  else Some (dest, src, m));
     copy_bytes d s (dest + len) m }"

partial_function (option) fill_words :: "u64 \<Rightarrow> u64 \<Rightarrow> u64 \<Rightarrow> mem \<Rightarrow> mem option" where
  "fill_words d e w m = (if d < e then fill_words (d + 8) e w (store64 d w m) else Some m)"

partial_function (option) fill_bytes :: "u64 \<Rightarrow> u64 \<Rightarrow> u8 \<Rightarrow> mem \<Rightarrow> mem option" where
  "fill_bytes d e b m = (if d < e then fill_bytes (d + 1) e b (m(d := b)) else Some m)"

definition repeat_byte :: "u32 \<Rightarrow> u64" where
  "repeat_byte byte =
     (let w = ucast byte AND 0xff;
          w = w OR push_bit 8 w;
          w = w OR push_bit 16 w
      in w OR push_bit 16 (push_bit 16 w))"

definition memset :: "u64 \<Rightarrow> u32 \<Rightarrow> u64 \<Rightarrow> mem \<Rightarrow> mem option" where
  "memset dest byte len m =
     (if (dest OR len) AND 7 = 0 then fill_words dest (dest + len) (repeat_byte byte) m
      else fill_bytes dest (dest + len) (ucast byte) m)"

section \<open>Comparing\<close>

fun memcmp_loop :: "nat \<Rightarrow> u64 \<Rightarrow> u64 \<Rightarrow> mem \<Rightarrow> int" where
  "memcmp_loop 0 s1 s2 m = 0"
| "memcmp_loop (Suc n) s1 s2 m =
     (let u1 = m s1; u2 = m s2
      in if u1 \<noteq> u2 then uint u1 - uint u2 else memcmp_loop n (s1 + 1) (s2 + 1) m)"

definition memcmp :: "u64 \<Rightarrow> u64 \<Rightarrow> u64 \<Rightarrow> mem \<Rightarrow> int" where
  "memcmp s1 s2 n m = memcmp_loop (unat n) s1 s2 m"

partial_function (option) strcmp :: "u64 \<Rightarrow> u64 \<Rightarrow> mem \<Rightarrow> int option" where
  "strcmp s1 s2 m =
     (let c1 = m s1; c2 = m s2
      in if c1 = 0 then Some (uint c1 - uint c2)
         else if c1 = c2 then strcmp (s1 + 1) (s2 + 1) m
         else Some (uint c1 - uint c2))"

section \<open>\<open>strlen\<close>\<close>

definition himagic :: u64 where "himagic = 0x8080808080808080"
definition lomagic :: u64 where "lomagic = 0x0101010101010101"

text \<open>The bytes of a word that may hold the end are tested in order.\<close>

definition find_zero :: "mem \<Rightarrow> u64 \<Rightarrow> nat option" where
  "find_zero m cp = find (\<lambda>i. m (cp + of_nat i) = 0) [0..<8]"

partial_function (option) strlen_words :: "u64 \<Rightarrow> u64 \<Rightarrow> mem \<Rightarrow> u64 option" where
  "strlen_words str p m =
     (let longword = load64 m p in
      if (longword - lomagic) AND NOT longword AND himagic \<noteq> 0
      then (case find_zero m p of
              Some i \<Rightarrow> Some (p - str + of_nat i)
            | None \<Rightarrow> strlen_words str (p + 8) m)
      else strlen_words str (p + 8) m)"

partial_function (option) strlen_bytes :: "u64 \<Rightarrow> u64 \<Rightarrow> mem \<Rightarrow> u64 option" where
  "strlen_bytes str p m =
     (if p AND 7 \<noteq> 0 then if m p = 0 then Some (p - str) else strlen_bytes str (p + 1) m
      else strlen_words str p m)"

definition strlen :: "u64 \<Rightarrow> mem \<Rightarrow> u64 option" where
  "strlen str m = strlen_bytes str str m"

section \<open>Copying copies, filling fills\<close>

lemma word_bytes_bytes_word:
  assumes "length bs = 8"
  shows "word_bytes (bytes_word bs) = bs"
proof (rule nth_equalityI)
  fix i assume "i < length (word_bytes (bytes_word bs))"
  then have i: "i < 8" by simp
  show "word_bytes (bytes_word bs) ! i = bs ! i"
  proof (rule bit_word_eqI)
    fix n assume n: "n < LENGTH(8)"
    have "bit (word_bytes (bytes_word bs) ! i) n \<longleftrightarrow> bit (bytes_word bs) (8 * i + n)"
      using i n by (simp add: word_bytes_def bit_simps)
    also have "\<dots> \<longleftrightarrow> bit (bs ! i) n"
      using i n assms by (simp add: bit_bytes_word)
    finally show "bit (word_bytes (bytes_word bs) ! i) n = bit (bs ! i) n" .
  qed
qed (simp add: assms)

lemma store_load: "store64 d (load64 m s) m = mem_write d (mem_read m s 8) m"
  by (simp add: store64_def load64_def word_bytes_bytes_word)

text \<open>A forward copy of \<open>n\<close> bytes reads each source byte before it is overwritten.\<close>

lemma mem_read_ahead:
  assumes n: "length bs + k \<le> n" and d: "n \<le> unat (d - s)" and L: "length bs < 2 ^ 64"
  shows "mem_read (mem_write d bs m) (s + of_nat (length bs)) k = mem_read m (s + of_nat (length bs)) k"
proof (rule mem_read_cong)
  fix i assume i: "i < k"
  define x where "x = s + of_nat (length bs) + of_nat i"
  define t where "t = unat (x - d)"
  have "\<not> t < length bs"
  proof
    assume t: "t < length bs"
    have "of_nat t = x - d" by (simp add: t_def)
    then have "d - s = of_nat (length bs + i) - of_nat t" by (simp add: x_def algebra_simps)
    also have "\<dots> = of_nat (length bs + i - t)" using t by (subst of_nat_diff) simp_all
    finally have "unat (d - s) = take_bit 64 (length bs + i - t)" by (simp add: unsigned_of_nat)
    also have "\<dots> \<le> length bs + i - t" by (rule take_bit_nat_less_eq_self)
    finally show False using n d i by simp
  qed
  then show "mem_write d bs m (s + of_nat (length bs) + of_nat i) = m (s + of_nat (length bs) + of_nat i)"
    using L by (simp add: mem_write_apply t_def x_def)
qed

lemma copy_bytes_eq:
  assumes "unat d + k = unat e" and "k \<le> unat (d - s)"
  shows "copy_bytes d s e m = Some (mem_write d (mem_read m s k) m)"
  using assms
proof (induction k arbitrary: d s m)
  case 0
  then show ?case by (subst copy_bytes.simps) (simp add: word_less_nat_alt)
next
  case (Suc k)
  have u: "unat (d + 1) = unat d + 1"
    using Suc.prems(1) unat_u64_less [of e] by (subst unat_add_small) simp_all
  have rd: "mem_read (m(d := m s)) (s + 1) k = mem_read m (s + 1) k"
    using mem_read_ahead [of "[m s]" k "Suc k" d s m] Suc.prems(2) by simp
  have "copy_bytes d s e m = copy_bytes (d + 1) (s + 1) e (m(d := m s))"
    using Suc.prems(1) by (subst copy_bytes.simps) (simp add: word_less_nat_alt)
  also have "\<dots> = Some (mem_write (d + 1) (mem_read m (s + 1) k) (m(d := m s)))"
    using Suc.prems by (subst Suc.IH) (simp_all add: u rd)
  finally show ?case by (simp add: mem_read_Suc)
qed

lemma copy_words_eq:
  assumes "unat d + 8 * k + r = unat e" and "r < 8" and "8 * k \<le> unat (d - s)" and "7 \<le> unat e"
  shows "copy_words d s (e - 7) m = Some (d + of_nat (8 * k), s + of_nat (8 * k), mem_write d (mem_read m s (8 * k)) m)"
  using assms
proof (induction k arbitrary: d s m)
  case 0
  have "unat (e - 7) = unat e - 7" using 0(4) by (subst unat_sub) (simp_all add: word_le_nat_alt)
  with 0 have "\<not> d < e - 7" by (simp add: word_less_nat_alt)
  then show ?case by (subst copy_words.simps) simp
next
  case (Suc k)
  let ?m = "mem_write d (mem_read m s 8) m"
  have e7: "unat (e - 7) = unat e - 7" using Suc.prems(4) by (subst unat_sub) (simp_all add: word_le_nat_alt)
  with Suc.prems(1) have lt: "d < e - 7" by (simp add: word_less_nat_alt)
  have u: "unat (d + 8) = unat d + 8"
    using Suc.prems(1) unat_u64_less [of e] by (subst unat_add_small) simp_all
  have rd: "mem_read ?m (s + 8) (8 * k) = mem_read m (s + 8) (8 * k)"
    using mem_read_ahead [of "mem_read m s 8" "8 * k" "8 * Suc k" d s m] Suc.prems(3) by simp
  have sum: "mem_read m s (8 * Suc k) = mem_read m s 8 @ mem_read m (s + 8) (8 * k)"
    using mem_read_add [of m s 8 "8 * k"] by simp
  have "copy_words d s (e - 7) m = copy_words (d + 8) (s + 8) (e - 7) ?m"
    using lt by (subst copy_words.simps) (simp add: store_load)
  also have "\<dots> = Some (d + 8 + of_nat (8 * k), s + 8 + of_nat (8 * k),
      mem_write (d + 8) (mem_read m (s + 8) (8 * k)) ?m)"
    using Suc.prems by (subst Suc.IH) (simp_all add: u rd)
  finally show ?case unfolding sum by (simp add: mem_write_append algebra_simps)
qed

lemma memcpy_copies:
  assumes e: "unat dest + unat len < 2 ^ 64" and d: "unat len \<le> unat (dest - src)" and nz: "dest \<noteq> 0"
  shows "memcpy dest src len m = Some (mem_write dest (mem_read m src (unat len)) m)"
proof (cases "(dest OR src) AND 7 = 0")
  case False
  then show ?thesis using e d by (simp add: memcpy_def copy_bytes_eq unat_add_small)
next
  case True
  define k r where "k = unat len div 8" and "r = unat len mod 8"
  have kr: "unat len = 8 * k + r" "r < 8" by (simp_all add: k_def r_def)
  have E: "unat (dest + len) = unat dest + unat len" using e by (rule unat_add_small)
  have "unat dest mod 8 = 0"
    using True by (simp add: and_7_eq_0_iff [symmetric] bit.conj_disj_distrib2 or_eq_0_iff)
  moreover have "unat dest \<noteq> 0" using nz by (simp add: unat_eq_zero)
  ultimately have "8 \<le> unat dest" using mod_less [of "unat dest" 8] by linarith
  then have "copy_words dest src (dest + len - 7) m =
      Some (dest + of_nat (8 * k), src + of_nat (8 * k), mem_write dest (mem_read m src (8 * k)) m)"
    using d kr E by (intro copy_words_eq [where r = r]) simp_all
  moreover have "copy_bytes (dest + of_nat (8 * k)) (src + of_nat (8 * k)) (dest + len) (mem_write dest (mem_read m src (8 * k)) m) =
      Some (mem_write (dest + of_nat (8 * k)) (mem_read m (src + of_nat (8 * k)) r) (mem_write dest (mem_read m src (8 * k)) m))"
  proof -
    have k: "unat (of_nat (8 * k) :: u64) = 8 * k"
      using kr unat_u64_less [of len] by (simp add: unsigned_of_nat take_bit_nat_eq_self del: of_nat_mult)
    have "unat (dest + of_nat (8 * k)) = unat dest + 8 * k"
      using e kr k by (subst unat_add_small) simp_all
    then show ?thesis
      using d kr E mem_read_ahead [of "mem_read m src (8 * k)" r "unat len" dest src m] unat_u64_less [of len]
      by (subst copy_bytes_eq [where k = r]) simp_all
  qed
  ultimately show ?thesis
    using True by (simp add: memcpy_def kr(1) mem_read_add mem_write_append)
qed

lemma fill_bytes_eq:
  assumes "unat d + k = unat e"
  shows "fill_bytes d e b m = Some (mem_write d (replicate k b) m)"
  using assms
proof (induction k arbitrary: d m)
  case 0
  then show ?case by (subst fill_bytes.simps) (simp add: word_less_nat_alt)
next
  case (Suc k)
  have "unat (d + 1) = unat d + 1"
    using Suc.prems unat_u64_less [of e] by (subst unat_add_small) simp_all
  with Suc show ?case by (subst fill_bytes.simps) (simp add: word_less_nat_alt fun_upd_def)
qed

lemma word_bytes_repeat_byte: "word_bytes (repeat_byte byte) = replicate 8 (ucast byte)"
proof (rule nth_equalityI)
  fix i assume "i < length (word_bytes (repeat_byte byte))"
  then have i: "i < 8" by simp
  show "word_bytes (repeat_byte byte) ! i = replicate 8 (ucast byte) ! i"
  proof (rule bit_word_eqI)
    fix n assume n: "n < LENGTH(8)"
    have ff: "(0xff :: u64) = mask 8" by (simp add: mask_eq_exp_minus_1)
    have "i = 0 \<or> i = 1 \<or> i = 2 \<or> i = 3 \<or> i = 4 \<or> i = 5 \<or> i = 6 \<or> i = 7" using i by linarith
    then have "bit (repeat_byte byte) (8 * i + n) \<longleftrightarrow> bit byte n"
      using n unfolding repeat_byte_def ff Let_def by (elim disjE) (simp_all add: bit_simps)
    then show "bit (word_bytes (repeat_byte byte) ! i) n = bit (replicate 8 (ucast byte :: u8) ! i) n"
      using i n by (simp add: word_bytes_def bit_simps)
  qed
qed simp

lemma fill_words_eq:
  assumes "unat d + 8 * k = unat e"
  shows "fill_words d e (repeat_byte byte) m = Some (mem_write d (replicate (8 * k) (ucast byte)) m)"
  using assms
proof (induction k arbitrary: d m)
  case 0
  then show ?case by (subst fill_words.simps) (simp add: word_less_nat_alt)
next
  case (Suc k)
  have u: "unat (d + 8) = unat d + 8"
    using Suc.prems unat_u64_less [of e] by (subst unat_add_small) simp_all
  have "replicate (8 * Suc k) (ucast byte :: u8) = replicate 8 (ucast byte) @ replicate (8 * k) (ucast byte)"
    using replicate_add [of 8 "8 * k"] by simp
  with Suc u show ?case
    by (subst fill_words.simps) (simp add: word_less_nat_alt store64_def word_bytes_repeat_byte mem_write_append)
qed

lemma memset_fills:
  assumes "unat dest + unat len < 2 ^ 64"
  shows "memset dest byte len m = Some (mem_write dest (replicate (unat len) (ucast byte)) m)"
proof (cases "(dest OR len) AND 7 = 0")
  case True
  have E: "unat (dest + len) = unat dest + unat len" using assms by (rule unat_add_small)
  have "unat len mod 8 = 0"
    using True by (simp add: and_7_eq_0_iff [symmetric] bit.conj_disj_distrib2 or_eq_0_iff)
  then have "8 * (unat len div 8) = unat len" by (simp add: dvd_mult_div_cancel mod_eq_0_iff_dvd)
  then show ?thesis using True E fill_words_eq [of dest "unat len div 8" "dest + len" byte m]
    by (simp add: memset_def)
next
  case False
  then show ?thesis using assms by (simp add: memset_def fill_bytes_eq unat_add_small)
qed

section \<open>Comparing compares\<close>

lemma memcmp_loop_eq_0: "memcmp_loop n s1 s2 m = 0 \<longleftrightarrow> mem_read m s1 n = mem_read m s2 n"
  by (induction n arbitrary: s1 s2) (simp_all add: mem_read_Suc Let_def word_uint_eq_iff)

lemma memcmp_loop_diff:
  assumes "k < n" and "mem_read m s1 k = mem_read m s2 k" and "m (s1 + of_nat k) \<noteq> m (s2 + of_nat k)"
  shows "memcmp_loop n s1 s2 m = uint (m (s1 + of_nat k)) - uint (m (s2 + of_nat k))"
  using assms
proof (induction k arbitrary: n s1 s2)
  case 0
  then obtain n' where "n = Suc n'" using gr0_implies_Suc by blast
  with 0 show ?case by (simp add: Let_def)
next
  case (Suc k)
  then obtain n' where n: "n = Suc n'" using Suc_lessE by blast
  with Suc.prems have "m s1 = m s2" and "mem_read m (s1 + 1) k = mem_read m (s2 + 1) k"
    by (simp_all add: mem_read_Suc)
  with Suc.IH [of n' "s1 + 1" "s2 + 1"] Suc.prems n show ?case by (simp add: Let_def algebra_simps)
qed

text \<open>A C string: \<open>n\<close> bytes that are not zero, then a zero byte.\<close>

definition cstring :: "mem \<Rightarrow> u64 \<Rightarrow> nat \<Rightarrow> bool" where
  "cstring m a n \<longleftrightarrow> (\<forall>i<n. m (a + of_nat i) \<noteq> 0) \<and> m (a + of_nat n) = 0"

lemma cstring_0: "cstring m a 0 \<longleftrightarrow> m a = 0"
  by (simp add: cstring_def)

lemma cstring_Suc: "cstring m a (Suc n) \<longleftrightarrow> m a \<noteq> 0 \<and> cstring m (a + 1) n"
  by (auto simp: cstring_def less_Suc_eq_0_disj algebra_simps)

lemma strcmp_compares:
  assumes "cstring m s1 n" and "cstring m s2 k"
  shows "\<exists>r. strcmp s1 s2 m = Some r \<and> (r = 0 \<longleftrightarrow> mem_read m s1 n = mem_read m s2 k)"
  using assms
proof (induction n arbitrary: s1 s2 k)
  case 0
  then show ?case by (subst strcmp.simps) (cases k; auto simp: cstring_0 cstring_Suc Let_def mem_read_Suc word_uint_eq_iff)
next
  case (Suc n)
  then have c1: "m s1 \<noteq> 0" "cstring m (s1 + 1) n" by (simp_all add: cstring_Suc)
  show ?case
  proof (cases "m s1 = m s2")
    case True
    with c1 Suc.prems(2) obtain k' where k: "k = Suc k'" "cstring m (s2 + 1) k'"
      by (cases k) (auto simp: cstring_0 cstring_Suc)
    with Suc.IH [OF c1(2) k(2)] True c1 show ?thesis
      by (subst strcmp.simps) (simp add: Let_def mem_read_Suc)
  next
    case False
    then show ?thesis using c1
      by (subst strcmp.simps) (cases k; auto simp: Let_def mem_read_Suc word_uint_eq_iff)
  qed
qed

section \<open>The word-at-a-time search misses no zero byte\<close>

lemma byte_of_load64:
  assumes "i < 8"
  shows "unat (m (p + of_nat i)) = unat (load64 m p) div 256 ^ i mod 256"
proof -
  have "m (p + of_nat i) = word_bytes (load64 m p) ! i"
    using assms by (simp add: load64_def word_bytes_bytes_word mem_read_nth)
  also have "\<dots> = ucast (drop_bit (8 * i) (load64 m p))" using assms by (simp add: word_bytes_def)
  finally show ?thesis
    by (simp add: unsigned_ucast_eq unat_drop_bit_eq take_bit_eq_mod [of _ "unat _"] drop_bit_eq_div [of _ "unat _"]
        unsigned_drop_bit_eq unsigned_take_bit_eq power_mult)
      (simp add: take_bit_eq_mod)
qed

text \<open>\<open>ones k\<close> is the number with \<open>k\<close> bytes 1.\<close>

fun ones :: "nat \<Rightarrow> nat" where
  "ones 0 = 0"
| "ones (Suc k) = ones k + 256 ^ k"

lemma mod_Suc_byte: "n mod 256 ^ Suc k = n mod 256 ^ k + 256 ^ k * (n div 256 ^ k mod 256)" for n :: nat
  using mod_mult2_eq [of n "256 ^ k" 256] by (simp add: mult.commute)

lemma ones_le: "(\<And>i. i < k \<Longrightarrow> n div 256 ^ i mod 256 \<noteq> 0) \<Longrightarrow> ones k \<le> n mod 256 ^ k" for n :: nat
proof (induction k)
  case (Suc k)
  then have "ones k \<le> n mod 256 ^ k" and "1 \<le> n div 256 ^ k mod 256" by (simp_all add: Suc_le_eq)
  then show ?case unfolding mod_Suc_byte
    using mult_le_mono2 [of 1 "n div 256 ^ k mod 256" "256 ^ k"] by (simp, linarith)
qed simp

lemma ones_add: "ones (k + j) = ones k + 256 ^ k * ones j"
  by (induction j) (simp_all add: algebra_simps power_add)

lemma ones_less: "ones k < 256 ^ k"
  by (induction k) simp_all

lemma lomagic_ones: "unat lomagic = ones 8"
proof -
  have "ones (Suc (Suc (Suc (Suc (Suc (Suc (Suc (Suc 0)))))))) = 72340172838076673" by simp
  moreover have "Suc (Suc (Suc (Suc (Suc (Suc (Suc (Suc 0))))))) = 8" by simp
  ultimately show ?thesis by (simp only: lomagic_def) simp
qed

lemma lomagic_mod: "k \<le> 8 \<Longrightarrow> unat lomagic mod 256 ^ k = ones k"
  using ones_add [of k "8 - k"] ones_less [of k] by (simp add: lomagic_ones)

lemma himagic_bit: "k < 8 \<Longrightarrow> bit himagic (8 * k + 7)"
proof -
  assume "k < 8"
  then have "k = 0 \<or> k = 1 \<or> k = 2 \<or> k = 3 \<or> k = 4 \<or> k = 5 \<or> k = 6 \<or> k = 7" by linarith
  then show ?thesis by (elim disjE) (simp_all add: himagic_def bit_simps)
qed

lemma sub_mod_range:
  fixes x w S B :: nat
  assumes "(x + (S + B)) mod (256 * B) = w" and "x < 256 * B" and "S \<le> w" and "w < B"
  shows "255 * B \<le> x"
proof (cases "x + (S + B) < 256 * B")
  case True
  then have "x + (S + B) = w" using assms(1) by simp
  then show ?thesis using assms by simp
next
  case False
  have "(x + (S + B)) mod (256 * B) = (x + (S + B) - 256 * B) mod (256 * B)" using False by (simp add: le_mod_geq)
  also have "\<dots> = x + (S + B) - 256 * B" using assms by simp
  finally show ?thesis using assms False by linarith
qed

lemma top_half_odd:
  fixes x n :: nat
  assumes "n \<le> x mod (2 * n)" and "0 < n"
  shows "odd (x div n)"
proof -
  have "x mod (2 * n) = n * (x div n mod 2) + x mod n" using mod_mult2_eq [of x n 2] by (simp add: mult.commute)
  moreover have "x mod n < n" using assms(2) by simp
  ultimately have "x div n mod 2 \<noteq> 0" using assms(1) by (metis add_0 mult_0_right not_le)
  then show ?thesis by (simp add: odd_iff_mod_2_eq_one)
qed

lemma magic_bit:
  assumes k: "k < 8" and z: "unat w div 256 ^ k mod 256 = 0"
    and nz: "\<And>i. i < k \<Longrightarrow> unat w div 256 ^ i mod 256 \<noteq> 0"
  shows "bit ((w - lomagic) AND NOT w AND himagic) (8 * k + 7)"
proof -
  let ?B = "256 ^ k :: nat" and ?D = "w - lomagic"
  have w: "unat w mod 256 ^ Suc k = unat w mod ?B" by (simp only: mod_Suc_byte z)
  have lo: "unat lomagic mod 256 ^ Suc k = ones k + ?B" using lomagic_mod [of "Suc k"] k by simp
  have dv: "(256 :: nat) ^ Suc k dvd 2 ^ 64"
  proof -
    have "(256 :: nat) ^ Suc k dvd 256 ^ 8" using k by (intro le_imp_power_dvd) simp
    then show ?thesis by simp
  qed
  have "unat w = (unat ?D + unat lomagic) mod 2 ^ 64"
    using unat_word_ariths(1) [of ?D lomagic] by simp
  then have "unat w mod 256 ^ Suc k = (unat ?D + unat lomagic) mod 256 ^ Suc k"
    using dv by (simp add: mod_mod_cancel)
  also have "\<dots> = (unat ?D mod 256 ^ Suc k + (ones k + ?B)) mod 256 ^ Suc k"
    by (simp only: lo [symmetric] mod_add_eq)
  finally have "(unat ?D mod (256 * ?B) + (ones k + ?B)) mod (256 * ?B) = unat w mod ?B"
    unfolding w by simp
  then have "255 * ?B \<le> unat ?D mod (256 * ?B)"
    using ones_le [of k "unat w"] nz by (intro sub_mod_range [where w = "unat w mod ?B" and S = "ones k"]) simp_all
  then have ge: "128 * ?B \<le> unat ?D mod (256 * ?B)" by linarith
  have p7: "2 ^ (8 * k + 7) = 128 * ?B" by (simp add: power_add power_mult)
  have "odd (unat ?D div 2 ^ (8 * k + 7))"
    unfolding p7 using ge by (intro top_half_odd) (simp_all add: mult.assoc)
  then have 1: "bit ?D (8 * k + 7)" using k by (simp add: bit_iff_odd [of "unat ?D", symmetric] bit_unsigned_iff)
  have "\<not> bit (unat w) (8 * k + 7)"
  proof -
    have "unat w div 2 ^ (8 * k + 7) = unat w div ?B div 128" by (simp add: power_add power_mult div_mult2_eq)
    moreover have "even (unat w div ?B div 128)"
    proof -
      obtain c where "unat w div ?B = 256 * c" using z by (auto simp: mod_eq_0_iff_dvd dvd_def)
      then have "unat w div ?B div 128 = 2 * c" by simp
      then show ?thesis by simp
    qed
    ultimately show ?thesis by (simp add: bit_iff_odd [of "unat w"])
  qed
  then have 2: "\<not> bit w (8 * k + 7)" using k by (simp add: bit_unsigned_iff)
  show ?thesis using 1 2 himagic_bit [OF k] k by (simp add: bit_simps)
qed

lemma cstring_add: "cstring m a (k + n) \<longleftrightarrow> (\<forall>i<k. m (a + of_nat i) \<noteq> 0) \<and> cstring m (a + of_nat k) n"
proof (induction k arbitrary: a)
  case (Suc k)
  have "(\<forall>i<Suc k. m (a + of_nat i) \<noteq> 0) \<longleftrightarrow> m a \<noteq> 0 \<and> (\<forall>i<k. m (a + 1 + of_nat i) \<noteq> 0)"
    by (auto simp: less_Suc_eq_0_disj algebra_simps)
  then show ?case using Suc.IH [of "a + 1"] by (auto simp: cstring_Suc algebra_simps)
qed simp

lemma find_zero_end:
  assumes "cstring m p n" and "n < 8"
  shows "find_zero m p = Some n"
  using assms unfolding find_zero_def cstring_def by (auto simp: find_Some_iff)

lemma find_zero_none: "(\<And>i. i < 8 \<Longrightarrow> m (p + of_nat i) \<noteq> 0) \<Longrightarrow> find_zero m p = None"
  unfolding find_zero_def by (auto simp: find_None_iff)

lemma magic_test:
  assumes "cstring m p n" and "n < 8"
  shows "(load64 m p - lomagic) AND NOT (load64 m p) AND himagic \<noteq> 0"
proof -
  have "bit ((load64 m p - lomagic) AND NOT (load64 m p) AND himagic) (8 * n + 7)"
  proof (rule magic_bit [OF assms(2)])
    show "unat (load64 m p) div 256 ^ n mod 256 = 0"
      using assms by (simp add: byte_of_load64 [symmetric] cstring_def)
    show "unat (load64 m p) div 256 ^ i mod 256 \<noteq> 0" if "i < n" for i
      using assms that by (simp add: byte_of_load64 [symmetric] cstring_def unat_eq_zero)
  qed
  then show ?thesis by (metis bit_0_eq bot_apply bot_bool_def)
qed

lemma strlen_words_eq: "cstring m p n \<Longrightarrow> strlen_words str p m = Some (p - str + of_nat n)"
proof (induction n arbitrary: p rule: less_induct)
  case (less n)
  show ?case
  proof (cases "n < 8")
    case True
    then show ?thesis using magic_test [OF less.prems] find_zero_end [OF less.prems]
      by (subst strlen_words.simps) (simp add: Let_def)
  next
    case False
    then obtain k where k: "n = 8 + k" using le_Suc_ex by (metis not_less)
    then have nz: "\<And>i. i < 8 \<Longrightarrow> m (p + of_nat i) \<noteq> 0" and c: "cstring m (p + 8) k"
      using less.prems by (auto simp: cstring_add)
    have "strlen_words str p m = strlen_words str (p + 8) m"
      using find_zero_none [of m p] nz by (subst strlen_words.simps) (simp add: Let_def)
    also have "\<dots> = Some (p + 8 - str + of_nat k)" using k c by (intro less.IH) simp_all
    finally show ?thesis by (simp add: k algebra_simps)
  qed
qed

lemma strlen_bytes_eq: "cstring m p n \<Longrightarrow> strlen_bytes str p m = Some (p - str + of_nat n)"
proof (induction n arbitrary: p)
  case 0
  then show ?case using strlen_words_eq [OF 0] by (subst strlen_bytes.simps) (simp add: cstring_0)
next
  case (Suc n)
  then have "m p \<noteq> 0" and c: "cstring m (p + 1) n" by (simp_all add: cstring_Suc)
  then show ?case using Suc.IH [OF c] strlen_words_eq [OF Suc.prems, of str]
    by (subst strlen_bytes.simps) (simp add: algebra_simps)
qed

lemma strlen_eq: "cstring m str n \<Longrightarrow> strlen str m = Some (of_nat n)"
  using strlen_bytes_eq [of m str n str] by (simp add: strlen_def)

section \<open>Properties of the string functions\<close>

text \<open>
  C39. \<open>memcpy\<close> returns and copies: with both pointers aligned it copies words and then the rest,
  otherwise bytes, and in each case the destination holds the bytes of the source, also when the
  destination is a buffer below the source that overlaps it.
\<close>

theorem memcpy_copies_bytes:
  assumes "unat dest + unat len < 2 ^ 64" and "unat len \<le> unat (dest - src)" and "dest \<noteq> 0"
  shows "\<exists>m'. memcpy dest src len m = Some m' \<and> m' = mem_write dest (mem_read m src (unat len)) m \<and>
    mem_read m' dest (unat len) = mem_read m src (unat len) \<and> (\<forall>x. unat len \<le> unat (x - dest) \<longrightarrow> m' x = m x)"
proof -
  let ?m = "mem_write dest (mem_read m src (unat len)) m"
  have "mem_read ?m dest (unat len) = mem_read m src (unat len)"
    using mem_read_write [of "mem_read m src (unat len)" dest m] unat_u64_less [of len] by simp
  moreover have "?m x = m x" if "unat len \<le> unat (x - dest)" for x
    using that unat_u64_less [of len] by (simp add: mem_write_apply)
  ultimately show ?thesis using memcpy_copies [OF assms, of m] by simp
qed

theorem memcpy_copies_bytes_witness:
  "\<exists>m'. memcpy 0x1000 0x2000 11 (\<lambda>a. if a < 0x2000 then 0 else 7) = Some m' \<and>
     mem_read m' 0x1000 11 = mem_read (\<lambda>a. if a < 0x2000 then 0 else 7) 0x2000 11"
  using memcpy_copies_bytes [of "0x1000" 11 "0x2000" "\<lambda>a. if a < 0x2000 then 0 else 7"] by auto

text \<open>
  C40. \<open>strlen\<close> returns the length of every C string, wherever it starts: the test of eight bytes at
  a time with the magic numbers overlooks no zero byte, and a false alarm is checked byte by byte.
\<close>

theorem strlen_returns_length:
  assumes "cstring m str n"
  shows "strlen str m = Some (of_nat n)"
  by (rule strlen_eq [OF assms])

theorem strlen_returns_length_witness:
  "strlen 0x1003 (\<lambda>a. if a = 0x1005 then 0 else 0x80) = Some 2"
  using strlen_returns_length [of "\<lambda>a. if a = 0x1005 then 0 else 0x80" "0x1003" 2]
  by (simp add: cstring_def less_2_cases_iff)

end
