(* ===== verification/Freemem.thy ===== *)
theory Freemem
  imports Rt_String
begin

text \<open>
  The runtime's simple page allocator (\<open>runtime/mm/freemem.c\<close>), in the build without
  demand paging. The free pages form a list that is threaded through the pages themselves: the
  first word of a free page is the address of the next one. Memory is addressed by the runtime's
  virtual addresses. A failed \<open>assert\<close> leaves the enclave: the result is \<open>None\<close>.
\<close>

section \<open>Definitions\<close>

definition RISCV_PAGE_BITS :: nat where [cfg_defs]: "RISCV_PAGE_BITS = 12"
definition RISCV_PAGE_SIZE :: u64 where [cfg_defs]: "RISCV_PAGE_SIZE = 4096"
definition EYRIE_LOAD_START :: u64 where [cfg_defs]: "EYRIE_LOAD_START = 0xffffffff00000000"

definition IS_ALIGNED :: "u64 \<Rightarrow> nat \<Rightarrow> bool" where
  "IS_ALIGNED n b \<longleftrightarrow> n AND mask b = 0"

record pg_list =
  pl_head :: u64
  pl_tail :: u64
  pl_count :: u32

text \<open>The globals of the runtime's memory management (\<open>freemem.c\<close>, \<open>vm.c\<close>, \<open>mm.c\<close>).\<close>

record rt_state =
  spa_free_pages :: pg_list
  rt_memory :: mem
  freemem_va_start :: u64
  freemem_size :: u64
  root_page_table :: u64
  load_pa_start :: u64
  kernel_offset :: u64
  current_program_break :: u64

definition LIST_EMPTY :: "pg_list \<Rightarrow> bool" where
  "LIST_EMPTY l \<longleftrightarrow> pl_count l = 0 \<or> pl_head l = 0"

definition LIST_INIT :: "pg_list \<Rightarrow> pg_list" where
  "LIST_INIT l = l\<lparr>pl_count := 0, pl_head := 0, pl_tail := 0\<rparr>"

definition NEXT_PAGE :: "rt_state \<Rightarrow> u64 \<Rightarrow> u64" where
  "NEXT_PAGE s page = load64 (rt_memory s) page"

definition set_NEXT_PAGE :: "u64 \<Rightarrow> u64 \<Rightarrow> rt_state \<Rightarrow> rt_state" where
  "set_NEXT_PAGE page v s = s\<lparr>rt_memory := store64 page v (rt_memory s)\<rparr>"

definition spa_get_internal :: "bool \<Rightarrow> rt_state \<Rightarrow> (u64 \<times> rt_state) option" where
  "spa_get_internal zero s =
     (if LIST_EMPTY (spa_free_pages s) then Some (0, s)
      else
        let free_page = pl_head (spa_free_pages s) in
        if free_page = 0 then None
        else
          let next = NEXT_PAGE s free_page;
              l = spa_free_pages s;
              s = s\<lparr>spa_free_pages := l\<lparr>pl_head := next, pl_count := pl_count l - 1\<rparr>\<rparr>
          in if \<not> (free_page > EYRIE_LOAD_START \<and> free_page < freemem_va_start s + freemem_size s) then None
             else if zero then do {
               m \<leftarrow> memset free_page 0 RISCV_PAGE_SIZE (rt_memory s);
               Some (free_page, s\<lparr>rt_memory := m\<rparr>) }
             else Some (free_page, s))"

definition spa_get :: "rt_state \<Rightarrow> (u64 \<times> rt_state) option" where
  "spa_get s = spa_get_internal False s"

definition spa_get_zero :: "rt_state \<Rightarrow> (u64 \<times> rt_state) option" where
  "spa_get_zero s = spa_get_internal True s"

definition spa_put :: "u64 \<Rightarrow> rt_state \<Rightarrow> rt_state option" where
  "spa_put page_addr s =
     (if \<not> IS_ALIGNED page_addr RISCV_PAGE_BITS then None
      else if \<not> (page_addr \<ge> EYRIE_LOAD_START \<and> page_addr < freemem_va_start s + freemem_size s) then None
      else do {
        s \<leftarrow> (if \<not> LIST_EMPTY (spa_free_pages s) then
                let prev = pl_tail (spa_free_pages s)
                in if prev = 0 then None else Some (set_NEXT_PAGE prev page_addr s)
              else Some (s\<lparr>spa_free_pages := (spa_free_pages s)\<lparr>pl_head := page_addr\<rparr>\<rparr>));
        let s = set_NEXT_PAGE page_addr 0 s;
        let l = spa_free_pages s;
        Some (s\<lparr>spa_free_pages := l\<lparr>pl_tail := page_addr, pl_count := pl_count l + 1\<rparr>\<rparr>) })"

definition spa_available :: "rt_state \<Rightarrow> u32" where
  "spa_available s = pl_count (spa_free_pages s)"

partial_function (option) spa_init_loop :: "u64 \<Rightarrow> u64 \<Rightarrow> rt_state \<Rightarrow> rt_state option" where
  "spa_init_loop cur e s =
     (if cur < e then do { s \<leftarrow> spa_put cur s; spa_init_loop (cur + RISCV_PAGE_SIZE) e s } else Some s)"

definition spa_init :: "u64 \<Rightarrow> u64 \<Rightarrow> rt_state \<Rightarrow> rt_state option" where
  "spa_init base sz s =
     (let s = s\<lparr>spa_free_pages := LIST_INIT (spa_free_pages s)\<rparr> in
      if \<not> IS_ALIGNED base RISCV_PAGE_BITS then None
      else if \<not> IS_ALIGNED sz RISCV_PAGE_BITS then None
      else spa_init_loop base (base + sz) s)"

section \<open>The interface of a page allocator\<close>

text \<open>
  An allocator holds a list of distinct free pages. Getting a page takes the first, or reports
  that there is none; a page that may be freed and is not free is appended.
\<close>

fun get_pages :: "('s \<Rightarrow> ('p option \<times> 's) option) \<Rightarrow> nat \<Rightarrow> 's \<Rightarrow> ('p list \<times> 's) option" where
  "get_pages get 0 s = Some ([], s)"
| "get_pages get (Suc n) s =
     (case get s of
        None \<Rightarrow> None
      | Some (None, s) \<Rightarrow> Some ([], s)
      | Some (Some p, s) \<Rightarrow> map_option (\<lambda>(ps, s). (p # ps, s)) (get_pages get n s))"

text \<open>A source of pages; an allocator is a source that also takes pages back.\<close>

locale page_source =
  fixes rep :: "'s \<Rightarrow> 'p list \<Rightarrow> bool"
    and get :: "'s \<Rightarrow> ('p option \<times> 's) option"
  assumes rep_distinct: "rep s ps \<Longrightarrow> distinct ps"
    and get_none: "rep s [] \<Longrightarrow> get s = Some (None, s)"
    and get_first: "rep s (p # ps) \<Longrightarrow> \<exists>s'. get s = Some (Some p, s') \<and> rep s' ps"
begin

lemma get_pages_eq:
  "rep s ps \<Longrightarrow> \<exists>s'. get_pages get n s = Some (take n ps, s') \<and> rep s' (drop n ps)"
proof (induction n arbitrary: s ps)
  case (Suc n)
  show ?case
  proof (cases ps)
    case Nil
    then show ?thesis using Suc.prems get_none by auto
  next
    case (Cons p ps')
    then obtain s1 where "get s = Some (Some p, s1)" "rep s1 ps'" using get_first Suc.prems by blast
    then show ?thesis using Suc.IH [of s1 ps'] Cons by auto
  qed
qed auto

lemma get_pages_distinct:
  assumes "rep s ps" and "get_pages get n s = Some (qs, s')"
  shows "qs = take n ps" and "distinct qs" and "rep s' (drop n ps)"
  using get_pages_eq [OF assms(1), of n] rep_distinct [OF assms(1)] assms(2) by (auto simp: distinct_take)

end

locale page_allocator = page_source rep get
  for rep :: "'s \<Rightarrow> 'p list \<Rightarrow> bool" and get :: "'s \<Rightarrow> ('p option \<times> 's) option" +
  fixes put :: "'p \<Rightarrow> 's \<Rightarrow> 's option"
    and may_free :: "'s \<Rightarrow> 'p \<Rightarrow> bool"
    and capacity :: nat
  assumes get_frees: "rep s (p # ps) \<Longrightarrow> get s = Some (Some p, s') \<Longrightarrow> may_free s' p \<and> may_free s' = may_free s"
    and put_page: "rep s ps \<Longrightarrow> may_free s p \<Longrightarrow> p \<notin> set ps \<Longrightarrow> length ps < capacity \<Longrightarrow>
      \<exists>s'. put p s = Some s' \<and> rep s' (ps @ [p]) \<and> may_free s' = may_free s"
begin

lemma get_put_get:
  assumes "rep s (p # ps)" and "length ps < capacity"
  shows "\<exists>s1 s2. get s = Some (Some p, s1) \<and> put p s1 = Some s2 \<and> rep s2 (ps @ [p])"
proof -
  obtain s1 where s1: "get s = Some (Some p, s1)" "rep s1 ps" using get_first [OF assms(1)] by blast
  then have "may_free s1 p" using get_frees [OF assms(1)] by blast
  moreover have "p \<notin> set ps" using rep_distinct [OF assms(1)] by simp
  ultimately show ?thesis using put_page [OF s1(2)] s1(1) assms(2) by blast
qed

end

section \<open>Pages do not overlap\<close>

lemma is_aligned_iff: "IS_ALIGNED a RISCV_PAGE_BITS \<longleftrightarrow> unat a mod 4096 = 0"
  using and_mask_eq_0_iff [of a 12] by (simp add: IS_ALIGNED_def RISCV_PAGE_BITS_def)

lemma page_offset_range:
  assumes a: "IS_ALIGNED a RISCV_PAGE_BITS" and b: "IS_ALIGNED b RISCV_PAGE_BITS" and "a \<noteq> b" and i: "i < 4096"
  shows "4096 \<le> unat (b + of_nat i - a)"
proof -
  have m: "unat a mod 4096 = 0" "unat b mod 4096 = 0" using a b by (simp_all add: is_aligned_iff)
  have "unat (b - a) mod 4096 = 0"
  proof (cases "a \<le> b")
    case True
    then have "unat (b - a) = unat b - unat a" by (simp add: unat_sub)
    then show ?thesis using m by (simp add: mod_eq_0_iff_dvd)
  next
    case False
    then have "unat (b - a) = 2 ^ 64 - (unat a - unat b)"
      using unat_u64_less [of a] by (simp add: unat_sub_if' word_le_nat_alt)
    moreover have "(4096 :: nat) dvd 2 ^ 64" by simp
    ultimately show ?thesis using m by (simp add: mod_eq_0_iff_dvd)
  qed
  moreover have "unat (b - a) \<noteq> 0" using \<open>a \<noteq> b\<close> by (simp add: unat_eq_zero)
  moreover define q where "q = unat (b - a) div 4096"
  ultimately have q: "unat (b - a) = 4096 * q" "0 < q" using mult_div_mod_eq [of 4096 "unat (b - a)"] by auto
  have "4096 * q < 4096 * 2 ^ 52" using q(1) unat_u64_less [of "b - a"] by simp
  then have "q < 2 ^ 52" by simp
  then have "unat (b - a) + i < 2 ^ 64" using q i by simp
  moreover have "unat (of_nat i :: u64) = i" using i by (simp add: unsigned_of_nat take_bit_nat_eq_self)
  ultimately have "unat (b - a + of_nat i) = unat (b - a) + i" using unat_add_small [of "b - a" "of_nat i"] by simp
  moreover have e: "b + of_nat i - a = b - a + of_nat i" by simp
  ultimately show ?thesis unfolding e using q by simp
qed

lemma load64_cong: "(\<And>i. i < 8 \<Longrightarrow> m (p + of_nat i) = m' (p + of_nat i)) \<Longrightarrow> load64 m p = load64 m' p"
  using mem_read_cong [of 8 m p m'] by (simp add: load64_def)

lemma load64_other_page:
  assumes "IS_ALIGNED a RISCV_PAGE_BITS" and "IS_ALIGNED b RISCV_PAGE_BITS" and "a \<noteq> b" and "length bs \<le> 4096"
  shows "load64 (mem_write a bs m) b = load64 m b"
proof (rule load64_cong)
  fix i :: nat assume "i < 8"
  then have "4096 \<le> unat (b + of_nat i - a)" using assms by (intro page_offset_range) simp_all
  then show "mem_write a bs m (b + of_nat i) = m (b + of_nat i)" using assms(4) by (simp add: mem_write_apply)
qed

lemma load_store64_page:
  assumes "IS_ALIGNED a RISCV_PAGE_BITS" and "IS_ALIGNED b RISCV_PAGE_BITS" and "a \<noteq> b"
  shows "load64 (store64 a v m) b = load64 m b"
  using assms unfolding store64_def by (intro load64_other_page) simp_all

section \<open>The list of free pages\<close>

text \<open>\<open>chain m ps\<close>: each page of \<open>ps\<close> points to the next and the last one holds 0.\<close>

fun chain :: "mem \<Rightarrow> u64 list \<Rightarrow> bool" where
  "chain m [] = True"
| "chain m [p] = (load64 m p = 0)"
| "chain m (p # q # ps) = (load64 m p = q \<and> chain m (q # ps))"

definition page_ok :: "rt_state \<Rightarrow> u64 \<Rightarrow> bool" where
  "page_ok s p \<longleftrightarrow> IS_ALIGNED p RISCV_PAGE_BITS \<and> p > EYRIE_LOAD_START \<and>
     unat p + 4096 \<le> unat (freemem_va_start s + freemem_size s)"

definition spa_rep :: "rt_state \<Rightarrow> u64 list \<Rightarrow> bool" where
  "spa_rep s ps \<longleftrightarrow>
     distinct ps \<and> (\<forall>p\<in>set ps. page_ok s p) \<and> chain (rt_memory s) ps \<and>
     length ps < 2 ^ 32 \<and> pl_count (spa_free_pages s) = of_nat (length ps) \<and>
     (ps \<noteq> [] \<longrightarrow> pl_head (spa_free_pages s) = hd ps \<and> pl_tail (spa_free_pages s) = last ps)"

lemma page_ok_nonzero: "page_ok s p \<Longrightarrow> p \<noteq> 0"
  by (auto simp: page_ok_def word_less_nat_alt)

lemma chain_cong: "(\<And>p. p \<in> set ps \<Longrightarrow> load64 m p = load64 m' p) \<Longrightarrow> chain m ps = chain m' ps"
  by (induction m ps rule: chain.induct) simp_all

lemma chain_tl: "chain m (p # ps) \<Longrightarrow> chain m ps"
  by (cases ps) simp_all

lemma chain_hd: "chain m (p # ps) \<Longrightarrow> load64 m p = (if ps = [] then 0 else hd ps)"
  by (cases ps) simp_all

lemma chain_snoc:
  assumes "chain m ps" and "ps \<noteq> []"
    and "load64 m' (last ps) = p" and "load64 m' p = 0"
    and "\<And>q. q \<in> set (butlast ps) \<Longrightarrow> load64 m' q = load64 m q"
  shows "chain m' (ps @ [p])"
  using assms by (induction m ps rule: chain.induct) (auto split: if_splits)

lemma rep_empty_iff: "spa_rep s ps \<Longrightarrow> LIST_EMPTY (spa_free_pages s) \<longleftrightarrow> ps = []"
proof (cases ps)
  case (Cons p qs)
  assume r: "spa_rep s ps"
  then have "pl_count (spa_free_pages s) \<noteq> 0"
    using Cons of_nat_neq_0 [where ?'a = 32, of "length ps"] by (auto simp: spa_rep_def simp del: of_nat_Suc)
  moreover have "pl_head (spa_free_pages s) \<noteq> 0"
    using r Cons page_ok_nonzero by (auto simp: spa_rep_def)
  ultimately show ?thesis using Cons by (simp add: LIST_EMPTY_def)
qed (simp add: spa_rep_def LIST_EMPTY_def)

lemma spa_get_none: "spa_rep s [] \<Longrightarrow> spa_get_internal z s = Some (0, s)"
  using rep_empty_iff [of s "[]"] by (simp add: spa_get_internal_def)

lemma spa_get_some:
  assumes r: "spa_rep s (p # ps)"
  shows "\<exists>s'. spa_get_internal z s = Some (p, s') \<and> spa_rep s' ps \<and>
    rt_memory s' = (if z then mem_write p (replicate 4096 0) (rt_memory s) else rt_memory s) \<and>
    freemem_va_start s' = freemem_va_start s \<and> freemem_size s' = freemem_size s \<and>
    root_page_table s' = root_page_table s \<and> load_pa_start s' = load_pa_start s"
proof -
  let ?l = "(spa_free_pages s)\<lparr>pl_head := (if ps = [] then 0 else hd ps), pl_count := pl_count (spa_free_pages s) - 1\<rparr>"
  let ?s = "s\<lparr>spa_free_pages := ?l\<rparr>"
  have ok: "page_ok s p" and np: "p \<notin> set ps" using r by (auto simp: spa_rep_def)
  have ne: "\<not> LIST_EMPTY (spa_free_pages s)" using rep_empty_iff [OF r] by simp
  have h: "pl_head (spa_free_pages s) = p" "load64 (rt_memory s) p = (if ps = [] then 0 else hd ps)"
    using r by (auto simp: spa_rep_def dest: chain_hd)
  have rep': "spa_rep (?s\<lparr>rt_memory := m\<rparr>) ps" if "\<And>q. q \<in> set ps \<Longrightarrow> load64 m q = load64 (rt_memory s) q" for m
    using r that chain_cong [of ps m "rt_memory s"] chain_tl [of "rt_memory s" p ps]
    by (auto simp: spa_rep_def page_ok_def)
  have ms: "memset p 0 RISCV_PAGE_SIZE m = Some (mem_write p (replicate 4096 0) m)" for m
  proof -
    have "unat p + 4096 < 2 ^ 64"
      using ok unat_u64_less [of "freemem_va_start s + freemem_size s"] by (simp add: page_ok_def)
    then have "memset p 0 RISCV_PAGE_SIZE m = Some (mem_write p (replicate (unat RISCV_PAGE_SIZE) (ucast (0 :: u32))) m)"
      by (intro memset_fills) (simp add: RISCV_PAGE_SIZE_def)
    then show ?thesis by (simp add: RISCV_PAGE_SIZE_def)
  qed
  have lt: "p < freemem_va_start s + freemem_size s" "EYRIE_LOAD_START < p"
    using ok by (simp_all add: page_ok_def word_less_nat_alt)
  have oth: "load64 (mem_write p (replicate 4096 0) (rt_memory s)) q = load64 (rt_memory s) q" if "q \<in> set ps" for q
    using that r np ok by (intro load64_other_page) (auto simp: spa_rep_def page_ok_def)
  show ?thesis
  proof (cases z)
    case True
    then show ?thesis using ne h ok lt page_ok_nonzero [OF ok] rep' [OF oth]
      by (simp add: spa_get_internal_def Let_def NEXT_PAGE_def ms)
  next
    case False
    then show ?thesis using ne h ok lt page_ok_nonzero [OF ok] rep' [of "rt_memory s"]
      by (simp add: spa_get_internal_def Let_def NEXT_PAGE_def)
  qed
qed

lemma spa_put_page:
  assumes r: "spa_rep s ps" and ok: "page_ok s p" and np: "p \<notin> set ps" and len: "length ps < 2 ^ 32 - 1"
  shows "\<exists>s'. spa_put p s = Some s' \<and> spa_rep s' (ps @ [p]) \<and>
    freemem_va_start s' = freemem_va_start s \<and> freemem_size s' = freemem_size s \<and>
    root_page_table s' = root_page_table s \<and> load_pa_start s' = load_pa_start s \<and>
    rt_memory s' = store64 p 0 (if ps = [] then rt_memory s else store64 (last ps) p (rt_memory s))"
proof -
  let ?m = "store64 p 0 (if ps = [] then rt_memory s else store64 (last ps) p (rt_memory s))"
  let ?l = "\<lparr>pl_head = (if ps = [] then p else hd ps), pl_tail = p, pl_count = pl_count (spa_free_pages s) + 1\<rparr>"
  let ?s = "s\<lparr>spa_free_pages := ?l, rt_memory := ?m\<rparr>"
  have lt: "p < freemem_va_start s + freemem_size s" "EYRIE_LOAD_START \<le> p" "IS_ALIGNED p RISCV_PAGE_BITS"
    using ok by (simp_all add: page_ok_def word_less_nat_alt word_le_nat_alt)
  have okl: "page_ok s q" if "q \<in> set ps" for q using r that by (simp add: spa_rep_def)
  have put: "spa_put p s = Some ?s"
  proof (cases "ps = []")
    case True
    then show ?thesis using rep_empty_iff [OF r] lt
      by (simp add: spa_put_def set_NEXT_PAGE_def Let_def)
  next
    case False
    then have "pl_tail (spa_free_pages s) = last ps" "pl_head (spa_free_pages s) = hd ps" "last ps \<noteq> 0"
      using r okl [of "last ps"] page_ok_nonzero [of s "last ps"] by (simp_all add: spa_rep_def)
    then show ?thesis using False rep_empty_iff [OF r] lt
      by (simp add: spa_put_def set_NEXT_PAGE_def Let_def)
  qed
  have al: "IS_ALIGNED q RISCV_PAGE_BITS" if "q \<in> set ps" for q using okl [OF that] by (simp add: page_ok_def)
  have ch: "chain ?m (ps @ [p])"
  proof (cases "ps = []")
    case True
    then show ?thesis by simp
  next
    case False
    have lp: "last ps \<noteq> p" "last ps \<in> set ps" using np False by auto
    show ?thesis
    proof (rule chain_snoc [of "rt_memory s"])
      show "chain (rt_memory s) ps" "ps \<noteq> []" using r False by (simp_all add: spa_rep_def)
      show "load64 ?m (last ps) = p" using False lp al lt by (simp add: load_store64_page)
      show "load64 ?m p = 0" by simp
      fix q assume q: "q \<in> set (butlast ps)"
      have "distinct ps" using r by (simp add: spa_rep_def)
      then have "q \<noteq> last ps" using q False
        by (metis append_butlast_last_id distinct_append disjoint_insert(1) list.set(1) list.simps(15) Int_insert_right_if1 insert_not_empty)
      moreover have "q \<in> set ps" "q \<noteq> p" using q np by (auto dest: in_set_butlastD)
      ultimately show "load64 ?m q = load64 (rt_memory s) q"
        using False lp al lt by (simp add: load_store64_page)
    qed
  qed
  have "spa_rep ?s (ps @ [p])"
    using r ok np len ch by (auto simp: spa_rep_def page_ok_def hd_append)
  with put show ?thesis by auto
qed

text \<open>The interface with the page address 0 read as \<open>None\<close>.\<close>

definition spa_get_page :: "bool \<Rightarrow> rt_state \<Rightarrow> (u64 option \<times> rt_state) option" where
  "spa_get_page z s = map_option (\<lambda>(p, s). (if p = 0 then None else Some p, s)) (spa_get_internal z s)"

interpretation spa: page_allocator spa_rep "spa_get_page z" spa_put page_ok "2 ^ 32 - 1"
proof
  fix s ps
  show "spa_rep s ps \<Longrightarrow> distinct ps" by (simp add: spa_rep_def)
  show "spa_rep s [] \<Longrightarrow> spa_get_page z s = Some (None, s)"
    by (simp add: spa_get_page_def spa_get_none)
next
  fix s p ps assume r: "spa_rep s (p # ps)"
  then have ok: "page_ok s p" by (simp add: spa_rep_def)
  from spa_get_some [OF r, of z] page_ok_nonzero [OF ok] ok
  show "\<exists>s'. spa_get_page z s = Some (Some p, s') \<and> spa_rep s' ps"
    and "spa_get_page z s = Some (Some p, s') \<Longrightarrow> page_ok s' p \<and> page_ok s' = page_ok s" for s'
    by (auto simp: spa_get_page_def page_ok_def fun_eq_iff)
next
  fix s ps p assume "spa_rep s ps" "page_ok s p" "p \<notin> set ps" "length ps < 2 ^ 32 - 1"
  from spa_put_page [OF this]
  show "\<exists>s'. spa_put p s = Some s' \<and> spa_rep s' (ps @ [p]) \<and> page_ok s' = page_ok s"
    by (fastforce simp: page_ok_def fun_eq_iff)
qed

section \<open>Initialisation puts every page on the list\<close>

definition pages_from :: "u64 \<Rightarrow> nat \<Rightarrow> u64 list" where
  "pages_from base n = map (\<lambda>i. base + of_nat (4096 * i)) [0..<n]"

lemma pages_from_Suc: "pages_from base (Suc n) = base # pages_from (base + 4096) n"
  by (rule nth_equalityI) (auto simp: pages_from_def nth_Cons' algebra_simps less_Suc_eq_0_disj simp del: upt_Suc)

lemma spa_init_loop_eq:
  assumes "spa_rep s ps" and "unat cur + 4096 * n = unat e" and "distinct (ps @ pages_from cur n)"
    and "\<And>p. p \<in> set (pages_from cur n) \<Longrightarrow> page_ok s p" and "length ps + n < 2 ^ 32"
  shows "\<exists>s'. spa_init_loop cur e s = Some s' \<and> spa_rep s' (ps @ pages_from cur n)"
  using assms
proof (induction n arbitrary: cur s ps)
  case 0
  then show ?case by (subst spa_init_loop.simps) (simp add: word_less_nat_alt pages_from_def)
next
  case (Suc n)
  have P: "pages_from cur (Suc n) = cur # pages_from (cur + 4096) n" by (rule pages_from_Suc)
  obtain s1 where s1: "spa_put cur s = Some s1" "spa_rep s1 (ps @ [cur])"
    "freemem_va_start s1 = freemem_va_start s" "freemem_size s1 = freemem_size s"
    using spa_put_page [OF Suc.prems(1), of cur] Suc.prems(3,4,5) by (auto simp: P)
  have u: "unat (cur + 4096) = unat cur + 4096"
    using Suc.prems(2) unat_u64_less [of e] by (subst unat_add_small) simp_all
  have "\<exists>s'. spa_init_loop (cur + 4096) e s1 = Some s' \<and> spa_rep s' ((ps @ [cur]) @ pages_from (cur + 4096) n)"
    using Suc.prems s1 u by (intro Suc.IH) (auto simp: P page_ok_def)
  moreover have "spa_init_loop cur e s = spa_init_loop (cur + 4096) e s1"
    using Suc.prems(2) s1(1) by (subst spa_init_loop.simps) (simp add: word_less_nat_alt RISCV_PAGE_SIZE_def)
  ultimately show ?case by (simp add: P)
qed

lemma pages_from_props:
  assumes al: "IS_ALIGNED base RISCV_PAGE_BITS" and lo: "EYRIE_LOAD_START < base"
    and e: "unat base + 4096 * n \<le> unat (freemem_va_start s + freemem_size s)"
  shows "distinct (pages_from base n)" and "p \<in> set (pages_from base n) \<Longrightarrow> page_ok s p"
proof -
  have u: "unat (base + of_nat (4096 * i)) = unat base + 4096 * i" if "i < n" for i
  proof -
    have "unat base + 4096 * i < 2 ^ 64"
      using that e unat_u64_less [of "freemem_va_start s + freemem_size s"] by linarith
    moreover from this have "unat (of_nat (4096 * i) :: u64) = 4096 * i"
      by (simp add: unsigned_of_nat take_bit_nat_eq_self del: of_nat_mult)
    ultimately show ?thesis by (simp add: unat_add_small del: of_nat_mult)
  qed
  show "distinct (pages_from base n)"
    unfolding pages_from_def distinct_map using u
    by (auto intro!: inj_onI dest: arg_cong [where f = unat] simp del: of_nat_mult)
  assume "p \<in> set (pages_from base n)"
  then obtain i where i: "i < n" "p = base + of_nat (4096 * i)" by (auto simp: pages_from_def)
  have "unat p mod 4096 = 0" using al by (simp add: i u is_aligned_iff del: of_nat_mult)
  moreover have "unat p + 4096 \<le> unat (freemem_va_start s + freemem_size s)" using e i u [OF i(1)] by simp
  moreover have "EYRIE_LOAD_START < p" using lo u [OF i(1)] by (simp add: i word_less_nat_alt del: of_nat_mult)
  ultimately show "page_ok s p" by (simp add: page_ok_def is_aligned_iff)
qed

lemma spa_init_pages:
  assumes al: "IS_ALIGNED base RISCV_PAGE_BITS" "IS_ALIGNED sz RISCV_PAGE_BITS" and lo: "EYRIE_LOAD_START < base"
    and nw: "unat base + unat sz < 2 ^ 64" and end_: "unat (base + sz) \<le> unat (freemem_va_start s + freemem_size s)"
    and n: "unat sz div 4096 < 2 ^ 32"
  shows "\<exists>s'. spa_init base sz s = Some s' \<and> spa_rep s' (pages_from base (unat sz div 4096)) \<and>
    spa_available s' = of_nat (unat sz div 4096)"
proof -
  let ?n = "unat sz div 4096" and ?s = "s\<lparr>spa_free_pages := LIST_INIT (spa_free_pages s)\<rparr>"
  have sz: "4096 * ?n = unat sz" using al(2) by (simp add: is_aligned_iff mod_eq_0_iff_dvd)
  have e: "unat (base + sz) = unat base + unat sz" using nw by (rule unat_add_small)
  have r: "spa_rep ?s []" by (simp add: spa_rep_def LIST_INIT_def)
  have P: "distinct (pages_from base ?n)" "\<And>p. p \<in> set (pages_from base ?n) \<Longrightarrow> page_ok ?s p"
    using pages_from_props [OF al(1) lo, of ?n ?s] end_ e sz by auto
  obtain s' where s': "spa_init_loop base (base + sz) ?s = Some s'" "spa_rep s' (pages_from base ?n)"
    using spa_init_loop_eq [OF r, of base ?n "base + sz"] e sz P n by auto
  moreover have "length (pages_from base ?n) = ?n" by (simp add: pages_from_def)
  ultimately show ?thesis using al by (auto simp: spa_init_def Let_def spa_available_def spa_rep_def)
qed

section \<open>The allocator of the loader\<close>

text \<open>
  \<open>runtime/mm/freemem_ld.c\<close>, the allocator linked into the loader: the free pages are the range
  from \<open>freeBase\<close> to \<open>freeEnd\<close>, taken in order and never given back.
\<close>

record ld_state =
  ld_memory :: mem
  freeBase :: u64
  freeEnd :: u64

definition ld_spa_init :: "u64 \<Rightarrow> u64 \<Rightarrow> ld_state \<Rightarrow> ld_state" where
  "ld_spa_init base sz s = s\<lparr>freeBase := base, freeEnd := base + sz\<rparr>"

definition ld_spa_get_zero :: "ld_state \<Rightarrow> (u64 \<times> ld_state) option" where
  "ld_spa_get_zero s =
     (if freeBase s \<ge> freeEnd s then Some (0, s)
      else do {
        m \<leftarrow> memset (freeBase s) 0 RISCV_PAGE_SIZE (ld_memory s);
        Some (freeBase s, s\<lparr>ld_memory := m, freeBase := freeBase s + RISCV_PAGE_SIZE\<rparr>) })"

definition ld_spa_get :: "ld_state \<Rightarrow> (u64 \<times> ld_state) option" where
  "ld_spa_get s = ld_spa_get_zero s"

definition ld_spa_put :: "u64 \<Rightarrow> ld_state \<Rightarrow> ld_state option" where
  "ld_spa_put page s = None"

definition ld_spa_available :: "ld_state \<Rightarrow> u32" where
  "ld_spa_available s = ucast ((freeEnd s - freeBase s) div RISCV_PAGE_SIZE)"

definition ld_rep :: "ld_state \<Rightarrow> u64 list \<Rightarrow> bool" where
  "ld_rep s ps \<longleftrightarrow> unat (freeBase s) + 4096 * length ps = unat (freeEnd s) \<and> freeBase s \<noteq> 0 \<and>
     ps = pages_from (freeBase s) (length ps)"

lemma ld_get_none: "ld_rep s [] \<Longrightarrow> ld_spa_get_zero s = Some (0, s)"
  by (simp add: ld_rep_def ld_spa_get_zero_def word_le_nat_alt)

lemma ld_get_some:
  assumes "ld_rep s (p # ps)"
  shows "\<exists>s'. ld_spa_get_zero s = Some (p, s') \<and> p \<noteq> 0 \<and> ld_rep s' ps \<and>
    ld_memory s' = mem_write p (replicate 4096 0) (ld_memory s)"
proof -
  have p: "p = freeBase s" "ps = pages_from (freeBase s + 4096) (length ps)" "p \<noteq> 0"
    and e: "unat p + 4096 * Suc (length ps) = unat (freeEnd s)"
    using assms by (auto simp: ld_rep_def pages_from_Suc simp del: of_nat_mult)
  have lt: "unat p + 4096 < 2 ^ 64" using e unat_u64_less [of "freeEnd s"] by simp
  have "memset p 0 RISCV_PAGE_SIZE (ld_memory s) =
      Some (mem_write p (replicate (unat RISCV_PAGE_SIZE) (ucast (0 :: u32))) (ld_memory s))"
    using lt by (intro memset_fills) (simp add: RISCV_PAGE_SIZE_def)
  then have m: "memset p 0 RISCV_PAGE_SIZE (ld_memory s) = Some (mem_write p (replicate 4096 0) (ld_memory s))"
    by (simp add: RISCV_PAGE_SIZE_def)
  have u: "unat (p + 4096) = unat p + 4096" using lt by (subst unat_add_small) simp_all
  have "\<not> freeEnd s \<le> p" using e by (simp add: word_le_nat_alt)
  moreover have "p + 4096 \<noteq> 0" using u by (metis add_is_0 unat_eq_zero zero_neq_numeral)
  ultimately show ?thesis
    using m u e p by (auto simp: ld_spa_get_zero_def ld_rep_def RISCV_PAGE_SIZE_def)
qed

lemma ld_rep_distinct: "ld_rep s ps \<Longrightarrow> distinct ps"
proof -
  assume r: "ld_rep s ps"
  have u: "unat (freeBase s + of_nat (4096 * i)) = unat (freeBase s) + 4096 * i" if "i < length ps" for i
  proof -
    have "unat (freeBase s) + 4096 * i < 2 ^ 64"
      using r that unat_u64_less [of "freeEnd s"] by (simp add: ld_rep_def)
    then show ?thesis
      by (subst unat_add_small) (simp_all add: unsigned_of_nat take_bit_nat_eq_self del: of_nat_mult)
  qed
  have "inj_on (\<lambda>i. freeBase s + of_nat (4096 * i)) {0..<length ps}"
  proof (rule inj_onI)
    fix i j assume "i \<in> {0..<length ps}" "j \<in> {0..<length ps}" "freeBase s + of_nat (4096 * i) = freeBase s + of_nat (4096 * j)"
    then have "unat (freeBase s) + 4096 * i = unat (freeBase s) + 4096 * j" using u [of i] u [of j] by (simp only: atLeastLessThan_iff)
    then show "i = j" by simp
  qed
  then have "distinct (pages_from (freeBase s) (length ps))" by (simp add: pages_from_def distinct_map)
  moreover have "ps = pages_from (freeBase s) (length ps)" using r by (simp add: ld_rep_def)
  ultimately show ?thesis by metis
qed

definition ld_get_page :: "ld_state \<Rightarrow> (u64 option \<times> ld_state) option" where
  "ld_get_page s = map_option (\<lambda>(p, s). (if p = 0 then None else Some p, s)) (ld_spa_get s)"

interpretation ld: page_source ld_rep ld_get_page
proof
  show "ld_rep s ps \<Longrightarrow> distinct ps" for s ps by (rule ld_rep_distinct)
  show "ld_rep s [] \<Longrightarrow> ld_get_page s = Some (None, s)" for s
    by (simp add: ld_get_page_def ld_spa_get_def ld_get_none)
  show "\<exists>s'. ld_get_page s = Some (Some p, s') \<and> ld_rep s' ps" if "ld_rep s (p # ps)" for s p ps
    using ld_get_some [OF that] by (auto simp: ld_get_page_def ld_spa_get_def)
qed

section \<open>Properties of the allocators\<close>

lemma spa_get_zero_clears:
  assumes r: "spa_rep s (p # ps)"
  shows "\<exists>s'. spa_get_zero s = Some (p, s') \<and> spa_rep s' ps \<and>
    (\<forall>x. rt_memory s' x = (if unat (x - p) < 4096 then 0 else rt_memory s x))"
proof -
  obtain s' where s': "spa_get_internal True s = Some (p, s')" "spa_rep s' ps"
      and m: "rt_memory s' = mem_write p (replicate 4096 0) (rt_memory s)"
    using spa_get_some [OF r, of True] by auto
  have "rt_memory s' x = (if unat (x - p) < 4096 then 0 else rt_memory s x)" for x
    unfolding m by (subst mem_write_apply) simp_all
  with s' show ?thesis by (auto simp: spa_get_zero_def)
qed

text \<open>
  C35. The list threaded through the free pages implements a list of pages. From a state that
  represents \<open>ps\<close>, taking \<open>n\<close> pages returns the first \<open>n\<close> of \<open>ps\<close>, all different, and leaves the
  rest; a page that is not on the list can be put back, and it becomes the last one. A page from
  \<open>spa_get_zero\<close> holds zeros, and no other byte of memory has changed. No assertion fails.
\<close>

theorem spa_refines_list:
  assumes r: "spa_rep s ps"
  shows "(\<exists>s'. get_pages (spa_get_page z) n s = Some (take n ps, s') \<and> spa_rep s' (drop n ps)) \<and> distinct ps \<and>
    (\<forall>p. page_ok s p \<longrightarrow> p \<notin> set ps \<longrightarrow> length ps < 2 ^ 32 - 1 \<longrightarrow>
       (\<exists>s'. spa_put p s = Some s' \<and> spa_rep s' (ps @ [p]))) \<and>
    (case ps of [] \<Rightarrow> spa_get_zero s = Some (0, s)
     | p # qs \<Rightarrow> \<exists>s'. spa_get_zero s = Some (p, s') \<and> spa_rep s' qs \<and>
         (\<forall>x. rt_memory s' x = (if unat (x - p) < 4096 then 0 else rt_memory s x)))"
proof -
  have "case ps of [] \<Rightarrow> spa_get_zero s = Some (0, s)
     | p # qs \<Rightarrow> \<exists>s'. spa_get_zero s = Some (p, s') \<and> spa_rep s' qs \<and>
         (\<forall>x. rt_memory s' x = (if unat (x - p) < 4096 then 0 else rt_memory s x))"
    using spa_get_none [of s True] spa_get_zero_clears [of s] r by (cases ps) (auto simp: spa_get_zero_def)
  then show ?thesis using spa.get_pages_eq [OF r, of z n] spa.rep_distinct [OF r] spa.put_page [OF r] by blast
qed

definition rt_zero :: rt_state where
  "rt_zero = \<lparr>spa_free_pages = \<lparr>pl_head = 0, pl_tail = 0, pl_count = 0\<rparr>, rt_memory = (\<lambda>a. 0),
     freemem_va_start = 0xffffffff80000000, freemem_size = 0x10000, root_page_table = 0, load_pa_start = 0,
     kernel_offset = 0, current_program_break = 0\<rparr>"

lemma rt_zero_rep: "spa_rep rt_zero []"
  by (simp add: spa_rep_def rt_zero_def)

lemma rt_zero_ok: "page_ok rt_zero 0xffffffff80001000"
  by (simp add: page_ok_def rt_zero_def is_aligned_iff EYRIE_LOAD_START_def)

theorem spa_refines_list_witness:
  "\<exists>s1 s2. spa_put 0xffffffff80001000 rt_zero = Some s1 \<and> spa_get_page True s1 = Some (Some 0xffffffff80001000, s2) \<and> spa_rep s2 []"
proof -
  obtain s1 where s1: "spa_put 0xffffffff80001000 rt_zero = Some s1" "spa_rep s1 ([] @ [0xffffffff80001000])"
    using spa_refines_list [OF rt_zero_rep, of True 0] rt_zero_ok by fastforce
  then show ?thesis using spa_refines_list [OF s1(2), of True 1] by (auto split: option.splits)
qed

text \<open>
  C36. \<open>spa_init\<close> returns and puts every page of the range on the list, in order: the loop over the
  addresses ends, no assertion fails and \<open>spa_available\<close> is the number of pages.
\<close>

theorem spa_init_adds_pages:
  assumes "IS_ALIGNED base RISCV_PAGE_BITS" and "IS_ALIGNED sz RISCV_PAGE_BITS" and "EYRIE_LOAD_START < base"
    and "unat base + unat sz < 2 ^ 64" and "unat (base + sz) \<le> unat (freemem_va_start s + freemem_size s)"
    and "unat sz div 4096 < 2 ^ 32"
  shows "\<exists>s'. spa_init base sz s = Some s' \<and> spa_rep s' (map (\<lambda>i. base + of_nat (4096 * i)) [0..<unat sz div 4096]) \<and>
    spa_available s' = of_nat (unat sz div 4096)"
  using spa_init_pages [OF assms] by (simp add: pages_from_def)

theorem spa_init_adds_pages_witness:
  "\<exists>s'. spa_init 0xffffffff80000000 0x2000 rt_zero = Some s' \<and>
     spa_rep s' [0xffffffff80000000, 0xffffffff80001000] \<and> spa_available s' = 2"
proof -
  have "[0..<2] = [0, 1 :: nat]" by (simp add: upt_rec)
  then show ?thesis
    using spa_init_adds_pages [of "0xffffffff80000000" "0x2000" rt_zero]
    by (simp add: is_aligned_iff EYRIE_LOAD_START_def rt_zero_def)
qed



end
