(* ===== verification/VM.thy ===== *)
theory VM
  imports Freemem
begin

text \<open>
  Page tables of the runtime (\<open>runtime/include/mm/vm.h\<close>, \<open>mm/vm.c\<close>, \<open>mm/mm.c\<close>), in the 64-bit
  build without demand paging: Sv39 tables of three levels, whose pages come from the page
  allocator and are accessed through the linear map of the enclave's memory (\<open>va_of\<close> is \<open>__va\<close>,
  \<open>pa_of\<close> is \<open>__pa\<close>). A pointer to a table entry is its address; 0 is the null pointer.
\<close>

section \<open>Addresses and entries\<close>

type_synonym pte = u64

definition RISCV_PT_INDEX_BITS :: nat where [cfg_defs]: "RISCV_PT_INDEX_BITS = 9"
definition RISCV_PT_LEVELS :: nat where [cfg_defs]: "RISCV_PT_LEVELS = 3"
definition PTE_V :: u64 where [hw_consts]: "PTE_V = 0x001"
definition PTE_R :: u64 where [hw_consts]: "PTE_R = 0x002"
definition PTE_W :: u64 where [hw_consts]: "PTE_W = 0x004"
definition PTE_X :: u64 where [hw_consts]: "PTE_X = 0x008"
definition PTE_U :: u64 where [hw_consts]: "PTE_U = 0x010"
definition PTE_G :: u64 where [hw_consts]: "PTE_G = 0x020"
definition PTE_A :: u64 where [hw_consts]: "PTE_A = 0x040"
definition PTE_D :: u64 where [hw_consts]: "PTE_D = 0x080"
definition PTE_FLAG_MASK :: u64 where [hw_consts]: "PTE_FLAG_MASK = 0x3ff"
definition PTE_PPN_SHIFT :: nat where [hw_consts]: "PTE_PPN_SHIFT = 10"

definition RISCV_PAGE_OFFSET :: "u64 \<Rightarrow> u64" where
  "RISCV_PAGE_OFFSET addr = addr mod RISCV_PAGE_SIZE"

definition RISCV_GET_LVL_PGSIZE_BITS :: "nat \<Rightarrow> nat" where
  "RISCV_GET_LVL_PGSIZE_BITS n = RISCV_PT_INDEX_BITS * (RISCV_PT_LEVELS - n) + RISCV_PAGE_BITS"

definition RISCV_GET_LVL_PGSIZE :: "nat \<Rightarrow> u64" where
  "RISCV_GET_LVL_PGSIZE n = push_bit (RISCV_GET_LVL_PGSIZE_BITS n) 1"

definition RISCV_GET_PT_INDEX :: "u64 \<Rightarrow> nat \<Rightarrow> u64" where
  "RISCV_GET_PT_INDEX addr n =
     drop_bit (RISCV_PT_INDEX_BITS * (RISCV_PT_LEVELS - n) + RISCV_PAGE_BITS) addr AND mask RISCV_PT_INDEX_BITS"

definition pte_create :: "u64 \<Rightarrow> u64 \<Rightarrow> pte" where
  "pte_create p typ = push_bit PTE_PPN_SHIFT p OR PTE_V OR (typ AND PTE_FLAG_MASK)"

definition pte_create_invalid :: "u64 \<Rightarrow> u64 \<Rightarrow> pte" where
  "pte_create_invalid p typ = push_bit PTE_PPN_SHIFT p OR (typ AND PTE_FLAG_MASK AND NOT PTE_V)"

definition ptd_create :: "u64 \<Rightarrow> pte" where
  "ptd_create p = pte_create p PTE_V"

definition ppn :: "u64 \<Rightarrow> u64" where
  "ppn pa = drop_bit RISCV_PAGE_BITS pa"

definition vpn :: "u64 \<Rightarrow> u64" where
  "vpn va = drop_bit RISCV_PAGE_BITS va"

definition pte_ppn :: "pte \<Rightarrow> u64" where
  "pte_ppn e = drop_bit PTE_PPN_SHIFT e"

definition kernel_va_to_pa :: "rt_state \<Rightarrow> u64 \<Rightarrow> u64" where
  "kernel_va_to_pa s p = p - kernel_offset s"

definition va_of :: "rt_state \<Rightarrow> u64 \<Rightarrow> u64" where
  "va_of s pa = (pa - load_pa_start s) + EYRIE_LOAD_START"

definition pa_of :: "rt_state \<Rightarrow> u64 \<Rightarrow> u64" where
  "pa_of s va = (va - EYRIE_LOAD_START) + load_pa_start s"

definition get_program_break :: "rt_state \<Rightarrow> u64" where
  "get_program_break s = current_program_break s"

definition set_program_break :: "u64 \<Rightarrow> rt_state \<Rightarrow> rt_state" where
  "set_program_break new_break s = s\<lparr>current_program_break := new_break\<rparr>"

section \<open>Walking\<close>

definition load_pte :: "rt_state \<Rightarrow> u64 \<Rightarrow> pte" where
  "load_pte s a = load64 (rt_memory s) a"

definition store_pte :: "u64 \<Rightarrow> pte \<Rightarrow> rt_state \<Rightarrow> rt_state" where
  "store_pte a e s = s\<lparr>rt_memory := store64 a e (rt_memory s)\<rparr>"

definition pte_addr :: "u64 \<Rightarrow> u64 \<Rightarrow> nat \<Rightarrow> u64" where
  "pte_addr t addr i = t + 8 * RISCV_GET_PT_INDEX addr i"

text \<open>
  The loop of \<open>__walk_internal\<close> from level \<open>i\<close> and table \<open>t\<close>: the address of the entry at the
  last level, or of the first entry on the way that is not valid.
\<close>

datatype walk_result = walk_missing u64 | walk_found u64

function walk_loop :: "rt_state \<Rightarrow> u64 \<Rightarrow> nat \<Rightarrow> u64 \<Rightarrow> walk_result" where
  "walk_loop s addr i t =
     (if i < RISCV_PT_LEVELS then
        let a = pte_addr t addr i in
        if load_pte s a AND PTE_V = 0 then walk_missing a
        else walk_loop s addr (i + 1) (va_of s (push_bit RISCV_PAGE_BITS (pte_ppn (load_pte s a))))
      else walk_found (pte_addr t addr RISCV_PT_LEVELS))"
  by pat_completeness auto
termination
  by (relation "measure (\<lambda>(s, addr, i, t). RISCV_PT_LEVELS - i)") auto

declare walk_loop.simps [simp del]

definition walk :: "rt_state \<Rightarrow> u64 \<Rightarrow> u64 \<Rightarrow> u64" where
  "walk s root addr = (case walk_loop s addr 1 root of walk_missing a \<Rightarrow> 0 | walk_found a \<Rightarrow> a)"

text \<open>\<open>__walk_create\<close> adds the missing table (\<open>__continue_walk_create\<close>) and starts again.\<close>

partial_function (option) walk_create :: "u64 \<Rightarrow> u64 \<Rightarrow> rt_state \<Rightarrow> (u64 \<times> rt_state) option" where
  "walk_create root addr s =
     (case walk_loop s addr 1 root of
        walk_found a \<Rightarrow> Some (a, s)
      | walk_missing a \<Rightarrow> do {
          (new_page, s) \<leftarrow> spa_get_zero s;
          if new_page = 0 then None
          else walk_create root addr (store_pte a (ptd_create (ppn (pa_of s new_page))) s) })"

section \<open>Operations\<close>

definition map_page :: "u64 \<Rightarrow> u64 \<Rightarrow> u64 \<Rightarrow> rt_state \<Rightarrow> (u64 \<times> rt_state) option" where
  "map_page vp pp flags s = do {
     (a, s) \<leftarrow> walk_create (root_page_table s) (push_bit RISCV_PAGE_BITS vp) s;
     if load_pte s a AND PTE_V \<noteq> 0 then Some (- 1, s)
     else Some (1, store_pte a (pte_create pp (PTE_D OR PTE_A OR PTE_V OR flags)) s) }"

definition alloc_page :: "u64 \<Rightarrow> u64 \<Rightarrow> rt_state \<Rightarrow> (u64 \<times> rt_state) option" where
  "alloc_page vp flags s = do {
     (a, s) \<leftarrow> walk_create (root_page_table s) (push_bit RISCV_PAGE_BITS vp) s;
     if a = 0 then Some (0, s)
     else if load_pte s a AND PTE_V \<noteq> 0 then Some (va_of s (push_bit RISCV_PAGE_BITS (load_pte s a)), s)
     else do {
       (page, s) \<leftarrow> spa_get_zero s;
       if page = 0 then None
       else Some (page, store_pte a (pte_create (ppn (pa_of s page)) (PTE_D OR PTE_A OR PTE_V OR flags)) s) } }"

definition realloc_page :: "u64 \<Rightarrow> u64 \<Rightarrow> rt_state \<Rightarrow> (u64 \<times> rt_state) option" where
  "realloc_page vp flags s =
     (if flags AND PTE_U = 0 then None
      else
        let a = walk s (root_page_table s) (push_bit RISCV_PAGE_BITS vp) in
        if a = 0 then Some (0, s)
        else if load_pte s a AND PTE_V \<noteq> 0 then
          let s = store_pte a (pte_create (pte_ppn (load_pte s a)) flags) s
          in Some (va_of s (push_bit RISCV_PAGE_BITS (load_pte s a)), s)
        else Some (0, s))"

definition free_page :: "u64 \<Rightarrow> rt_state \<Rightarrow> rt_state option" where
  "free_page vp s =
     (let a = walk s (root_page_table s) (push_bit RISCV_PAGE_BITS vp) in
      if a = 0 \<or> load_pte s a AND PTE_V = 0 then Some s
      else if load_pte s a AND PTE_U = 0 then None
      else
        let p = pte_ppn (load_pte s a);
            s = store_pte a 0 s
        in spa_put (va_of s (push_bit RISCV_PAGE_BITS p)) s)"

text \<open>The counters of the loops are 32-bit and \<open>count\<close> is a \<open>size_t\<close>: at \<open>2 ^ 32\<close> pages they would not end.\<close>

fun alloc_pages_loop :: "nat \<Rightarrow> u32 \<Rightarrow> u64 \<Rightarrow> u64 \<Rightarrow> rt_state \<Rightarrow> (u32 \<times> rt_state) option" where
  "alloc_pages_loop 0 i vp flags s = Some (i, s)"
| "alloc_pages_loop (Suc n) i vp flags s = do {
     (page, s) \<leftarrow> alloc_page (vp + ucast i) flags s;
     if page = 0 then Some (i, s) else alloc_pages_loop n (i + 1) vp flags s }"

definition alloc_pages :: "u64 \<Rightarrow> u64 \<Rightarrow> u64 \<Rightarrow> rt_state \<Rightarrow> (u64 \<times> rt_state) option" where
  "alloc_pages vp count flags s =
     (if unat count < 2 ^ 32
      then map_option (\<lambda>(i, s). (ucast i, s)) (alloc_pages_loop (unat count) 0 vp flags s)
      else None)"

fun free_pages_loop :: "nat \<Rightarrow> u32 \<Rightarrow> u64 \<Rightarrow> rt_state \<Rightarrow> rt_state option" where
  "free_pages_loop 0 i vp s = Some s"
| "free_pages_loop (Suc n) i vp s = do { s \<leftarrow> free_page (vp + ucast i) s; free_pages_loop n (i + 1) vp s }"

definition free_pages :: "u64 \<Rightarrow> u64 \<Rightarrow> rt_state \<Rightarrow> rt_state option" where
  "free_pages vp count s = (if unat count < 2 ^ 32 then free_pages_loop (unat count) 0 vp s else None)"

definition page_in_use :: "rt_state \<Rightarrow> u64 \<Rightarrow> bool" where
  "page_in_use s vp \<longleftrightarrow>
     (let a = walk s (root_page_table s) (push_bit RISCV_PAGE_BITS vp) in a \<noteq> 0 \<and> load_pte s a \<noteq> 0)"

fun test_va_loop :: "nat \<Rightarrow> u32 \<Rightarrow> u64 \<Rightarrow> rt_state \<Rightarrow> u32" where
  "test_va_loop 0 i vp s = i"
| "test_va_loop (Suc n) i vp s = (if page_in_use s (vp + ucast i) then i else test_va_loop n (i + 1) vp s)"

definition test_va_range :: "u64 \<Rightarrow> u64 \<Rightarrow> rt_state \<Rightarrow> u64 option" where
  "test_va_range vp count s =
     (if unat count < 2 ^ 32 then Some (ucast (test_va_loop (unat count) 0 vp s)) else None)"

definition translate :: "rt_state \<Rightarrow> u64 \<Rightarrow> u64" where
  "translate s va =
     (let a = walk s (root_page_table s) va in
      if a \<noteq> 0 \<and> load_pte s a AND PTE_V \<noteq> 0
      then push_bit RISCV_PAGE_BITS (pte_ppn (load_pte s a)) OR RISCV_PAGE_OFFSET va
      else 0)"

definition pte_of_va :: "rt_state \<Rightarrow> u64 \<Rightarrow> u64" where
  "pte_of_va s va = walk s (root_page_table s) va"

section \<open>The initial mapping\<close>

partial_function (option) map_leaves :: "u64 \<Rightarrow> u64 \<Rightarrow> u64 \<Rightarrow> u64 \<Rightarrow> nat \<Rightarrow> u64 \<Rightarrow> rt_state \<Rightarrow> rt_state option" where
  "map_leaves off dram_base dram_size p leaf_level leaf_pt s =
     (if off < dram_size
      then map_leaves (off + RISCV_GET_LVL_PGSIZE leaf_level) dram_base dram_size p leaf_level leaf_pt
             (store_pte (pte_addr leaf_pt (p + off) leaf_level)
               (pte_create (ppn (dram_base + off)) (PTE_R OR PTE_W OR PTE_X OR PTE_A OR PTE_D)) s)
      else Some s)"

definition map_with_reserved_page_table_32 :: "u64 \<Rightarrow> u64 \<Rightarrow> u64 \<Rightarrow> u64 \<Rightarrow> rt_state \<Rightarrow> rt_state option" where
  "map_with_reserved_page_table_32 dram_base dram_size p l2_pt s =
     (let leaf_level = (if l2_pt = 0 then 1 else 2);
          leaf_pt = (if l2_pt = 0 then root_page_table s else l2_pt);
          dram_max = (if l2_pt = 0 then - 1 else RISCV_GET_LVL_PGSIZE 1)
      in if \<not> dram_size \<le> dram_max then None
         else if \<not> IS_ALIGNED dram_base (RISCV_GET_LVL_PGSIZE_BITS leaf_level) then None
         else if \<not> IS_ALIGNED p (RISCV_GET_LVL_PGSIZE_BITS (leaf_level - 1)) then None
         else
           let s = (if l2_pt \<noteq> 0
                    then store_pte (pte_addr (root_page_table s) p 1) (ptd_create (ppn (kernel_va_to_pa s l2_pt))) s
                    else s)
           in map_leaves 0 dram_base dram_size p leaf_level leaf_pt s)"

definition map_with_reserved_page_table_64 :: "u64 \<Rightarrow> u64 \<Rightarrow> u64 \<Rightarrow> u64 \<Rightarrow> u64 \<Rightarrow> rt_state \<Rightarrow> rt_state option" where
  "map_with_reserved_page_table_64 dram_base dram_size p l2_pt l3_pt s =
     (let leaf_level = (if l3_pt = 0 then 2 else 3);
          leaf_pt = (if l3_pt = 0 then l2_pt else l3_pt)
      in if \<not> dram_size \<le> RISCV_GET_LVL_PGSIZE (leaf_level - 1) then None
         else if \<not> IS_ALIGNED dram_base (RISCV_GET_LVL_PGSIZE_BITS leaf_level) then None
         else if \<not> IS_ALIGNED p (RISCV_GET_LVL_PGSIZE_BITS (leaf_level - 1)) then None
         else
           let s = store_pte (pte_addr (root_page_table s) p 1) (ptd_create (ppn (kernel_va_to_pa s l2_pt))) s;
               s = (if leaf_pt \<noteq> l2_pt
                    then store_pte (pte_addr l2_pt p 2) (ptd_create (ppn (kernel_va_to_pa s l3_pt))) s
                    else s)
           in map_leaves 0 dram_base dram_size p leaf_level leaf_pt s)"

definition map_with_reserved_page_table :: "u64 \<Rightarrow> u64 \<Rightarrow> u64 \<Rightarrow> u64 \<Rightarrow> u64 \<Rightarrow> rt_state \<Rightarrow> rt_state option" where
  "map_with_reserved_page_table dram_base dram_size p l2_pt l3_pt s =
     (if dram_size > RISCV_GET_LVL_PGSIZE 2
      then map_with_reserved_page_table_64 dram_base dram_size p l2_pt 0 s
      else map_with_reserved_page_table_64 dram_base dram_size p l2_pt l3_pt s)"

section \<open>Entries of tables\<close>

lemma unat_index_less: "unat (RISCV_GET_PT_INDEX v i) < 512"
proof -
  have "RISCV_GET_PT_INDEX v i \<le> mask 9" by (simp add: RISCV_GET_PT_INDEX_def RISCV_PT_INDEX_BITS_def word_and_le1)
  then show ?thesis by (simp add: word_le_nat_alt mask_eq_exp_minus_1)
qed

definition entry_offset :: "u64 \<Rightarrow> nat \<Rightarrow> nat" where
  "entry_offset v i = 8 * unat (RISCV_GET_PT_INDEX v i)"

lemma entry_offset_less: "entry_offset v i + 8 \<le> 4096"
  using unat_index_less [of v i] by (simp add: entry_offset_def)

lemma pte_addr_eq: "pte_addr t v i = t + of_nat (entry_offset v i)"
  by (simp add: pte_addr_def entry_offset_def)

lemma pte_addr_0: "pte_addr q 0 i = q"
  by (simp add: pte_addr_def RISCV_GET_PT_INDEX_def)

lemma unat_pte_addr:
  assumes "IS_ALIGNED t RISCV_PAGE_BITS"
  shows "unat (pte_addr t v i) = unat t + entry_offset v i"
proof -
  have o: "entry_offset v i < 4096" using entry_offset_less [of v i] by simp
  define q where "q = unat t div 4096"
  have "unat t = 4096 * q" using assms mult_div_mod_eq [of 4096 "unat t"] by (simp add: is_aligned_iff q_def)
  moreover from this have "q < 2 ^ 52" using unat_u64_less [of t] by simp
  ultimately have "unat t + entry_offset v i < 2 ^ 64" using o by simp
  moreover have "unat (of_nat (entry_offset v i) :: u64) = entry_offset v i"
    using o by (simp add: unsigned_of_nat take_bit_nat_eq_self)
  ultimately show ?thesis by (simp add: pte_addr_eq unat_add_small)
qed

lemma pte_addr_nonzero:
  assumes "IS_ALIGNED t RISCV_PAGE_BITS" and "t \<noteq> 0"
  shows "pte_addr t v i \<noteq> 0"
  using unat_pte_addr [OF assms(1), of v i] assms(2) by (metis add_is_0 unat_eq_zero)

lemma load_store_pte:
  assumes a: "IS_ALIGNED t RISCV_PAGE_BITS" and b: "IS_ALIGNED t' RISCV_PAGE_BITS"
  shows "load_pte (store_pte (pte_addr t v i) e s) (pte_addr t' w j) =
    (if t = t' \<and> RISCV_GET_PT_INDEX v i = RISCV_GET_PT_INDEX w j then e else load_pte s (pte_addr t' w j))"
proof (cases "pte_addr t v i = pte_addr t' w j")
  case True
  have "t = t'"
  proof (rule ccontr)
    assume "t \<noteq> t'"
    then have "4096 \<le> unat (t' + of_nat (entry_offset w j) - t)"
      using entry_offset_less [of w j] by (intro page_offset_range a b) simp_all
    then have "4096 \<le> unat (pte_addr t v i - t)" by (simp add: True pte_addr_eq [of t'])
    moreover have "unat (pte_addr t v i - t) = entry_offset v i"
      using entry_offset_less [of v i] by (simp add: pte_addr_eq unsigned_of_nat take_bit_nat_eq_self)
    ultimately show False using entry_offset_less [of v i] by simp
  qed
  moreover from this have "unat (RISCV_GET_PT_INDEX v i) = unat (RISCV_GET_PT_INDEX w j)"
    using True unat_pte_addr [OF b, of v i] unat_pte_addr [OF b, of w j] by (simp add: entry_offset_def)
  then have "RISCV_GET_PT_INDEX v i = RISCV_GET_PT_INDEX w j" by (simp only: word_unat_eq_iff)
  ultimately show ?thesis by (simp add: load_pte_def store_pte_def pte_addr_def)
next
  case False
  have "load_pte (store_pte (pte_addr t v i) e s) (pte_addr t' w j) = load_pte s (pte_addr t' w j)"
  proof -
    let ?x = "unat (pte_addr t v i)" and ?y = "unat (pte_addr t' w j)"
    have x: "?x mod 8 = 0" "?y mod 8 = 0"
      using a b unfolding unat_pte_addr [OF a] unat_pte_addr [OF b] is_aligned_iff entry_offset_def
      by (auto simp: mod_eq_0_iff_dvd intro: dvd_trans [of 8 4096])
    have ne: "?x \<noteq> ?y" using False by (simp add: word_unat_eq_iff)
    define d where "d = pte_addr t' w j - pte_addr t v i"
    have "unat d mod 8 = 0" "unat d \<noteq> 0"
    proof -
      show "unat d \<noteq> 0" using False by (simp add: d_def unat_eq_zero)
      show "unat d mod 8 = 0"
      proof (cases "?x \<le> ?y")
        case True
        then have "unat d = ?y - ?x" by (simp add: d_def unat_sub word_le_nat_alt)
        then show ?thesis using x by (simp add: mod_eq_0_iff_dvd)
      next
        case False
        then have "unat d = 2 ^ 64 - (?x - ?y)"
          using unat_u64_less [of "pte_addr t v i"] by (simp add: d_def unat_sub_if' word_le_nat_alt)
        moreover have "(8 :: nat) dvd 2 ^ 64" by simp
        ultimately show ?thesis using x by (simp add: mod_eq_0_iff_dvd)
      qed
    qed
    moreover define q where "q = unat d div 8"
    ultimately have q: "unat d = 8 * q" "0 < q" using mult_div_mod_eq [of 8 "unat d"] by auto
    then have "8 * q < 8 * 2 ^ 61" using unat_u64_less [of d] by simp
    then have "q \<le> 2 ^ 61 - 1" by simp
    then have "8 \<le> unat d" "unat d \<le> 2 ^ 64 - 8" using q by simp_all
    then show ?thesis unfolding load_pte_def store_pte_def d_def by (simp add: load_store64_other)
  qed
  moreover have "\<not> (t = t' \<and> RISCV_GET_PT_INDEX v i = RISCV_GET_PT_INDEX w j)"
    using False by (auto simp: pte_addr_def)
  ultimately show ?thesis by (simp only: if_False)
qed

lemma load64_replicate_0:
  assumes "k + 8 \<le> 4096"
  shows "load64 (mem_write p (replicate 4096 0) m) (p + of_nat k) = 0"
proof -
  have "mem_read (mem_write p (replicate 4096 0) m) (p + of_nat k) 8 = mem_read (\<lambda>_. 0) (p + of_nat k) 8"
  proof (rule mem_read_cong)
    fix i :: nat assume i: "i < 8"
    have "unat (p + of_nat k + of_nat i - p) = k + i"
    proof -
      have e: "p + of_nat k + of_nat i - p = of_nat (k + i)" by simp
      show ?thesis unfolding e using i assms by (simp add: unsigned_of_nat take_bit_nat_eq_self del: of_nat_add)
    qed
    then show "mem_write p (replicate 4096 0) m (p + of_nat k + of_nat i) = 0"
      using i assms by (simp add: mem_write_apply)
  qed
  moreover have "bytes_word (mem_read (\<lambda>_. 0) a n) = 0" for a n
    by (induction n arbitrary: a) (simp_all add: mem_read_Suc bytes_word_def)
  ultimately show ?thesis by (simp only: load64_def)
qed

lemma load_pte_zeroed:
  assumes "IS_ALIGNED p RISCV_PAGE_BITS" and "IS_ALIGNED t RISCV_PAGE_BITS"
    and "rt_memory s' = mem_write p (replicate 4096 0) (rt_memory s)"
  shows "load_pte s' (pte_addr t v i) = (if t = p then 0 else load_pte s (pte_addr t v i))"
proof (cases "t = p")
  case True
  then show ?thesis using assms(3) entry_offset_less [of v i] by (simp add: load_pte_def pte_addr_eq load64_replicate_0)
next
  case False
  have "load64 (mem_write p (replicate 4096 0) (rt_memory s)) (pte_addr t v i) = load64 (rt_memory s) (pte_addr t v i)"
  proof (rule load64_cong)
    fix k :: nat assume k: "k < 8"
    have "4096 \<le> unat (t + of_nat (entry_offset v i + k) - p)"
      using k False assms(1,2) entry_offset_less [of v i] by (intro page_offset_range) simp_all
    then show "mem_write p (replicate 4096 0) (rt_memory s) (pte_addr t v i + of_nat k) =
        rt_memory s (pte_addr t v i + of_nat k)"
      by (simp add: mem_write_apply pte_addr_eq algebra_simps)
  qed
  then show ?thesis using False assms(3) by (simp add: load_pte_def)
qed

lemma pte_ppn_pte_create: "pte_ppn (pte_create p f) = take_bit 54 p"
  by (rule bit_word_eqI)
    (auto simp: pte_ppn_def pte_create_def PTE_PPN_SHIFT_def PTE_V_def PTE_FLAG_MASK_def bit_simps bit_numeral_iff)

lemma pte_create_flags: "pte_create p f AND PTE_FLAG_MASK = PTE_V OR (f AND PTE_FLAG_MASK)"
proof -
  have m: "PTE_FLAG_MASK = mask 10" by (simp add: PTE_FLAG_MASK_def mask_eq_exp_minus_1)
  show ?thesis unfolding pte_create_def PTE_PPN_SHIFT_def PTE_V_def m
    by (intro bit_word_eqI) (auto simp: bit_simps)
qed

lemma pte_create_valid: "pte_create p f AND PTE_V \<noteq> 0"
proof
  assume "pte_create p f AND PTE_V = 0"
  then have "bit (pte_create p f AND PTE_V) 0 = bit (0 :: u64) 0" by simp
  then show False by (simp add: pte_create_def PTE_V_def PTE_PPN_SHIFT_def bit_simps)
qed

lemma page_shift_cancel:
  assumes "IS_ALIGNED a RISCV_PAGE_BITS"
  shows "push_bit RISCV_PAGE_BITS (drop_bit RISCV_PAGE_BITS a) = a"
  using assms bits_ident [of RISCV_PAGE_BITS a] by (simp add: IS_ALIGNED_def take_bit_eq_mask)

lemma take_bit_ppn: "take_bit 54 (ppn a) = ppn a"
  by (rule bit_word_eqI) (auto simp: ppn_def RISCV_PAGE_BITS_def bit_simps dest: bit_imp_le_length)

lemma aligned_iff_dvd: "IS_ALIGNED a RISCV_PAGE_BITS \<longleftrightarrow> 4096 dvd unat a"
  by (simp add: is_aligned_iff mod_eq_0_iff_dvd)

lemma aligned_add:
  assumes "IS_ALIGNED a RISCV_PAGE_BITS" and "IS_ALIGNED b RISCV_PAGE_BITS"
  shows "IS_ALIGNED (a + b) RISCV_PAGE_BITS"
proof -
  have "(4096 :: nat) dvd 2 ^ 64" by simp
  then show ?thesis using assms by (simp add: aligned_iff_dvd unat_word_ariths dvd_mod)
qed

lemma aligned_diff:
  assumes "IS_ALIGNED a RISCV_PAGE_BITS" and "IS_ALIGNED b RISCV_PAGE_BITS"
  shows "IS_ALIGNED (a - b) RISCV_PAGE_BITS"
proof -
  have "(4096 :: nat) dvd 2 ^ 64" by simp
  then show ?thesis using assms unat_u64_less [of b] by (simp add: aligned_iff_dvd unat_sub_if')
qed

section \<open>The tree of tables\<close>

text \<open>
  The entries and tables met by the walk for the address \<open>v\<close>: \<open>e1\<close> in the root table, \<open>t2\<close> the
  table it points to, \<open>e2\<close> in that table, \<open>t3\<close> the last table and \<open>leaf\<close> the entry in it.
\<close>

definition next_table :: "rt_state \<Rightarrow> pte \<Rightarrow> u64" where
  "next_table s e = va_of s (push_bit RISCV_PAGE_BITS (pte_ppn e))"

definition e1 :: "rt_state \<Rightarrow> u64 \<Rightarrow> pte" where
  "e1 s v = load_pte s (pte_addr (root_page_table s) v 1)"

definition t2 :: "rt_state \<Rightarrow> u64 \<Rightarrow> u64" where
  "t2 s v = next_table s (e1 s v)"

definition e2 :: "rt_state \<Rightarrow> u64 \<Rightarrow> pte" where
  "e2 s v = load_pte s (pte_addr (t2 s v) v 2)"

definition t3 :: "rt_state \<Rightarrow> u64 \<Rightarrow> u64" where
  "t3 s v = next_table s (e2 s v)"

definition leaf :: "rt_state \<Rightarrow> u64 \<Rightarrow> pte" where
  "leaf s v = load_pte s (pte_addr (t3 s v) v 3)"

definition valid_pte :: "pte \<Rightarrow> bool" where
  "valid_pte e \<longleftrightarrow> e AND PTE_V \<noteq> 0"

definition ok1 :: "rt_state \<Rightarrow> u64 \<Rightarrow> bool" where
  "ok1 s v \<longleftrightarrow> valid_pte (e1 s v)"

definition ok2 :: "rt_state \<Rightarrow> u64 \<Rightarrow> bool" where
  "ok2 s v \<longleftrightarrow> ok1 s v \<and> valid_pte (e2 s v)"

lemma walk_loop_eq:
  "walk_loop s v 1 (root_page_table s) =
     (if \<not> ok1 s v then walk_missing (pte_addr (root_page_table s) v 1)
      else if \<not> ok2 s v then walk_missing (pte_addr (t2 s v) v 2)
      else walk_found (pte_addr (t3 s v) v 3))"
proof -
  have "walk_loop s v 1 r = (if \<not> valid_pte (load_pte s (pte_addr r v 1)) then walk_missing (pte_addr r v 1)
      else walk_loop s v 2 (next_table s (load_pte s (pte_addr r v 1))))" for r
    by (subst walk_loop.simps) (simp add: RISCV_PT_LEVELS_def valid_pte_def next_table_def Let_def numeral_2_eq_2)
  moreover have "walk_loop s v 2 t = (if \<not> valid_pte (load_pte s (pte_addr t v 2)) then walk_missing (pte_addr t v 2)
      else walk_loop s v 3 (next_table s (load_pte s (pte_addr t v 2))))" for t
    by (subst walk_loop.simps) (simp add: RISCV_PT_LEVELS_def valid_pte_def next_table_def Let_def)
  moreover have "walk_loop s v 3 t = walk_found (pte_addr t v 3)" for t
    by (subst walk_loop.simps) (simp add: RISCV_PT_LEVELS_def)
  ultimately show ?thesis by (simp add: ok1_def ok2_def e1_def e2_def t2_def t3_def)
qed

text \<open>The addresses below the enclave's own mappings, and addresses of one page, of one table.\<close>

definition user_va :: "u64 \<Rightarrow> bool" where
  "user_va v \<longleftrightarrow> RISCV_GET_PT_INDEX v 1 < RISCV_GET_PT_INDEX EYRIE_LOAD_START 1"

definition same1 :: "u64 \<Rightarrow> u64 \<Rightarrow> bool" where
  "same1 v w \<longleftrightarrow> RISCV_GET_PT_INDEX v 1 = RISCV_GET_PT_INDEX w 1"

definition same2 :: "u64 \<Rightarrow> u64 \<Rightarrow> bool" where
  "same2 v w \<longleftrightarrow> same1 v w \<and> RISCV_GET_PT_INDEX v 2 = RISCV_GET_PT_INDEX w 2"

definition same_page :: "u64 \<Rightarrow> u64 \<Rightarrow> bool" where
  "same_page v w \<longleftrightarrow> same2 v w \<and> RISCV_GET_PT_INDEX v 3 = RISCV_GET_PT_INDEX w 3"

lemma same_user: "same1 v w \<Longrightarrow> user_va v \<longleftrightarrow> user_va w"
  by (simp add: same1_def user_va_def)

lemma same1_sym: "same1 v w \<longleftrightarrow> same1 w v"
  by (auto simp: same1_def)

definition is_table :: "rt_state \<Rightarrow> u64 \<Rightarrow> bool" where
  "is_table s t \<longleftrightarrow> t = root_page_table s \<or> (\<exists>v. user_va v \<and> (ok1 s v \<and> t = t2 s v \<or> ok2 s v \<and> t = t3 s v))"

text \<open>
  The tables of the user's half form a tree: pages, each reached in one way only; and the
  memory is mapped at a page boundary.
\<close>

definition pt_wf :: "rt_state \<Rightarrow> bool" where
  "pt_wf s \<longleftrightarrow> IS_ALIGNED (load_pa_start s) RISCV_PAGE_BITS \<and>
     (\<forall>t. is_table s t \<longrightarrow> t \<noteq> 0 \<and> IS_ALIGNED t RISCV_PAGE_BITS) \<and>
     (\<forall>v. user_va v \<longrightarrow> ok1 s v \<longrightarrow> t2 s v \<noteq> root_page_table s) \<and>
     (\<forall>v. user_va v \<longrightarrow> ok2 s v \<longrightarrow> t3 s v \<noteq> root_page_table s) \<and>
     (\<forall>v w. user_va v \<longrightarrow> user_va w \<longrightarrow> ok1 s v \<longrightarrow> ok1 s w \<longrightarrow> t2 s v = t2 s w \<longrightarrow> same1 v w) \<and>
     (\<forall>v w. user_va v \<longrightarrow> user_va w \<longrightarrow> ok2 s v \<longrightarrow> ok2 s w \<longrightarrow> t3 s v = t3 s w \<longrightarrow> same2 v w) \<and>
     (\<forall>v w. user_va v \<longrightarrow> user_va w \<longrightarrow> ok1 s v \<longrightarrow> ok2 s w \<longrightarrow> t2 s v \<noteq> t3 s w)"

text \<open>What the tables mean: the valid leaf entry for an address.\<close>

definition vmap :: "rt_state \<Rightarrow> u64 \<Rightarrow> pte option" where
  "vmap s v = (if ok2 s v \<and> valid_pte (leaf s v) then Some (leaf s v) else None)"

lemma pt_wfD:
  assumes "pt_wf s"
  shows "IS_ALIGNED (load_pa_start s) RISCV_PAGE_BITS"
    and "is_table s t \<Longrightarrow> t \<noteq> 0" and "is_table s t \<Longrightarrow> IS_ALIGNED t RISCV_PAGE_BITS"
    and "user_va v \<Longrightarrow> ok1 s v \<Longrightarrow> t2 s v \<noteq> root_page_table s"
    and "user_va v \<Longrightarrow> ok2 s v \<Longrightarrow> t3 s v \<noteq> root_page_table s"
    and "user_va v \<Longrightarrow> user_va w \<Longrightarrow> ok1 s v \<Longrightarrow> ok1 s w \<Longrightarrow> t2 s v = t2 s w \<Longrightarrow> same1 v w"
    and "user_va v \<Longrightarrow> user_va w \<Longrightarrow> ok2 s v \<Longrightarrow> ok2 s w \<Longrightarrow> t3 s v = t3 s w \<Longrightarrow> same2 v w"
    and "user_va v \<Longrightarrow> user_va w \<Longrightarrow> ok1 s v \<Longrightarrow> ok2 s w \<Longrightarrow> t2 s v \<noteq> t3 s w"
  using assms unfolding pt_wf_def by blast+

lemma is_table_root [simp]: "is_table s (root_page_table s)"
  by (simp add: is_table_def)

lemma is_table_t2: "user_va v \<Longrightarrow> ok1 s v \<Longrightarrow> is_table s (t2 s v)"
  by (auto simp: is_table_def)

lemma is_table_t3: "user_va v \<Longrightarrow> ok2 s v \<Longrightarrow> is_table s (t3 s v)"
  by (auto simp: is_table_def)

lemma ok2_ok1: "ok2 s v \<Longrightarrow> ok1 s v"
  by (simp add: ok2_def)

lemma same1_view:
  assumes "same1 v w"
  shows "e1 s v = e1 s w" and "t2 s v = t2 s w" and "ok1 s v = ok1 s w"
  using assms by (simp_all add: e1_def t2_def ok1_def same1_def pte_addr_def)

lemma same2_view:
  assumes "same2 v w"
  shows "e2 s v = e2 s w" and "t3 s v = t3 s w" and "ok2 s v = ok2 s w"
proof -
  show e: "e2 s v = e2 s w" using assms same1_view(2) [of v w s] by (simp add: e2_def same2_def pte_addr_def)
  show "t3 s v = t3 s w" by (simp add: t3_def e)
  show "ok2 s v = ok2 s w" using assms same1_view(3) [of v w s] by (simp add: ok2_def e same2_def)
qed

lemma table_pointer:
  assumes "IS_ALIGNED p RISCV_PAGE_BITS" and "IS_ALIGNED (load_pa_start s) RISCV_PAGE_BITS"
  shows "next_table s (pte_create (ppn (pa_of s p)) f) = p"
proof -
  have "IS_ALIGNED EYRIE_LOAD_START RISCV_PAGE_BITS"
    by (simp add: IS_ALIGNED_def EYRIE_LOAD_START_def RISCV_PAGE_BITS_def mask_eq_exp_minus_1)
  then have "IS_ALIGNED (pa_of s p) RISCV_PAGE_BITS"
    using assms unfolding pa_of_def by (intro aligned_add aligned_diff)
  then have "push_bit RISCV_PAGE_BITS (ppn (pa_of s p)) = pa_of s p"
    unfolding ppn_def by (rule page_shift_cancel)
  then show ?thesis by (simp add: next_table_def pte_ppn_pte_create take_bit_ppn va_of_def pa_of_def)
qed

text \<open>Globals that the operations on tables leave alone.\<close>

definition vm_frame :: "rt_state \<Rightarrow> rt_state \<Rightarrow> bool" where
  "vm_frame s s' \<longleftrightarrow> root_page_table s' = root_page_table s \<and> load_pa_start s' = load_pa_start s \<and>
     freemem_va_start s' = freemem_va_start s \<and> freemem_size s' = freemem_size s"

definition same_view :: "rt_state \<Rightarrow> rt_state \<Rightarrow> u64 \<Rightarrow> bool" where
  "same_view s s' v \<longleftrightarrow> e1 s' v = e1 s v \<and> (ok1 s v \<longrightarrow> e2 s' v = e2 s v) \<and> (ok2 s v \<longrightarrow> leaf s' v = leaf s v)"

lemma next_table_frame: "vm_frame s s' \<Longrightarrow> next_table s' = next_table s"
  by (simp add: vm_frame_def next_table_def va_of_def fun_eq_iff)

lemma same_viewD:
  assumes "vm_frame s s'" and "same_view s s' v"
  shows "ok1 s' v = ok1 s v" and "t2 s' v = t2 s v" and "ok2 s' v = ok2 s v" and "ok2 s v \<Longrightarrow> t3 s' v = t3 s v"
    and "vmap s' v = vmap s v"
proof -
  show o1: "ok1 s' v = ok1 s v" and t: "t2 s' v = t2 s v"
    using assms by (simp_all add: same_view_def ok1_def t2_def next_table_frame)
  show o2: "ok2 s' v = ok2 s v" using assms(2) o1 by (auto simp: ok2_def same_view_def)
  show "ok2 s v \<Longrightarrow> t3 s' v = t3 s v"
    using assms by (simp add: same_view_def t3_def next_table_frame ok2_ok1)
  show "vmap s' v = vmap s v" using assms(2) o2 by (auto simp: vmap_def same_view_def)
qed

lemma zeroed_view:
  assumes wf: "pt_wf s" and fr: "vm_frame s s'" and p: "IS_ALIGNED p RISCV_PAGE_BITS" "\<not> is_table s p"
    and m: "rt_memory s' = mem_write p (replicate 4096 0) (rt_memory s)" and u: "user_va v"
  shows "same_view s s' v"
proof -
  note L = load_pte_zeroed [OF p(1) pt_wfD(3) [OF wf] m]
  have ne: "is_table s t \<Longrightarrow> t \<noteq> p" for t using p(2) by auto
  have 1: "e1 s' v = e1 s v"
    using L [of "root_page_table s" v 1] ne [of "root_page_table s"] fr by (simp add: e1_def vm_frame_def)
  then have t2: "t2 s' v = t2 s v" by (simp add: t2_def next_table_frame [OF fr])
  have 2: "e2 s' v = e2 s v" if "ok1 s v"
    using L [of "t2 s v" v 2] ne is_table_t2 [OF u that] by (auto simp: e2_def t2)
  moreover have "leaf s' v = leaf s v" if "ok2 s v"
    using L [of "t3 s v" v 3] ne is_table_t3 [OF u that] 2 [OF ok2_ok1 [OF that]]
    by (auto simp: leaf_def t3_def next_table_frame [OF fr])
  ultimately show ?thesis using 1 by (simp add: same_view_def)
qed

text \<open>A fresh, empty table as the first-level successor of \<open>v\<close>, and as the second-level one.\<close>

definition fresh_table :: "rt_state \<Rightarrow> u64 \<Rightarrow> bool" where
  "fresh_table s p \<longleftrightarrow> p \<noteq> 0 \<and> IS_ALIGNED p RISCV_PAGE_BITS \<and> \<not> is_table s p \<and>
     (\<forall>w i. load_pte s (pte_addr p w i) = 0)"

lemma not_valid_0 [simp]: "\<not> valid_pte 0"
  by (simp add: valid_pte_def)

lemma vm_frame_store [simp]: "vm_frame s (store_pte a e s)"
  by (simp add: vm_frame_def store_pte_def)

lemma root_store [simp]: "root_page_table (store_pte a e s) = root_page_table s"
  by (simp add: store_pte_def)

lemma load_pa_start_store [simp]: "load_pa_start (store_pte a e s) = load_pa_start s"
  by (simp add: store_pte_def)

lemma add_table1_view:
  assumes wf: "pt_wf s" and v: "user_va v" "\<not> ok1 s v" and p: "fresh_table s p"
    and e: "valid_pte e" "next_table s e = p" and w: "user_va w"
    and s': "s' = store_pte (pte_addr (root_page_table s) v 1) e s"
  shows "same1 v w \<Longrightarrow> ok1 s' w \<and> t2 s' w = p \<and> \<not> ok2 s' w"
    and "\<not> same1 v w \<Longrightarrow> same_view s s' w"
proof -
  have fr: "vm_frame s s'" by (simp add: s')
  note al = pt_wfD(3) [OF wf]
  note L = load_store_pte [OF al [OF is_table_root], of _ v 1 e s, folded s']
  have 1: "e1 s' w = (if same1 v w then e else e1 s w)"
    using L [OF al [OF is_table_root], of w 1] by (simp add: e1_def same1_def s')
  { assume "same1 v w"
    then have o: "ok1 s' w" "t2 s' w = p" using e by (simp_all add: ok1_def t2_def 1 next_table_frame [OF fr])
    have "p \<noteq> root_page_table s" using p by (auto simp: fresh_table_def)
    then have "e2 s' w = 0" using L [of p w 2] p by (auto simp: e2_def o(2) fresh_table_def)
    then show "ok1 s' w \<and> t2 s' w = p \<and> \<not> ok2 s' w" using o by (simp add: ok2_def) }
  assume ns: "\<not> same1 v w"
  then have e1: "e1 s' w = e1 s w" by (simp add: 1)
  have t2: "t2 s' w = t2 s w" by (simp add: t2_def e1 next_table_frame [OF fr])
  have 2: "e2 s' w = e2 s w" if "ok1 s w"
    using L [OF al [OF is_table_t2 [OF w that]], of w 2] pt_wfD(4) [OF wf w that] by (simp add: e2_def t2)
  moreover have "leaf s' w = leaf s w" if o: "ok2 s w"
  proof -
    have "t3 s' w = t3 s w" by (simp add: t3_def 2 [OF ok2_ok1 [OF o]] next_table_frame [OF fr])
    then show ?thesis
      using L [OF al [OF is_table_t3 [OF w o]], of w 3] pt_wfD(5) [OF wf w o] by (simp add: leaf_def)
  qed
  ultimately show "same_view s s' w" using e1 by (simp add: same_view_def)
qed

lemma add_table2_view:
  assumes wf: "pt_wf s" and v: "user_va v" "ok1 s v" "\<not> ok2 s v" and p: "fresh_table s p"
    and e: "valid_pte e" "next_table s e = p" and w: "user_va w"
    and s': "s' = store_pte (pte_addr (t2 s v) v 2) e s"
  shows "ok1 s' w = ok1 s w" and "t2 s' w = t2 s w"
    and "same2 v w \<Longrightarrow> ok2 s' w \<and> t3 s' w = p \<and> leaf s' w = 0"
    and "\<not> same2 v w \<Longrightarrow> same_view s s' w"
proof -
  have fr: "vm_frame s s'" by (simp add: s')
  note al = pt_wfD(3) [OF wf]
  note L = load_store_pte [OF al [OF is_table_t2 [OF v(1,2)]], of _ v 2 e s, folded s']
  have 1: "e1 s' w = e1 s w"
    using L [OF al [OF is_table_root], of w 1] pt_wfD(4) [OF wf v(1,2)] by (simp add: e1_def s')
  then show o: "ok1 s' w = ok1 s w" and t2: "t2 s' w = t2 s w"
    by (simp_all add: t2_def next_table_frame [OF fr] ok1_def)
  have 2: "e2 s' w = (if same2 v w then e else e2 s w)" if o1: "ok1 s w"
    using L [OF al [OF is_table_t2 [OF w o1]], of w 2] pt_wfD(6) [OF wf v(1) w v(2) o1] same1_view(2) [of v w s]
    by (auto simp: e2_def t2 same2_def)
  { assume sm: "same2 v w"
    then have o1: "ok1 s w" using v(2) same1_view(3) [of v w s] by (simp add: same2_def)
    have o2: "ok2 s' w" "t3 s' w = p"
      using e sm o o1 by (simp_all add: ok2_def t3_def 2 [OF o1] next_table_frame [OF fr])
    have "p \<noteq> t2 s v" using p is_table_t2 [OF v(1,2)] by (auto simp: fresh_table_def)
    then have "leaf s' w = 0" using L [of p w 3] p by (auto simp: leaf_def o2(2) fresh_table_def)
    then show "ok2 s' w \<and> t3 s' w = p \<and> leaf s' w = 0" using o2 by simp }
  assume ns: "\<not> same2 v w"
  have "leaf s' w = leaf s w" if o2: "ok2 s w"
  proof -
    have "t3 s' w = t3 s w" using ns by (simp add: t3_def 2 [OF ok2_ok1 [OF o2]] next_table_frame [OF fr])
    then show ?thesis
      using L [OF al [OF is_table_t3 [OF w o2]], of w 3] pt_wfD(8) [OF wf v(1) w v(2) o2] by (auto simp: leaf_def)
  qed
  then show "same_view s s' w" using 1 2 ns by (simp add: same_view_def)
qed

lemma pt_wf_extend:
  assumes wf: "pt_wf s" and fr: "vm_frame s s'" and p: "fresh_table s p"
    and N: "\<And>w. user_va w \<Longrightarrow>
      same_view s s' w \<or> \<not> ok1 s w \<and> ok1 s' w \<and> t2 s' w = p \<and> \<not> ok2 s' w \<and> same1 v w \<or>
      \<not> ok2 s w \<and> ok2 s' w \<and> t3 s' w = p \<and> ok1 s w \<and> t2 s' w = t2 s w \<and> same2 v w"
    and one: "ok1 s v \<or> (\<forall>w. user_va w \<longrightarrow> \<not> ok2 s w \<longrightarrow> \<not> ok2 s' w)"
  shows "pt_wf s'" and "is_table s' t \<Longrightarrow> is_table s t \<or> t = p"
proof -
  have r: "root_page_table s' = root_page_table s" using fr by (simp add: vm_frame_def)
  have c1: "ok1 s w \<and> t2 s' w = t2 s w \<or> \<not> ok1 s v \<and> same1 v w \<and> t2 s' w = p" if "user_va w" "ok1 s' w" for w
    using N [OF that(1)] same_viewD [OF fr, of w] that same1_view(3) [of v w s] by (auto dest: ok2_ok1)
  have c2: "ok2 s w \<and> t3 s' w = t3 s w \<or> ok1 s v \<and> same2 v w \<and> t3 s' w = p" if "user_va w" "ok2 s' w" for w
    using N [OF that(1)] same_viewD [OF fr, of w] that one same1_view(3) [of v w s] by (auto simp: same2_def)
  show tb: "is_table s t \<or> t = p" if "is_table s' t" for t
    using that c1 c2 unfolding is_table_def r by metis
  have f: "p \<noteq> 0" "IS_ALIGNED p RISCV_PAGE_BITS" "p \<noteq> root_page_table s"
    "\<And>w. user_va w \<Longrightarrow> ok1 s w \<Longrightarrow> t2 s w \<noteq> p" "\<And>w. user_va w \<Longrightarrow> ok2 s w \<Longrightarrow> t3 s w \<noteq> p"
    using p is_table_t2 is_table_t3 by (auto simp: fresh_table_def)
  have tr: "same1 w w'" if "same1 v w" "same1 v w'" for w w' using that by (simp add: same1_def)
  have tr2: "same2 w w'" if "same2 v w" "same2 v w'" for w w' using that by (simp add: same2_def same1_def)
  show "pt_wf s'" unfolding pt_wf_def
  proof (intro conjI allI impI)
    show "IS_ALIGNED (load_pa_start s') RISCV_PAGE_BITS" using fr pt_wfD(1) [OF wf] by (simp add: vm_frame_def)
    show "t \<noteq> 0" "IS_ALIGNED t RISCV_PAGE_BITS" if "is_table s' t" for t
      using tb [OF that] f pt_wfD(2,3) [OF wf] by auto
    show "t2 s' w \<noteq> root_page_table s'" if "user_va w" "ok1 s' w" for w
      using c1 [OF that] f(3) pt_wfD(4) [OF wf that(1)] by (auto simp: r)
    show "t3 s' w \<noteq> root_page_table s'" if "user_va w" "ok2 s' w" for w
      using c2 [OF that] f(3) pt_wfD(5) [OF wf that(1)] by (auto simp: r)
    show "same1 w w'" if "user_va w" "user_va w'" "ok1 s' w" "ok1 s' w'" "t2 s' w = t2 s' w'" for w w'
      using c1 [OF that(1,3)] c1 [OF that(2,4)] that f(4) pt_wfD(6) [OF wf that(1,2)] tr by metis
    show "same2 w w'" if "user_va w" "user_va w'" "ok2 s' w" "ok2 s' w'" "t3 s' w = t3 s' w'" for w w'
      using c2 [OF that(1,3)] c2 [OF that(2,4)] that f(5) pt_wfD(7) [OF wf that(1,2)] tr2 by metis
    show "t2 s' w \<noteq> t3 s' w'" if "user_va w" "user_va w'" "ok1 s' w" "ok2 s' w'" for w w'
      using c1 [OF that(1,3)] c2 [OF that(2,4)] that f(4,5) pt_wfD(8) [OF wf that(1,2)] by metis
  qed
qed

lemma add_table:
  assumes wf: "pt_wf s" and v: "user_va v" "\<not> ok2 s v" and p: "fresh_table s p"
    and e: "valid_pte e" "next_table s e = p"
    and s': "s' = store_pte (if ok1 s v then pte_addr (t2 s v) v 2 else pte_addr (root_page_table s) v 1) e s"
  shows "pt_wf s'" and "is_table s' t \<Longrightarrow> is_table s t \<or> t = p" and "user_va w \<Longrightarrow> vmap s' w = vmap s w"
    and "ok1 s' v" and "ok1 s v \<Longrightarrow> ok2 s' v"
proof -
  have fr: "vm_frame s s'" by (simp add: s')
  have refl: "same1 v v" "same2 v v" by (simp_all add: same1_def same2_def)
  note A = add_table1_view [OF wf v(1) _ p e] and B = add_table2_view [OF wf v(1) _ v(2) p e]
  have N: "same_view s s' w \<or> \<not> ok1 s w \<and> ok1 s' w \<and> t2 s' w = p \<and> \<not> ok2 s' w \<and> same1 v w \<or>
      \<not> ok2 s w \<and> ok2 s' w \<and> t3 s' w = p \<and> ok1 s w \<and> t2 s' w = t2 s w \<and> same2 v w \<and> leaf s' w = 0"
    if u: "user_va w" for w
  proof (cases "ok1 s v")
    case True
    then have s2: "s' = store_pte (pte_addr (t2 s v) v 2) e s" by (simp add: s')
    show ?thesis using B(2,3,4) [OF True u s2] same2_view(3) [of v w s] same1_view(3) [of v w s] v(2) True
      by (cases "same2 v w") (auto simp: same2_def)
  next
    case False
    then have s2: "s' = store_pte (pte_addr (root_page_table s) v 1) e s" by (simp add: s')
    show ?thesis using A [OF False u s2] same1_view(3) [of v w s] False by (cases "same1 v w") auto
  qed
  have one: "ok1 s v \<or> (\<forall>w. user_va w \<longrightarrow> \<not> ok2 s w \<longrightarrow> \<not> ok2 s' w)"
  proof (cases "ok1 s v")
    case False
    then have s2: "s' = store_pte (pte_addr (root_page_table s) v 1) e s" by (simp add: s')
    show ?thesis using A [OF False _ s2] same_viewD(3) [OF fr] by metis
  qed simp
  have N': "same_view s s' w \<or> \<not> ok1 s w \<and> ok1 s' w \<and> t2 s' w = p \<and> \<not> ok2 s' w \<and> same1 v w \<or>
      \<not> ok2 s w \<and> ok2 s' w \<and> t3 s' w = p \<and> ok1 s w \<and> t2 s' w = t2 s w \<and> same2 v w" if "user_va w" for w
    using N [OF that] by (elim disjE) simp_all
  show "pt_wf s'" by (rule pt_wf_extend(1) [OF wf fr p N' one])
  show "is_table s' t \<Longrightarrow> is_table s t \<or> t = p" by (rule pt_wf_extend(2) [OF wf fr p N' one])
  show "vmap s' w = vmap s w" if u: "user_va w"
  proof (cases "same_view s s' w")
    case True
    then show ?thesis by (rule same_viewD(5) [OF fr])
  next
    case False
    then show ?thesis using N [OF u] by (auto simp: vmap_def dest: ok2_ok1)
  qed
  show o2: "ok2 s' v" if "ok1 s v"
    using B(3) [OF that v(1) _ refl(2)] s' that by simp
  show "ok1 s' v"
    using A(1) [OF _ v(1) _ refl(1)] s' o2 by (cases "ok1 s v") (simp_all add: ok2_ok1)
qed

section \<open>The operations keep the tree and change the mapping as meant\<close>

text \<open>The invariant of the memory manager: the tables are a tree and no table is on the free list.\<close>

definition vm_inv :: "rt_state \<Rightarrow> u64 list \<Rightarrow> bool" where
  "vm_inv s ps \<longleftrightarrow> spa_rep s ps \<and> pt_wf s \<and> (\<forall>p\<in>set ps. \<not> is_table s p)"

lemma vm_frame_refl [simp]: "vm_frame s s"
  by (simp add: vm_frame_def)

lemma vm_frame_trans [trans]: "vm_frame s s' \<Longrightarrow> vm_frame s' s'' \<Longrightarrow> vm_frame s s''"
  by (simp add: vm_frame_def)

lemma spa_rep_store_pte:
  assumes r: "spa_rep s ps" and t: "IS_ALIGNED t RISCV_PAGE_BITS" "t \<notin> set ps"
  shows "spa_rep (store_pte (pte_addr t v i) e s) ps"
proof -
  let ?s = "store_pte (pte_addr t v i) e s"
  have "load64 (rt_memory ?s) q = load64 (rt_memory s) q" if "q \<in> set ps" for q
  proof -
    have "IS_ALIGNED q RISCV_PAGE_BITS" using r that by (auto simp: spa_rep_def page_ok_def)
    from load_store_pte [OF t(1) this, of v i e s 0 1] show ?thesis
      using that t(2) by (auto simp: pte_addr_0 load_pte_def)
  qed
  then have "chain (rt_memory ?s) ps" using r chain_cong [of ps "rt_memory ?s" "rt_memory s"] by (simp add: spa_rep_def)
  moreover have "page_ok ?s = page_ok s" by (simp add: page_ok_def store_pte_def fun_eq_iff)
  ultimately show ?thesis using r by (simp add: spa_rep_def) (simp add: store_pte_def)
qed

lemma get_zero_table:
  assumes inv: "vm_inv s (p # ps)"
  shows "\<exists>s1. spa_get_zero s = Some (p, s1) \<and> p \<noteq> 0 \<and> vm_inv s1 ps \<and> fresh_table s1 p \<and> p \<notin> set ps \<and>
    vm_frame s s1 \<and> (\<forall>v. user_va v \<longrightarrow> same_view s s1 v)"
proof -
  have r: "spa_rep s (p # ps)" and wf: "pt_wf s" and nt: "\<not> is_table s p" "\<forall>q\<in>set ps. \<not> is_table s q"
    using inv by (auto simp: vm_inv_def)
  have ok: "page_ok s p" and np: "p \<notin> set ps" using r by (auto simp: spa_rep_def)
  obtain s1 where s1: "spa_get_internal True s = Some (p, s1)" "spa_rep s1 ps"
      "rt_memory s1 = mem_write p (replicate 4096 0) (rt_memory s)" and fr: "vm_frame s s1"
    using spa_get_some [OF r, of True] by (auto simp: vm_frame_def)
  have al: "IS_ALIGNED p RISCV_PAGE_BITS" using ok by (simp add: page_ok_def)
  have sv: "same_view s s1 v" if "user_va v" for v
    using zeroed_view [OF wf fr al nt(1) s1(3) that] .
  have tb: "is_table s1 t = is_table s t" for t
    using sv same_viewD [OF fr] fr by (auto simp: is_table_def vm_frame_def)
  have wf1: "pt_wf s1"
    using wf sv same_viewD [OF fr] fr unfolding pt_wf_def tb vm_frame_def by (auto dest!: ok2_ok1)
  have "fresh_table s1 p"
    using page_ok_nonzero [OF ok] al nt(1) load_pte_zeroed [OF al al s1(3)] by (simp add: fresh_table_def tb)
  then show ?thesis
    using s1 fr sv wf1 nt(2) np page_ok_nonzero [OF ok] by (auto simp: spa_get_zero_def vm_inv_def tb)
qed

lemma walk_create_step:
  assumes inv: "vm_inv s (p # ps)" and v: "user_va v" "\<not> ok2 s v"
  shows "\<exists>s'. walk_create (root_page_table s) v s = walk_create (root_page_table s') v s' \<and> vm_inv s' ps \<and>
    vm_frame s s' \<and> (\<forall>w. user_va w \<longrightarrow> vmap s' w = vmap s w) \<and> ok1 s' v \<and> (ok1 s v \<longrightarrow> ok2 s' v)"
proof -
  obtain s1 where s1: "spa_get_zero s = Some (p, s1)" "p \<noteq> 0" and inv1: "vm_inv s1 ps" and f: "fresh_table s1 p"
      and np: "p \<notin> set ps" and fr: "vm_frame s s1" and sv: "\<And>w. user_va w \<Longrightarrow> same_view s s1 w"
    using get_zero_table [OF inv] by blast
  note D = same_viewD [OF fr sv]
  have wf1: "pt_wf s1" using inv1 by (simp add: vm_inv_def)
  let ?t = "if ok1 s1 v then t2 s1 v else root_page_table s1" and ?i = "if ok1 s1 v then 2 else 1"
  let ?e = "ptd_create (ppn (pa_of s1 p))"
  let ?a = "if ok1 s1 v then pte_addr (t2 s1 v) v 2 else pte_addr (root_page_table s1) v 1"
  define s' where "s' = store_pte ?a ?e s1"
  have e: "valid_pte ?e" "next_table s1 ?e = p"
    using f pt_wfD(1) [OF wf1]
    by (simp_all add: ptd_create_def valid_pte_def pte_create_valid table_pointer fresh_table_def)
  have n2: "\<not> ok2 s1 v" using v D(3) by simp
  note A = add_table [OF wf1 v(1) n2 f e s'_def]
  have fr': "vm_frame s1 s'" by (simp add: s'_def)
  have t: "is_table s1 ?t" using v(1) by (simp add: is_table_t2)
  then have "spa_rep s' ps"
    using spa_rep_store_pte [of s1 ps ?t v ?i ?e] inv1 pt_wfD(3) [OF wf1 t] by (auto simp: s'_def vm_inv_def)
  then have "vm_inv s' ps" using A(1,2) inv1 np by (auto simp: vm_inv_def)
  moreover have "walk_loop s v 1 (root_page_table s) = walk_missing ?a"
    using v D(1,2) [OF v(1)] fr by (auto simp: walk_loop_eq vm_frame_def simp del: One_nat_def)
  then have "walk_create (root_page_table s) v s = walk_create (root_page_table s') v s'"
    using s1 fr fr' by (subst walk_create.simps) (simp add: s'_def vm_frame_def del: One_nat_def)
  ultimately show ?thesis
    using A(3,4,5) D(1) [OF v(1)] D(5) vm_frame_trans [OF fr fr'] by (intro exI [of _ s']) auto
qed

lemma walk_create_done:
  assumes "ok2 s v"
  shows "walk_create (root_page_table s) v s = Some (pte_addr (t3 s v) v 3, s)"
  using assms by (subst walk_create.simps) (simp add: walk_loop_eq ok2_ok1 del: One_nat_def)

text \<open>With two free pages the walk returns, and only tables were added.\<close>

lemma walk_create_ok:
  assumes inv: "vm_inv s ps" and v: "user_va v" and len: "2 \<le> length ps"
  shows "\<exists>s' k. walk_create (root_page_table s) v s = Some (pte_addr (t3 s' v) v 3, s') \<and> k \<le> 2 \<and>
    vm_inv s' (drop k ps) \<and> vm_frame s s' \<and> (\<forall>w. user_va w \<longrightarrow> vmap s' w = vmap s w) \<and> ok2 s' v"
proof -
  obtain p q qs where ps: "ps = p # q # qs" using len by (metis Suc_le_length_iff numeral_2_eq_2)
  show ?thesis
  proof (cases "ok2 s v")
    case True
    then show ?thesis using inv walk_create_done by (intro exI [of _ s] exI [of _ 0]) simp
  next
    case n: False
    obtain s1 where s1: "walk_create (root_page_table s) v s = walk_create (root_page_table s1) v s1" "vm_inv s1 (q # qs)"
        "vm_frame s s1" "\<forall>w. user_va w \<longrightarrow> vmap s1 w = vmap s w" "ok1 s1 v"
      using walk_create_step [of s p "q # qs" v] inv v n by (auto simp: ps)
    show ?thesis
    proof (cases "ok2 s1 v")
      case True
      then show ?thesis using s1 walk_create_done by (intro exI [of _ s1] exI [of _ 1]) (simp add: ps)
    next
      case False
      obtain s2 where s2: "walk_create (root_page_table s1) v s1 = walk_create (root_page_table s2) v s2" "vm_inv s2 qs"
          "vm_frame s1 s2" "\<forall>w. user_va w \<longrightarrow> vmap s2 w = vmap s1 w" "ok2 s2 v"
        using walk_create_step [OF s1(2) v False] s1(5) by blast
      then show ?thesis using s1 walk_create_done [OF s2(5)] vm_frame_trans [OF s1(3) s2(3)]
        by (intro exI [of _ s2] exI [of _ 2]) (simp add: ps)
    qed
  qed
qed

text \<open>Writing the leaf entry changes the mapping of its page and nothing else.\<close>

lemma store_leaf:
  assumes inv: "vm_inv s ps" and v: "user_va v" "ok2 s v" and s': "s' = store_pte (pte_addr (t3 s v) v 3) e s"
  shows "vm_inv s' ps" and "user_va w \<Longrightarrow> vmap s' w =
    (if same_page v w then if valid_pte e then Some e else None else vmap s w)"
    and "user_va w \<Longrightarrow> ok1 s' w = ok1 s w \<and> ok2 s' w = ok2 s w \<and> (ok2 s w \<longrightarrow> t3 s' w = t3 s w)" and "leaf s' v = e"
    and "is_table s' = is_table s"
proof -
  have wf: "pt_wf s" using inv by (simp add: vm_inv_def)
  have fr: "vm_frame s s'" by (simp add: s')
  note al = pt_wfD(3) [OF wf]
  note L = load_store_pte [OF al [OF is_table_t3 [OF v]], of _ v 3 e s, folded s']
  have 1: "e1 s' w = e1 s w" for w
    using L [OF al [OF is_table_root], of w 1] pt_wfD(5) [OF wf v] by (simp add: e1_def s')
  have t2: "t2 s' w = t2 s w" and o1: "ok1 s' w = ok1 s w" for w
    by (simp_all add: t2_def ok1_def 1 next_table_frame [OF fr])
  have 2: "e2 s' w = e2 s w" if "user_va w" "ok1 s w" for w
    using L [OF al [OF is_table_t2 [OF that]], of w 2] pt_wfD(8) [OF wf that(1) v(1) that(2) v(2)]
    by (auto simp: e2_def t2)
  then have o2: "ok2 s' w = ok2 s w" if "user_va w" for w using that o1 by (auto simp: ok2_def)
  have t3: "t3 s' w = t3 s w" if "user_va w" "ok2 s w" for w
    using 2 [OF that(1) ok2_ok1 [OF that(2)]] by (simp add: t3_def next_table_frame [OF fr])
  have lf: "leaf s' w = (if same_page v w then e else leaf s w)" if "user_va w" "ok2 s w" for w
    using L [OF al [OF is_table_t3 [OF that]], of w 3] t3 [OF that] pt_wfD(7) [OF wf v(1) that(1) v(2) that(2)]
      same2_view(2) [of v w s] by (auto simp: leaf_def same_page_def)
  show tb: "is_table s' = is_table s" using fr o1 o2 t2 t3 by (auto simp: is_table_def vm_frame_def fun_eq_iff)
  have "pt_wf s'" using wf fr o1 o2 t2 t3 unfolding pt_wf_def tb vm_frame_def by auto
  moreover have "spa_rep s' ps" using spa_rep_store_pte [of s ps "t3 s v" v 3 e] inv al [OF is_table_t3 [OF v]]
      is_table_t3 [OF v] by (auto simp: s' vm_inv_def)
  ultimately show "vm_inv s' ps" using inv by (simp add: vm_inv_def tb)
  show "vmap s' w = (if same_page v w then if valid_pte e then Some e else None else vmap s w)" if "user_va w"
    using o2 [OF that] lf [OF that] same2_view(3) [of v w s] v(2) by (auto simp: vmap_def same_page_def)
  show "user_va w \<Longrightarrow> ok1 s' w = ok1 s w \<and> ok2 s' w = ok2 s w \<and> (ok2 s w \<longrightarrow> t3 s' w = t3 s w)"
    using o1 o2 t3 by blast
  show "leaf s' v = e" using lf [OF v] by (simp add: same_page_def same2_def same1_def)
qed

lemma walk_eq:
  assumes "pt_wf s" and "user_va v"
  shows "walk s (root_page_table s) v = (if ok2 s v then pte_addr (t3 s v) v 3 else 0)"
    and "ok2 s v \<Longrightarrow> walk s (root_page_table s) v \<noteq> 0"
proof -
  show e: "walk s (root_page_table s) v = (if ok2 s v then pte_addr (t3 s v) v 3 else 0)"
    by (auto simp: walk_def walk_loop_eq ok2_def simp del: One_nat_def)
  assume "ok2 s v"
  with pt_wfD(2,3) [OF assms(1) is_table_t3 [OF assms(2) this]] show "walk s (root_page_table s) v \<noteq> 0"
    by (simp add: e pte_addr_nonzero)
qed

lemma translate_eq:
  assumes "pt_wf s" and "user_va v"
  shows "translate s v = (case vmap s v of None \<Rightarrow> 0
    | Some e \<Rightarrow> push_bit RISCV_PAGE_BITS (pte_ppn e) OR RISCV_PAGE_OFFSET v)"
  using walk_eq [OF assms] by (auto simp: translate_def vmap_def valid_pte_def leaf_def Let_def)

lemma map_page_maps:
  assumes inv: "vm_inv s ps" and v: "v = push_bit RISCV_PAGE_BITS vp" "user_va v" and len: "2 \<le> length ps"
    and e: "e = pte_create pp (PTE_D OR PTE_A OR PTE_V OR flags)"
  shows "\<exists>s' k r. map_page vp pp flags s = Some (r, s') \<and> k \<le> 2 \<and> vm_inv s' (drop k ps) \<and> vm_frame s s' \<and>
    r = (if vmap s v = None then 1 else - 1) \<and>
    (\<forall>w. user_va w \<longrightarrow> vmap s' w = (if same_page v w \<and> vmap s v = None then Some e else vmap s w))"
proof -
  obtain s1 k where s1: "walk_create (root_page_table s) v s = Some (pte_addr (t3 s1 v) v 3, s1)" "k \<le> 2"
      "vm_inv s1 (drop k ps)" "vm_frame s s1" "\<forall>w. user_va w \<longrightarrow> vmap s1 w = vmap s w" "ok2 s1 v"
    using walk_create_ok [OF inv v(2) len] by blast
  have vm: "valid_pte (leaf s1 v) \<longleftrightarrow> vmap s v \<noteq> None"
    using s1(5,6) v(2) by (auto simp: vmap_def split: if_splits)
  show ?thesis
  proof (cases "vmap s v = None")
    case True
    let ?s = "store_pte (pte_addr (t3 s1 v) v 3) e s1"
    note L = store_leaf [OF s1(3) v(2) s1(6) refl, where e = e]
    have "map_page vp pp flags s = Some (1, ?s)"
      using s1(1) vm True by (simp add: map_page_def v(1) [symmetric] valid_pte_def leaf_def e)
    moreover have "valid_pte e" by (simp add: e valid_pte_def pte_create_valid)
    ultimately show ?thesis using L(1,2) s1(2,4,5) True vm_frame_trans [OF s1(4) vm_frame_store]
      by (intro exI [of _ ?s] exI [of _ k]) simp
  next
    case False
    then have "map_page vp pp flags s = Some (- 1, s1)"
      using s1(1) vm by (simp add: map_page_def v(1) [symmetric] valid_pte_def leaf_def)
    then show ?thesis using s1 False by (intro exI [of _ s1] exI [of _ k]) auto
  qed
qed

lemma same_page_refl [simp]: "same_page v v"
  by (simp add: same_page_def same2_def same1_def)

text \<open>\<open>alloc_page\<close> for a page that is not mapped: a zeroed page of the free list, mapped there.\<close>

lemma alloc_page_maps:
  assumes inv: "vm_inv s ps" and v: "v = push_bit RISCV_PAGE_BITS vp" "user_va v" and len: "3 \<le> length ps"
    and new: "vmap s v = None"
  shows "\<exists>s' k e. alloc_page vp flags s = Some (ps ! k, s') \<and> k \<le> 2 \<and> vm_inv s' (drop (Suc k) ps) \<and> vm_frame s s' \<and>
    next_table s e = ps ! k \<and> e AND PTE_FLAG_MASK = (PTE_D OR PTE_A OR PTE_V OR flags) AND PTE_FLAG_MASK \<and>
    \<not> is_table s' (ps ! k) \<and>
    (\<forall>w. user_va w \<longrightarrow> vmap s' w = (if same_page v w then Some e else vmap s w))"
proof -
  obtain s1 k where s1: "walk_create (root_page_table s) v s = Some (pte_addr (t3 s1 v) v 3, s1)" "k \<le> 2"
      "vm_inv s1 (drop k ps)" "vm_frame s s1" "\<forall>w. user_va w \<longrightarrow> vmap s1 w = vmap s w" "ok2 s1 v"
    using walk_create_ok [OF inv v(2)] len by auto
  have nv: "\<not> valid_pte (leaf s1 v)" using s1(5,6) v(2) new by (auto simp: vmap_def split: if_splits)
  have k: "drop k ps = ps ! k # drop (Suc k) ps" using s1(2) len by (simp add: Cons_nth_drop_Suc)
  obtain s2 where s2: "spa_get_zero s1 = Some (ps ! k, s2)" "ps ! k \<noteq> 0" "vm_inv s2 (drop (Suc k) ps)"
      "fresh_table s2 (ps ! k)" "vm_frame s1 s2" and sv: "\<And>w. user_va w \<Longrightarrow> same_view s1 s2 w"
    using get_zero_table [OF s1(3) [unfolded k]] by blast
  note D = same_viewD [OF s2(5) sv]
  define e where "e = pte_create (ppn (pa_of s2 (ps ! k))) (PTE_D OR PTE_A OR PTE_V OR flags)"
  let ?s = "store_pte (pte_addr (t3 s2 v) v 3) e s2"
  have o2: "ok2 s2 v" and t3: "t3 s2 v = t3 s1 v" using D [OF v(2)] s1(6) by simp_all
  note L = store_leaf [OF s2(3) v(2) o2 refl, where e = e]
  have fr: "vm_frame s ?s" by (rule vm_frame_trans [OF vm_frame_trans [OF s1(4) s2(5)] vm_frame_store])
  have "is_table s1 (t3 s1 v)" using v(2) s1(6) by (rule is_table_t3)
  then have nz: "pte_addr (t3 s1 v) v 3 \<noteq> 0"
    using s1(3) pt_wfD(2,3) [of s1 "t3 s1 v"] by (simp add: vm_inv_def pte_addr_nonzero)
  have a: "alloc_page vp flags s = Some (ps ! k, ?s)"
    using s1(1) nv nz s2(1,2) by (simp add: alloc_page_def v(1) [symmetric] valid_pte_def leaf_def e_def t3)
  have wf2: "pt_wf s2" using s2(3) by (simp add: vm_inv_def)
  have "next_table s2 e = ps ! k"
    using s2(4) pt_wfD(1) [OF wf2] by (simp add: e_def table_pointer fresh_table_def)
  then have n: "next_table s e = ps ! k"
    using next_table_frame [OF s2(5)] next_table_frame [OF s1(4)] by simp
  have fl: "e AND PTE_FLAG_MASK = (PTE_D OR PTE_A OR PTE_V OR flags) AND PTE_FLAG_MASK"
    unfolding e_def pte_create_flags by (rule bit_word_eqI)
      (auto simp: PTE_V_def PTE_D_def PTE_A_def PTE_FLAG_MASK_def bit_simps)
  have nt: "\<not> is_table ?s (ps ! k)"
    using s2(4) by (simp add: L(5) fresh_table_def)
  have "valid_pte e" by (simp add: e_def valid_pte_def pte_create_valid)
  then show ?thesis
    using a n fl nt fr L(1,2) s1(2,5) D(5) by (intro exI [of _ ?s] exI [of _ k] exI [of _ e]) simp
qed

text \<open>Writing to a page that is no table does not change the mapping.\<close>

lemma other_store_view:
  assumes wf: "pt_wf s" and q: "IS_ALIGNED q RISCV_PAGE_BITS" "\<not> is_table s q" and fr: "vm_frame s s'"
    and m: "rt_memory s' = store64 q x (rt_memory s)" and u: "user_va v"
  shows "same_view s s' v"
proof -
  have L: "load_pte s' (pte_addr t w i) = load_pte s (pte_addr t w i)" if "is_table s t" for t w i
    using load_store_pte [OF q(1) pt_wfD(3) [OF wf that], of 0 i x s w i] q(2) that m
    by (auto simp: pte_addr_0 load_pte_def store_pte_def)
  have 1: "e1 s' v = e1 s v" using L [OF is_table_root] fr by (simp add: e1_def vm_frame_def)
  then have t2: "t2 s' v = t2 s v" by (simp add: t2_def next_table_frame [OF fr])
  have 2: "e2 s' v = e2 s v" if "ok1 s v" using L [OF is_table_t2 [OF u that]] by (simp add: e2_def t2)
  moreover have "leaf s' v = leaf s v" if "ok2 s v"
    using L [OF is_table_t3 [OF u that]] 2 [OF ok2_ok1 [OF that]] by (simp add: leaf_def t3_def next_table_frame [OF fr])
  ultimately show ?thesis using 1 by (simp add: same_view_def)
qed

lemma same_view_wf:
  assumes wf: "pt_wf s" and fr: "vm_frame s s'" and sv: "\<And>v. user_va v \<Longrightarrow> same_view s s' v"
  shows "pt_wf s'" and "is_table s' = is_table s"
proof -
  show tb: "is_table s' = is_table s"
    using sv same_viewD [OF fr] fr by (auto simp: is_table_def vm_frame_def fun_eq_iff)
  show "pt_wf s'" using wf sv same_viewD [OF fr] fr unfolding pt_wf_def tb vm_frame_def by (auto dest!: ok2_ok1)
qed

lemma spa_put_vm:
  assumes inv: "vm_inv s ps" and p: "page_ok s p" "p \<notin> set ps" "\<not> is_table s p" and len: "length ps < 2 ^ 32 - 1"
  shows "\<exists>s'. spa_put p s = Some s' \<and> vm_inv s' (ps @ [p]) \<and> vm_frame s s' \<and>
    (\<forall>w. user_va w \<longrightarrow> vmap s' w = vmap s w)"
proof -
  have r: "spa_rep s ps" and wf: "pt_wf s" and nt: "\<forall>q\<in>set ps. \<not> is_table s q" using inv by (auto simp: vm_inv_def)
  let ?m = "if ps = [] then rt_memory s else store64 (last ps) p (rt_memory s)"
  obtain s' where s': "spa_put p s = Some s'" "spa_rep s' (ps @ [p])" "vm_frame s s'" "rt_memory s' = store64 p 0 ?m"
    using spa_put_page [OF r p(1,2) len] by (auto simp: vm_frame_def)
  define s1 where "s1 = s\<lparr>rt_memory := ?m\<rparr>"
  have f1: "vm_frame s s1" by (simp add: vm_frame_def s1_def)
  have sv1: "same_view s s1 w" if u: "user_va w" for w
  proof (cases "ps = []")
    case True
    then show ?thesis by (simp add: s1_def same_view_def e1_def e2_def leaf_def t2_def t3_def load_pte_def next_table_def va_of_def)
  next
    case False
    then have "last ps \<in> set ps" by simp
    then have "IS_ALIGNED (last ps) RISCV_PAGE_BITS" "\<not> is_table s (last ps)"
      using r nt by (auto simp: spa_rep_def page_ok_def)
    then show ?thesis using False u by (intro other_store_view [OF wf _ _ f1]) (simp_all add: s1_def)
  qed
  note W = same_view_wf [OF wf f1 sv1]
  have f2: "vm_frame s1 s'" using s'(3) by (simp add: vm_frame_def s1_def)
  have sv2: "same_view s1 s' w" if "user_va w" for w
  proof (rule other_store_view [OF W(1) _ _ f2 _ that])
    show "IS_ALIGNED p RISCV_PAGE_BITS" "\<not> is_table s1 p" using p by (simp_all add: page_ok_def W(2))
    show "rt_memory s' = store64 p 0 (rt_memory s1)" unfolding s'(4) s1_def by simp
  qed
  note W' = same_view_wf [OF W(1) f2 sv2]
  have "vm_inv s' (ps @ [p])" using s'(2) W' W(2) nt p(3) by (auto simp: vm_inv_def)
  moreover have "vmap s' w = vmap s w" if "user_va w" for w
    using same_viewD(5) [OF f2 sv2 [OF that]] same_viewD(5) [OF f1 sv1 [OF that]] by simp
  ultimately show ?thesis using s'(1,3) by blast
qed

lemma free_page_unmaps:
  assumes inv: "vm_inv s ps" and v: "v = push_bit RISCV_PAGE_BITS vp" "user_va v" and e: "vmap s v = Some e"
    and u: "e AND PTE_U \<noteq> 0" and p: "page_ok s (next_table s e)" "next_table s e \<notin> set ps" "\<not> is_table s (next_table s e)"
    and len: "length ps < 2 ^ 32 - 1"
  shows "\<exists>s'. free_page vp s = Some s' \<and> vm_inv s' (ps @ [next_table s e]) \<and> vm_frame s s' \<and>
    (\<forall>w. user_va w \<longrightarrow> vmap s' w = (if same_page v w then None else vmap s w))"
proof -
  have o: "ok2 s v" "e = leaf s v" "valid_pte e" using e by (auto simp: vmap_def split: if_splits)
  have wf: "pt_wf s" using inv by (simp add: vm_inv_def)
  let ?s = "store_pte (pte_addr (t3 s v) v 3) 0 s"
  note L = store_leaf [OF inv v(2) o(1) refl, where e = 0]
  have fr: "vm_frame s ?s" by simp
  have "page_ok ?s (next_table s e)" using p(1) by (simp add: page_ok_def store_pte_def)
  then obtain s' where s': "spa_put (next_table s e) ?s = Some s'" "vm_inv s' (ps @ [next_table s e])" "vm_frame ?s s'"
      "\<forall>w. user_va w \<longrightarrow> vmap s' w = vmap ?s w"
    using spa_put_vm [OF L(1) _ p(2) _ len] p(3) L(5) by auto
  have "free_page vp s = Some s'"
    using walk_eq [OF wf v(2)] o u s'(1)
    by (simp add: free_page_def v(1) [symmetric] valid_pte_def leaf_def next_table_def va_of_def)
  then show ?thesis using s' L(2) vm_frame_trans [OF fr s'(3)] by auto
qed

text \<open>A page allocated and freed again: the mapping is as before and the page is last on the free list.\<close>

lemma alloc_free_page:
  assumes inv: "vm_inv s ps" and v: "v = push_bit RISCV_PAGE_BITS vp" "user_va v" and len: "3 \<le> length ps"
    and new: "vmap s v = None" and u: "flags AND PTE_U \<noteq> 0"
  shows "\<exists>s1 s2 k. alloc_page vp flags s = Some (ps ! k, s1) \<and> free_page vp s1 = Some s2 \<and> k \<le> 2 \<and>
    vm_inv s2 (drop (Suc k) ps @ [ps ! k]) \<and> (\<forall>w. user_va w \<longrightarrow> vmap s2 w = vmap s w)"
proof -
  obtain s1 k e where s1: "alloc_page vp flags s = Some (ps ! k, s1)" "k \<le> 2" "vm_inv s1 (drop (Suc k) ps)" "vm_frame s s1"
      "next_table s e = ps ! k" "e AND PTE_FLAG_MASK = (PTE_D OR PTE_A OR PTE_V OR flags) AND PTE_FLAG_MASK"
      "\<not> is_table s1 (ps ! k)" and vm: "\<forall>w. user_va w \<longrightarrow> vmap s1 w = (if same_page v w then Some e else vmap s w)"
    using alloc_page_maps [OF inv v len new] by blast
  have r: "spa_rep s ps" using inv by (simp add: vm_inv_def)
  have k: "k < length ps" using s1(2) len by simp
  then have "page_ok s (ps ! k)" using r by (simp add: spa_rep_def)
  then have ok: "page_ok s1 (ps ! k)" using s1(4) by (simp add: page_ok_def vm_frame_def)
  have "distinct (drop k ps)" using r by (simp add: spa_rep_def)
  then have np: "ps ! k \<notin> set (drop (Suc k) ps)" using k by (simp add: Cons_nth_drop_Suc [symmetric])
  have nt: "next_table s1 e = ps ! k" using s1(5) next_table_frame [OF s1(4)] by simp
  have m: "(x AND PTE_FLAG_MASK) AND PTE_U = x AND PTE_U" for x
    by (simp add: PTE_FLAG_MASK_def PTE_U_def and.assoc)
  have "(PTE_D OR PTE_A OR PTE_V OR flags) AND PTE_U = flags AND PTE_U"
    by (simp add: PTE_D_def PTE_A_def PTE_V_def PTE_U_def bit.conj_disj_distrib2)
  then have eu: "e AND PTE_U \<noteq> 0" using u m [of e] m [of "PTE_D OR PTE_A OR PTE_V OR flags"] s1(6) by simp
  have "vmap s1 v = Some e" using vm v(2) by simp
  moreover have "length ps < 2 ^ 32" using r by (simp add: spa_rep_def)
  then have "length (drop (Suc k) ps) < 2 ^ 32 - 1" using k unfolding length_drop by linarith
  ultimately
  obtain s2 where "free_page vp s1 = Some s2" "vm_inv s2 (drop (Suc k) ps @ [ps ! k])"
      "\<forall>w. user_va w \<longrightarrow> vmap s2 w = (if same_page v w then None else vmap s1 w)"
    using free_page_unmaps [OF s1(3) v _ eu] ok np s1(7) unfolding nt by blast
  moreover have "vmap s w = None" if "same_page v w" "user_va w" for w
    using that new same2_view [of v w s] by (auto simp: vmap_def leaf_def same_page_def pte_addr_def split: if_splits)
  ultimately show ?thesis using s1(1,2) vm by (intro exI [of _ s1] exI [of _ s2] exI [of _ k]) auto
qed

text \<open>\<open>test_va_range\<close> counts the pages before the first one in use.\<close>

lemma test_va_loop_eq:
  assumes "unat i + n < 2 ^ 32"
  shows "\<exists>k\<le>n. test_va_loop n i vp s = i + of_nat k \<and> (\<forall>j<k. \<not> page_in_use s (vp + ucast (i + of_nat j))) \<and>
    (k < n \<longrightarrow> page_in_use s (vp + ucast (i + of_nat k)))"
  using assms
proof (induction n arbitrary: i)
  case (Suc n)
  show ?case
  proof (cases "page_in_use s (vp + ucast i)")
    case True
    then show ?thesis by (intro exI [of _ 0]) simp
  next
    case False
    have "unat (i + 1) + n < 2 ^ 32"
      using Suc.prems unat_word_ariths(1) [of i 1] by simp
    then obtain k where k: "k \<le> n" "test_va_loop n (i + 1) vp s = i + 1 + of_nat k"
        "\<forall>j<k. \<not> page_in_use s (vp + ucast (i + 1 + of_nat j))" "k < n \<longrightarrow> page_in_use s (vp + ucast (i + 1 + of_nat k))"
      using Suc.IH by blast
    have "\<not> page_in_use s (vp + ucast (i + of_nat j))" if "j < Suc k" for j
      using that False k(3) by (cases j) (auto simp: add.assoc)
    then show ?thesis using k False by (intro exI [of _ "Suc k"]) (auto simp: add.assoc)
  qed
qed (auto intro: exI [of _ 0])

lemma test_va_range_eq:
  assumes "unat count < 2 ^ 32"
  shows "\<exists>k\<le>unat count. test_va_range vp count s = Some (of_nat k) \<and>
    (\<forall>j<k. \<not> page_in_use s (vp + of_nat j)) \<and> (k < unat count \<longrightarrow> page_in_use s (vp + of_nat k))"
proof -
  have u: "(ucast (of_nat j :: u32) :: u64) = of_nat j" if "j < 2 ^ 32" for j
    using that by (simp add: word_unat_eq_iff unsigned_ucast_eq unsigned_of_nat take_bit_nat_eq_self)
  obtain k where k: "k \<le> unat count" "test_va_loop (unat count) 0 vp s = of_nat k"
      "\<forall>j<k. \<not> page_in_use s (vp + ucast (of_nat j :: u32))" "k < unat count \<longrightarrow> page_in_use s (vp + ucast (of_nat k :: u32))"
    using test_va_loop_eq [of 0 "unat count" vp s] assms by auto
  then have "test_va_range vp count s = Some (of_nat k)" using assms u [of k] by (simp add: test_va_range_def)
  moreover have "\<not> page_in_use s (vp + of_nat j)" if "j < k" for j
    using k(1,3) that assms u [of j] by force
  ultimately show ?thesis using k u [of k] assms by (intro exI [of _ k]) auto
qed

section \<open>Properties of the page tables\<close>

text \<open>A state with an empty root table and three free pages.\<close>

definition rt_small :: rt_state where
  "rt_small = rt_zero\<lparr>root_page_table := 0x1000,
     spa_free_pages := \<lparr>pl_head = 0xffffffff80001000, pl_tail = 0xffffffff80003000, pl_count = 3\<rparr>,
     rt_memory := store64 0xffffffff80001000 0xffffffff80002000 (store64 0xffffffff80002000 0xffffffff80003000 (\<lambda>a. 0))\<rparr>"

lemma load64_zero: "load64 (\<lambda>a. 0) a = 0"
proof -
  have "bytes_word (mem_read (\<lambda>_. 0) a n) = 0" for n
    by (induction n arbitrary: a) (simp_all add: mem_read_Suc bytes_word_def)
  then show ?thesis by (simp add: load64_def)
qed

lemma rt_small_rep: "spa_rep rt_small [0xffffffff80001000, 0xffffffff80002000, 0xffffffff80003000]"
proof -
  have al: "IS_ALIGNED 0xffffffff80001000 RISCV_PAGE_BITS" "IS_ALIGNED 0xffffffff80002000 RISCV_PAGE_BITS"
      "IS_ALIGNED 0xffffffff80003000 RISCV_PAGE_BITS"
    by (simp_all add: is_aligned_iff)
  show ?thesis
    using al by (simp add: load64_zero spa_rep_def rt_small_def rt_zero_def page_ok_def EYRIE_LOAD_START_def load_store64_page)
qed

lemma rt_small_empty: "\<not> ok1 rt_small v"
proof -
  let ?p1 = "0xffffffff80001000" and ?p2 = "0xffffffff80002000"
  define s where "s = rt_small\<lparr>rt_memory := \<lambda>a. 0\<rparr>"
  have e: "rt_small = store_pte (pte_addr ?p1 0 0) ?p2 (store_pte (pte_addr ?p2 0 0) 0xffffffff80003000 s)"
    by (simp add: pte_addr_0 store_pte_def rt_small_def s_def)
  have al: "IS_ALIGNED ?p1 RISCV_PAGE_BITS" "IS_ALIGNED ?p2 RISCV_PAGE_BITS" "IS_ALIGNED 0x1000 RISCV_PAGE_BITS"
    by (simp_all add: is_aligned_iff)
  have "load_pte (store_pte (pte_addr q 0 0) x t) (pte_addr 0x1000 v 1) = load_pte t (pte_addr 0x1000 v 1)"
    if "IS_ALIGNED q RISCV_PAGE_BITS" "q \<noteq> 0x1000" for q x t
    using load_store_pte [OF that(1) al(3), of 0 0 x t v 1] that(2) by simp
  then have "load_pte rt_small (pte_addr 0x1000 v 1) = load_pte s (pte_addr 0x1000 v 1)"
    unfolding e using al(1,2) by simp
  also have "\<dots> = 0" by (simp add: load_pte_def s_def load64_zero)
  finally show ?thesis by (simp add: ok1_def e1_def rt_small_def)
qed

lemma rt_small_inv: "vm_inv rt_small [0xffffffff80001000, 0xffffffff80002000, 0xffffffff80003000]"
proof -
  have t: "is_table rt_small t \<longleftrightarrow> t = 0x1000" for t
    using rt_small_empty ok2_ok1 by (auto simp: is_table_def rt_small_def)
  have "pt_wf rt_small"
    unfolding pt_wf_def t using rt_small_empty ok2_ok1 by (auto simp: rt_small_def rt_zero_def is_aligned_iff)
  then show ?thesis using rt_small_rep t by (simp add: vm_inv_def)
qed

lemma rt_small_map: "vmap rt_small v = None"
  using rt_small_empty ok2_ok1 by (auto simp: vmap_def)

text \<open>
  C33. \<open>map_page\<close> maps one page and nothing else. With two free pages for the missing tables it
  returns 1 and enters the frame with the given flags, if the page was not mapped, and -1 if it
  was. Every other page of the user's half keeps its translation, the tables stay a tree of pages that
  are not free, and the pages it took were the first of the free list.
\<close>

theorem map_page_maps_one_page:
  assumes "vm_inv s ps" and "v = push_bit RISCV_PAGE_BITS vp" and "user_va v" and "2 \<le> length ps"
  shows "\<exists>s' k r. map_page vp pp flags s = Some (r, s') \<and> k \<le> 2 \<and> vm_inv s' (drop k ps) \<and>
    r = (if vmap s v = None then 1 else - 1) \<and>
    (\<forall>w. user_va w \<longrightarrow> vmap s' w = (if same_page v w \<and> vmap s v = None
       then Some (pte_create pp (PTE_D OR PTE_A OR PTE_V OR flags)) else vmap s w))"
  using map_page_maps [OF assms refl, of pp flags] by blast

theorem map_page_maps_one_page_witness:
  "\<exists>s'. map_page 5 7 PTE_R rt_small = Some (1, s') \<and> vmap s' 0x5000 = Some (pte_create 7 (PTE_D OR PTE_A OR PTE_V OR PTE_R))"
proof -
  have v: "(0x5000 :: u64) = push_bit RISCV_PAGE_BITS 5" "user_va 0x5000"
    by (simp_all add: RISCV_PAGE_BITS_def user_va_def RISCV_GET_PT_INDEX_def EYRIE_LOAD_START_def cfg_defs mask_eq_exp_minus_1)
  show ?thesis using map_page_maps_one_page [OF rt_small_inv v, of 7 PTE_R] v(2) by (auto simp: rt_small_map)
qed

text \<open>
  C34. \<open>free_page\<close> undoes \<open>alloc_page\<close>. For a user page that is not mapped, with three free pages,
  \<open>alloc_page\<close> returns a page of the free list and \<open>free_page\<close> then returns: every translation of the
  user's half is what it was, and the page is the last one of the free list.
\<close>

theorem alloc_free_page_roundtrip:
  assumes "vm_inv s ps" and "v = push_bit RISCV_PAGE_BITS vp" and "user_va v" and "3 \<le> length ps"
    and "vmap s v = None" and "flags AND PTE_U \<noteq> 0"
  shows "\<exists>s1 s2 k. alloc_page vp flags s = Some (ps ! k, s1) \<and> free_page vp s1 = Some s2 \<and> k \<le> 2 \<and>
    vm_inv s2 (drop (Suc k) ps @ [ps ! k]) \<and> (\<forall>w. user_va w \<longrightarrow> vmap s2 w = vmap s w)"
  using assms by (rule alloc_free_page)

theorem alloc_free_page_roundtrip_witness:
  "\<exists>p s1 s2. alloc_page 5 PTE_U rt_small = Some (p, s1) \<and> free_page 5 s1 = Some s2 \<and> vmap s2 0x5000 = None"
proof -
  have v: "(0x5000 :: u64) = push_bit RISCV_PAGE_BITS 5" "user_va 0x5000"
    by (simp_all add: RISCV_PAGE_BITS_def user_va_def RISCV_GET_PT_INDEX_def EYRIE_LOAD_START_def cfg_defs mask_eq_exp_minus_1)
  show ?thesis using alloc_free_page_roundtrip [OF rt_small_inv v, of PTE_U] v(2) by (auto simp: rt_small_map PTE_U_def)
qed

end
