(* ===== verification/Spec2Isabelle.thy ===== *)
theory Spec2Isabelle
  imports Scenario Edge Sha256 VM
begin

text \<open>
  A verification development of the Keystone enclave framework. An enclave is a program in private
  memory (EPM) with a buffer (UTM) that it shares with the operating system. The security monitor
  (\<open>src/sm\<close>) runs in machine mode; it creates, runs, measures and destroys enclaves, and isolates
  them with the physical memory protection (PMP) registers of every hart. Inside an enclave, the
  runtime (\<open>src/runtime\<close>) manages memory; the enclave and its host exchange edge calls through the
  shared buffer (\<open>src/sdk\<close>). The model is that of an RV64 build for the generic platform, the
  runtime without paging.

  \<^bold>\<open>Conventions.\<close> Machine integers are words, memory is a function from addresses to bytes, and
  state is passed explicitly. Error codes are returned as in C. The type \<open>option\<close> is used for code that
  may hang, fail an assertion or loop forever: \<open>None\<close> is this outcome, and the theorems say where it
  does not occur. Loops that may not end are defined with \<open>partial_function\<close>; no definition has fuel.
  An operation under a spin lock is one step.

  \<^bold>\<open>The monitor.\<close>
  \<^item> \<open>Prelude\<close>: words, memory and bitmaps, and two interfaces: \<open>incremental_hash\<close> (hashing in pieces) and
    \<open>state_invariant\<close> (an invariant of a step relation).
  \<^item> \<open>SM_Interface\<close>, \<open>Platform\<close>: \<open>sm_err.h\<close>, \<open>sm_call.h\<close>, \<open>platform/generic\<close>.
  \<^item> \<open>PMP\<close>: the region table and the registers, \<open>pmp.c\<close> and \<open>ipi.c\<close>; its invariant \<open>pmp_wf\<close>.
    \<open>PMP_Hardware\<close>: the access check of the PMP unit, from the privileged architecture; \<open>hart_pmp\<close>
    relates the registers of a hart to a map from regions to permissions, which setting and clearing
    a region refine.
  \<^item> \<open>Thread\<close>: \<open>thread.c\<close>, \<open>cpu.c\<close>. \<open>Mprv\<close>: the copies of \<open>mprv.h\<close> and \<open>mprv.S\<close> through the address
    translation of the caller, which is a parameter.
  \<^item> \<open>Sha3\<close>, \<open>Kdf\<close>: \<open>sha3.c\<close>, \<open>hmac_sha3.c\<close>, \<open>hkdf_sha3_512.c\<close>, compared with FIPS 202, RFC 2104 and
    RFC 5869.
  \<^item> \<open>SM_State\<close>, \<open>Attest\<close>, \<open>Enclave\<close>, \<open>SBI\<close>: the globals as the record \<open>sm_state\<close>, the circumstances of a
    call as the record \<open>sm_env\<close>, \<open>crypto.c\<close>, \<open>attest.c\<close>, \<open>enclave.c\<close>, the plugins, \<open>sm-sbi.c\<close>, the SBI
    handler, the trap handler and \<open>sm_init\<close>.

  \<^bold>\<open>The proofs about the monitor.\<close> \<open>Isolation\<close> states the invariant \<open>sm_inv\<close> and proves it for the
  context switches; \<open>Lifecycle\<close> for creation and destruction; \<open>Reachable\<close> for the handler, the traps
  and the boot, and defines the reachable states. \<open>Report\<close> describes the attestation report and the
  sealing key, and \<open>Scenario\<close> runs the machine with two harts from the boot to a running enclave. This
  theory states the properties that span these parts.

  \<^bold>\<open>The runtime and edge calls.\<close> \<open>Rt_String\<close> (\<open>util/string.c\<close>), \<open>Sha256\<close> (\<open>crypto/sha256.c\<close>), \<open>Freemem\<close>
  (\<open>mm/freemem.c\<close>, \<open>freemem_ld.c\<close>: both allocators implement the interface \<open>page_source\<close>, the first
  one also \<open>page_allocator\<close>), \<open>VM\<close> (\<open>mm/vm.c\<close>, \<open>mm/mm.c\<close>: page tables as a partial map from addresses
  to entries) and \<open>Edge\<close> (\<open>src/sdk/src/edge\<close>).

  \<^bold>\<open>What the isolation theorems assume.\<close> The steps of the machine are calls of the handler, traps and
  instructions that store where the PMP of their hart allows. \<open>env_ok\<close> lists what is expected of
  OpenSBI and the hardware. Two situations that the code does not prevent are excluded: a private
  region in the last PMP register (\<open>epm_low\<close>; \<open>PMP_Hardware\<close> proves that the code can get there and
  that the isolation is lost then) and a sealing key written into the monitor's memory
  (\<open>sealing_ok\<close>; the globals are fields of the state and not bytes of its memory). Calls do
  not interleave with each other. Timing and caches are not modelled.

  \<^bold>\<open>Parameters.\<close> OpenSBI (delivery of PMP updates, exception handlers), the signature function
  Ed25519, the cycle counter, the keys of the boot ROM, and the host's system calls.

  \<^bold>\<open>Not modelled.\<close> Assembly entry code, the other platforms, curve arithmetic, the boot ROM, the
  loader, system calls and paging of the runtime, the C++ libraries of the SDK, and the Linux driver:
  they are I/O, alternatives to what is modelled, or calls of code that is not part of the repository.
\<close>

section \<open>Isolation\<close>

text \<open>
  C1. The private memory of an enclave is isolated. In every reachable state, a hart on which the
  enclave does not run can neither read, write nor execute a byte of its private memory, whether
  the operating system, another enclave or nothing at all runs there. Reachable means by steps that
  give no private region the last PMP register and put no sealing key into the monitor's memory,
  here and in the next three properties; the code itself does not exclude these two.
\<close>

theorem epm_isolated:
  assumes "reachable H s" and "h \<in> H" and "live s i" and "\<not> runs s h i" and "epm_byte s i a"
    and "q AND PMP_ALL_PERM = q" and "q \<noteq> 0"
  shows "\<not> pmp_allows (h_pmp (harts s h)) a q"
  using epm_no_access [OF reachable_sm_inv [OF assms(1)] assms(2,3,4) _ assms(6,7)] assms(5) by (simp add: epm_byte_def)

lemma epm_entry_byte: "in_region epm_entry 0x90000010"
  by (simp add: in_region_def epm_entry_def)

theorem epm_isolated_witness:
  "\<exists>s. reachable {0, 1} s \<and> runs s 0 0 \<and> \<not> pmp_allows (h_pmp (harts s 1)) 0x90000010 PMP_R"
proof -
  obtain s where s: "running_ex s" using scenario_running by blast
  have "\<not> pmp_allows (h_pmp (harts s 1)) 0x90000010 PMP_R"
    by (rule epm_isolated [of "{0, 1}" _ _ 0]) (use s epm_entry_byte in \<open>simp_all add: running_ex_def epm_byte_def perm_bits\<close>)
  then show ?thesis using s by (auto simp: running_ex_def)
qed



text \<open>
  C3. The monitor's memory is protected. In every reachable state, no hart outside machine mode can
  access a byte of the memory the monitor runs in.
\<close>

theorem sm_memory_protected:
  assumes "reachable H s" and "h \<in> H" and "unat SMM_BASE \<le> unat a" and "unat a < unat SMM_BASE + unat SMM_SIZE"
    and "q AND PMP_ALL_PERM = q" and "q \<noteq> 0"
  shows "\<not> pmp_allows (h_pmp (harts s h)) a q"
  using reachable_sm_inv [OF assms(1)] assms(2-) by (rule sm_no_access)

theorem sm_memory_protected_witness:
  "\<exists>s. reachable {0, 1} s \<and> runs s 0 0 \<and> \<not> pmp_allows (h_pmp (harts s 0)) 0x80000000 PMP_W"
proof -
  obtain s where s: "running_ex s" using scenario_running by blast
  have "\<not> pmp_allows (h_pmp (harts s 0)) 0x80000000 PMP_W"
    by (rule sm_memory_protected [of "{0, 1}"]) (use s in \<open>simp_all add: running_ex_def perm_bits cfg_defs\<close>)
  then show ?thesis using s by (auto simp: running_ex_def)
qed


lemma reachable_low: "reachable H s \<Longrightarrow> epm_low s"
  using live_regions(8) [OF reachable_sm_inv] by (auto simp: epm_low_def)




section \<open>The life of an enclave\<close>



text \<open>
  C6. The creation of an enclave. With any arguments the call returns. If it fails, the invariant
  holds, memory is as before and the same enclaves live. If it succeeds, the identifier was free and
  is now an enclave in the state \<open>FRESH\<close> whose private and shared regions are the requested ones,
  the shared buffer holds zeros, no other byte has changed, and its measurement is the hash of what
  the private memory holds.
\<close>

theorem create_enclave_outcome:
  assumes inv: "sm_inv H s" and ipi: "H \<subseteq> set (ipi_harts env)"
  shows "\<exists>ret out s'. create_enclave env eidptr args s = Some (ret, out, s') \<and> keeps_enclaves {} s s' \<and>
    (if ret \<noteq> SBI_ERR_SM_ENCLAVE_SUCCESS then sm_inv H s' \<and> memory s' = memory s \<and> live s' = live s
     else \<exists>i. out = of_nat i \<and> \<not> live s i \<and> live s' i \<and> e_state (enclaves s' ! i) = FRESH \<and>
       rg_addr (regions (pmp s') ! epm s' i) = paddr (epm_region args) \<and> rg_size (regions (pmp s') ! epm s' i) = pr_size (epm_region args) \<and>
       rg_addr (regions (pmp s') ! utm s' i) = paddr (utm_region args) \<and> rg_size (regions (pmp s') ! utm s' i) = pr_size (utm_region args) \<and>
       (\<forall>a. memory s' a = (if a - paddr (utm_region args) < pr_size (utm_region args) then 0 else memory s a)) \<and>
       e_hash (enclaves s' ! i) = sha3 (measured (memory s') (create_params args)) MDSIZE)"
proof -
  obtain ret out s' where cr: "create_enclave env eidptr args s = Some (ret, out, s')"
    using create_enclave_returns [OF inv] by blast
  show ?thesis
  proof (cases "ret = SBI_ERR_SM_ENCLAVE_SUCCESS")
    case False
    then show ?thesis using create_enclave_cases [OF inv ipi cr] cr by auto
  next
    case True
    obtain i k u where c: "created H args i k u s s'" "out = of_nat i"
        and h: "e_hash (enclaves s' ! i) = sha3 (measured (memory s') (create_params args)) MDSIZE"
      by (rule created_measurement [OF inv ipi cr [unfolded True]])
    have "\<not> live s i" "e_state (enclaves s' ! i) = FRESH" using c(1) by (auto simp: created_def live_def)
    then show ?thesis
      using cr True c h created_epm [OF inv c(1)] created_keeps [OF inv c(1)] by (auto simp: created_def mem_set_def)
  qed
qed

theorem create_enclave_outcome_witness:
  "\<exists>s s'. reachable {0, 1} s \<and> create_enclave env_ex 0 args_ex s = Some (SBI_ERR_SM_ENCLAVE_SUCCESS, 0, s') \<and>
     memory s' 0x92000010 = 0 \<and> keeps_enclaves {} s s'"
proof -
  obtain s where s: "booted {0, 1} s" "reachable {0, 1} s" using scenario_boot by blast
  obtain s' where cr: "create_enclave env_ex 0 args_ex s = Some (SBI_ERR_SM_ENCLAVE_SUCCESS, 0, s')" using create_ex [OF s(1)] by blast
  have ipi: "{0, 1} \<subseteq> set (ipi_harts env_ex)" by (simp add: env_ex_def)
  have "memory s' 0x92000010 = 0 \<and> keeps_enclaves {} s s'"
    using create_enclave_outcome [OF booted_inv [OF s(1)] ipi, of 0 args_ex] cr by (auto simp: args_ex_def)
  then show ?thesis using cr s(2) by blast
qed

text \<open>
  C7. The destruction of an enclave. It succeeds exactly for an enclave that lives and does not
  run, and changes nothing otherwise. After it the enclave does not live, every byte of its private
  memory is 0, every other byte is unchanged, the other enclaves keep their regions, and the
  invariant holds.
\<close>

theorem destroy_enclave_outcome:
  assumes inv: "sm_inv H s" and ipi: "H \<subseteq> set (ipi_harts env)"
  shows "if live s (unat eid) \<and> e_state (enclaves s ! unat eid) \<noteq> RUNNING
    then \<exists>s'. destroy_enclave env eid s = Some (SBI_ERR_SM_ENCLAVE_SUCCESS, s') \<and> sm_inv H s' \<and> \<not> live s' (unat eid) \<and>
      keeps_enclaves {unat eid} s s' \<and> (\<forall>a. memory s' a = (if epm_byte s (unat eid) a then 0 else memory s a))
    else destroy_enclave env eid s = Some (SBI_ERR_SM_ENCLAVE_NOT_DESTROYABLE, s)"
proof (cases "live s (unat eid) \<and> e_state (enclaves s ! unat eid) \<noteq> RUNNING")
  case True
  then obtain s' where d: "destroy_enclave env eid s = Some (SBI_ERR_SM_ENCLAVE_SUCCESS, s')" "destroyed H (unat eid) s s'"
    using destroy_enclave_cases [OF inv ipi, of eid] by auto
  note lr = live_regions [OF inv conjunct1 [OF True]]
  have "region_ok (regions (pmp s) ! epm s (unat eid))"
    using pmp_wfD(2) [OF sm_invD(2) [OF inv]] lr(3) by (simp add: region_valid_def)
  then have "memory s' a = memory s a" if "\<not> epm_byte s (unat eid) a" for a
    using mem_set_in_region [OF _ lr(5)] that d(2) by (auto simp: destroyed_def epm_byte_def mem_set_def)
  moreover have "\<not> live s' (unat eid)" using d(2) by (simp add: destroyed_def live_def)
  ultimately show ?thesis
    using True d destroyed_inv [OF inv _ _ d(2)] destroyed_zero [OF inv _ d(2)] destroyed_keeps [OF inv _ d(2)] by auto
next
  case False
  then show ?thesis using destroy_enclave_cases [OF inv ipi, of eid] by (simp split: if_splits)
qed

theorem destroy_enclave_outcome_witness:
  "\<exists>s s'. fresh_ex s \<and> destroy_enclave env_ex 0 s = Some (SBI_ERR_SM_ENCLAVE_SUCCESS, s') \<and> \<not> live s' 0 \<and> memory s' 0x90000010 = 0"
proof -
  obtain s where s: "fresh_ex s" using scenario_fresh by blast
  then have inv: "sm_inv {0, 1} s" using reachable_sm_inv by (simp add: fresh_ex_def)
  have ipi: "{0, 1} \<subseteq> set (ipi_harts env_ex)" by (simp add: env_ex_def)
  show ?thesis
    using destroy_enclave_outcome [OF inv ipi, of 0] s epm_entry_byte by (auto simp: fresh_ex_def epm_byte_def)
qed

text \<open>
  C9. Entering an enclave. From the host, \<open>run_enclave\<close> succeeds exactly for an enclave in the state
  \<open>FRESH\<close> and \<open>resume_enclave\<close> exactly for one in the state \<open>STOPPED\<close>. The enclave then runs on the
  hart, the invariant holds and memory is unchanged. Otherwise the call changes nothing.
\<close>

theorem enter_enclave_outcome:
  assumes inv: "sm_inv H s" and h: "mhartid env \<in> H" "\<not> is_enclave (cpus s (mhartid env))"
  shows "(if live s (unat eid) \<and> e_state (enclaves s ! unat eid) = FRESH
      then \<exists>regs' s'. run_enclave env regs eid s = Some (SBI_ERR_SM_ENCLAVE_SUCCESS, regs', s') \<and> entered H (mhartid env) (unat eid) s s'
      else run_enclave env regs eid s = Some (SBI_ERR_SM_ENCLAVE_NOT_FRESH, regs, s)) \<and>
    (if live s (unat eid) \<and> e_state (enclaves s ! unat eid) = STOPPED
      then \<exists>regs' s'. resume_enclave env regs eid s = Some (SBI_ERR_SM_ENCLAVE_SUCCESS, regs', s') \<and> entered H (mhartid env) (unat eid) s s'
      else resume_enclave env regs eid s = Some (SBI_ERR_SM_ENCLAVE_NOT_RESUMABLE, regs, s))"
  using run_enclave_cases [OF assms, of eid regs] resume_enclave_cases [OF assms, of eid regs] by blast

theorem enter_enclave_outcome_witness:
  "\<exists>s regs' s'. fresh_ex s \<and> run_enclave env_ex (regs_ex 0) 0 s = Some (SBI_ERR_SM_ENCLAVE_SUCCESS, regs', s') \<and> runs s' 0 0 \<and>
     resume_enclave env_ex (regs_ex 0) 0 s = Some (SBI_ERR_SM_ENCLAVE_NOT_RESUMABLE, regs_ex 0, s)"
proof -
  obtain s where s: "fresh_ex s" using scenario_fresh by blast
  then have inv: "sm_inv {0, 1} s" using reachable_sm_inv by (simp add: fresh_ex_def)
  have h: "mhartid env_ex \<in> {0, 1}" "\<not> is_enclave (cpus s (mhartid env_ex))" using s by (simp_all add: env_ex_def fresh_ex_def)
  show ?thesis
    using enter_enclave_outcome [OF inv h, of 0 "regs_ex 0"] s by (auto simp: fresh_ex_def entered_def env_ex_def)
qed





section \<open>Attestation and sealing\<close>

text \<open>
  C11. The report that an attestation delivers. When \<open>attest_enclave\<close> succeeds, the caller's buffer
  received the measurement of the enclave, the length of its data, the data it asked to include, the
  signature of exactly these three under the monitor's key, and the identity of the monitor and of
  the device. Between the data and the signature it also received the bytes that the monitor's
  stack held before the call. The monitor wrote nothing else outside its own report.
\<close>

theorem attestation_report:
  assumes "attest_enclave env rp dp sz eid s = (SBI_ERR_SM_ENCLAVE_SUCCESS, s')"
    and "no_alias (xread env) dp (unat sz) (frame env + REPORT_DATA) (unat sz)"
    and "no_alias (xwrite env) rp sizeof_report (frame env) sizeof_report"
    and "keys_ok s" and "length (e_hash (enclaves s ! unat eid)) = 64" and "\<forall>m p k. length (ed25519_sign env m p k) = 64"
  shows "\<exists>data m. mprv_read (xread env) (memory s) dp (unat sz) = Some data \<and>
    (\<forall>x. \<not> unat (x - frame env) < sizeof_report \<longrightarrow> m x = memory s x) \<and>
    mprv_write (xwrite env) rp
      (let hash = e_hash (enclaves s ! unat eid)
       in hash @ word_bytes sz @ data @
          mem_read (memory s) (frame env + REPORT_DATA + of_nat (unat sz)) (ATTEST_DATA_MAXLEN - unat sz) @
          ed25519_sign env (hash @ word_bytes sz @ data) (sm_public_key s) (sm_private_key s) @
          sm_hash s @ sm_public_key s @ sm_signature s @ dev_public_key s) m = Some (memory s')"
  using attest_report [OF assms(1-5)] assms(6) unfolding report_bytes_def by blast

lemma mprv_write_all: "\<exists>m'. mprv_write Some dst bs m = Some m'"
  by (induction bs arbitrary: dst m) auto

definition attest_ex :: sm_state where
  "attest_ex = sm_zero\<lparr>enclaves := replicate 16 (enclave_zero\<lparr>e_state := RUNNING, e_hash := replicate 64 9\<rparr>), sm_hash := replicate 64 1,
     sm_signature := replicate 64 2, sm_public_key := replicate 32 3, dev_public_key := replicate 32 4\<rparr>"

lemma attest_ex_no_alias: "no_alias Some 0x90000000 sizeof_report 0x80100000 sizeof_report"
proof -
  have "\<not> unat (0x90000000 + of_nat i - 0x80100000 :: u64) < 1352" if "i < 1352" for i :: nat
  proof -
    have e: "0x90000000 + of_nat i - 0x80100000 = (of_nat (267386880 + i) :: u64)" by simp
    show ?thesis unfolding e using that by (simp add: unsigned_of_nat take_bit_nat_eq_self del: of_nat_add)
  qed
  then show ?thesis by (simp add: no_alias_def sizeof_report_def)
qed

lemma attest_ex_succeeds:
  "\<exists>s'. attest_enclave (env_ex\<lparr>xwrite := Some\<rparr>) 0x90000000 0x90000000 0 0 attest_ex = (SBI_ERR_SM_ENCLAVE_SUCCESS, s')"
proof -
  have "fst (copy_from_sm Some 0x90000000 0x80100000 sizeof_report m) = 0" for m
    using copy_from_sm_wrote [OF attest_ex_no_alias, of m] mprv_write_all [of "0x90000000" "mem_read m 0x80100000 sizeof_report" m]
    by (auto simp: wrote_def sizeof_report_def)
  moreover have "copy_to_sm Some d 0x90000000 0 m = (0, m)" for d m
    using copy_to_sm_bytes [of Some "0x90000000" 0 d m] by (simp add: no_alias_def)
  moreover have "ENCLAVE_EXISTS 0 attest_ex" "e_state (enclaves attest_ex ! 0) \<ge> FRESH"
    by (simp_all add: ENCLAVE_EXISTS_def attest_ex_def sm_zero_def enclave_zero_def less_eq_enclave_state_def cfg_defs)
  ultimately show ?thesis
    by (simp add: attest_enclave_def copy_enclave_data_def copy_enclave_report_def env_ex_def Let_def err_codes case_prod_unfold)
qed

theorem attestation_report_witness:
  "\<exists>s' m. attest_enclave (env_ex\<lparr>xwrite := Some\<rparr>) 0x90000000 0x90000000 0 0 attest_ex = (SBI_ERR_SM_ENCLAVE_SUCCESS, s') \<and>
     mprv_write Some 0x90000000 (replicate 64 9 @ word_bytes 0 @ replicate 1024 0 @ replicate 64 0 @
       replicate 64 1 @ replicate 32 3 @ replicate 64 2 @ replicate 32 4) m = Some (memory s')"
proof -
  let ?env = "env_ex\<lparr>xwrite := Some\<rparr>"
  obtain s' where s': "attest_enclave ?env 0x90000000 0x90000000 0 0 attest_ex = (SBI_ERR_SM_ENCLAVE_SUCCESS, s')"
    using attest_ex_succeeds by blast
  have r: "mem_read (\<lambda>_. 0) a n = replicate n 0" for a n by (simp add: mem_read_def map_replicate_const)
  have "\<exists>data m. mprv_read (xread ?env) (memory attest_ex) 0x90000000 (unat (0 :: u64)) = Some data \<and>
    (\<forall>x. \<not> unat (x - frame ?env) < sizeof_report \<longrightarrow> m x = memory attest_ex x) \<and>
    mprv_write (xwrite ?env) 0x90000000
      (let hash = e_hash (enclaves attest_ex ! unat (0 :: enclave_id))
       in hash @ word_bytes 0 @ data @
          mem_read (memory attest_ex) (frame ?env + REPORT_DATA + of_nat (unat (0 :: u64))) (ATTEST_DATA_MAXLEN - unat (0 :: u64)) @
          ed25519_sign ?env (hash @ word_bytes 0 @ data) (sm_public_key attest_ex) (sm_private_key attest_ex) @
          sm_hash attest_ex @ sm_public_key attest_ex @ sm_signature attest_ex @ dev_public_key attest_ex) m = Some (memory s')"
    by (rule attestation_report [OF s'])
      (use attest_ex_no_alias in \<open>simp_all add: no_alias_def env_ex_def keys_ok_def attest_ex_def\<close>)
  then show ?thesis
    using s' by (auto simp: Let_def attest_ex_def sm_zero_def enclave_zero_def env_ex_def r ATTEST_DATA_MAXLEN_def)
qed


end
